(* ===== verification/Prelude.thy ===== *)
theory Prelude
  imports Main "HOL-Library.Word"
begin

text \<open>
  Shared vocabulary of the development: the machine integers of the firmware and of the host
  driver, the little-endian byte codec both ends use for wire structs, the result type of the
  host operations, and the generic lemmas on words, lists and array updates that the component
  theories rely on.  The collection \<open>wire_simps\<close> gathers the codec equations.
\<close>

unbundle bit_operations_syntax

type_synonym u8 = "8 word"
type_synonym u16 = "16 word"
type_synonym u32 = "32 word"
type_synonym u64 = "64 word"
type_synonym bytes = "8 word list"

named_theorems wire_simps \<open>equations of the little-endian byte codec\<close>
named_theorems frame_simps \<open>fields an operation leaves alone\<close>

section \<open>Words\<close>

lemma unat_lt_u8 [simp]: "unat (x :: u8) < 256"
  using unsigned_less [of x, where ?'a = nat] by simp

lemma unat_le_u8: "unat (x :: u8) \<le> 255"
  using unat_lt_u8 [of x] by linarith

lemma unat_lt_u16 [simp]: "unat (x :: u16) < 65536"
  using unsigned_less [of x, where ?'a = nat] by simp

lemma unat_lt_u32 [simp]: "unat (x :: u32) < 4294967296"
  using unsigned_less [of x, where ?'a = nat] by simp

lemma unat_of_nat_u8 [simp]: "n < 256 \<Longrightarrow> unat (of_nat n :: u8) = n"
  by (simp add: unat_of_nat take_bit_eq_mod)

lemma unat_of_nat_u16 [simp]: "n < 65536 \<Longrightarrow> unat (of_nat n :: u16) = n"
  by (simp add: unat_of_nat take_bit_eq_mod)

lemma of_nat_eq_u8:
  "m < 256 \<Longrightarrow> n < 256 \<Longrightarrow> (of_nat m :: u8) = of_nat n \<longleftrightarrow> m = n"
  by (metis unat_of_nat_u8)

lemma unat_ucast_u8_u16 [simp]: "unat (ucast (x :: u8) :: u16) = unat x"
  by (simp add: unsigned_ucast_eq take_bit_nat_eq_self_iff order_less_trans [OF unat_lt_u8])

lemma unat_ucast_u16_u8:
  "unat (w :: u16) < 256 \<Longrightarrow> unat (ucast w :: u8) = unat w"
  by (simp add: unsigned_ucast_eq take_bit_nat_eq_self_iff)

text \<open>A free-running index that has not caught up with its partner gets one step closer.\<close>

lemma ring_distance_step:
  assumes "(t :: u8) \<noteq> h"
  shows "unat (h - (t + 1)) = unat (h - t) - 1" and "0 < unat (h - t)"
proof -
  have nz: "h - t \<noteq> 0"
    using assms by simp
  then show "0 < unat (h - t)"
    by (simp add: unat_gt_0)
  show "unat (h - (t + 1)) = unat (h - t) - 1"
    unfolding diff_diff_eq [symmetric] by (rule unat_minus_one [OF nz])
qed

lemma ring_distance_decreases:
  "(t :: u8) \<noteq> h \<Longrightarrow> unat (h - (t + 1)) < unat (h - t)"
  using ring_distance_step [of t h] by linarith

lemma unat_pow2:
  "k \<le> 7 \<Longrightarrow> unat (2 ^ k :: u8) = 2 ^ k"
proof -
  assume "k \<le> 7"
  then have "k = 0 \<or> k = 1 \<or> k = 2 \<or> k = 3 \<or> k = 4 \<or> k = 5 \<or> k = 6 \<or> k = 7"
    by arith
  then show ?thesis
    by (elim disjE) simp_all
qed

lemma unat_succ_u8:
  "unat (x :: u8) < 255 \<Longrightarrow> unat (x + 1) = Suc (unat x)"
  by (simp add: unat_word_ariths)

lemma unat_ucast_u8_u32 [simp]: "unat (ucast (x :: u8) :: u32) = unat x"
  by (simp add: unsigned_ucast_eq take_bit_nat_eq_self_iff order_less_trans [OF unat_lt_u8])

lemma unat_ucast_u16_u32 [simp]: "unat (ucast (x :: u16) :: u32) = unat x"
  by (simp add: unsigned_ucast_eq take_bit_nat_eq_self_iff order_less_trans [OF unat_lt_u16])

text \<open>The sign of a difference of free-running counters, as \<open>(int32_t)(a - b)\<close> tests it.\<close>

lemma bit_top:
  assumes "m < 2 * 2 ^ k"
  shows "bit (m :: nat) k \<longleftrightarrow> 2 ^ k \<le> m"
proof -
  have "m div 2 ^ k < 2"
    using assms by (simp add: div_less_iff_less_mult)
  then have "odd (m div 2 ^ k) \<longleftrightarrow> m div 2 ^ k \<noteq> 0"
    by (auto simp: less_2_cases_iff)
  then show ?thesis
    by (simp add: bit_iff_odd div_eq_0_iff not_less)
qed

lemma sint_nonneg_u32: "0 \<le> sint (x :: u32) \<longleftrightarrow> unat x < 2147483648"
  using bit_last_iff [of x] bit_top [of "unat x" 31] 
  by (simp add: bit_unsigned_iff not_le) (metis not_le)

lemma sint_nonneg_u8: "0 \<le> sint (x :: u8) \<longleftrightarrow> unat x < 128"
  using bit_last_iff [of x] bit_top [of "unat x" 7]
  by (simp add: bit_unsigned_iff not_le) (metis not_le)
  
lemma sint_pos_u8: "0 < sint (x :: u8) \<longleftrightarrow> unat x < 128 \<and> x \<noteq> 0"
proof -
  have "sint x = 0 \<longleftrightarrow> x = 0"
    by (metis signed_0 signed_word_eqI)
  then show ?thesis
    using sint_nonneg_u8 [of x] by auto
qed

lemma age_compare:
  assumes "unat (a :: u8) < 128" and "unat b < 128"
  shows "0 < sint (b - a) \<longleftrightarrow> unat a < unat b"
proof -
  have "b - a = 0 \<longleftrightarrow> unat a = unat b"
    by (metis eq_iff_diff_eq_0 unsigned_word_eqI)
  then show ?thesis
    using assms by (auto simp add: sint_pos_u8 unat_sub_if')
qed

text \<open>A timer armed at \<open>t0\<close> for \<open>d\<close> ticks: the signed comparison of a later reading.\<close>

lemma timer_elapsed:
  assumes "unat d < 2147483648" "unat (t - t0) < 2147483648"
  shows "0 \<le> sint (t - (t0 + d) :: u32) \<longleftrightarrow> unat d \<le> unat (t - t0)"
proof -
  have eq: "t - (t0 + d) = (t - t0) - d"
    by simp
  show ?thesis
    using assms unfolding sint_nonneg_u32 eq unat_sub_if' [of "t - t0" d] by auto
qed
section \<open>Arrays and lists\<close>

text \<open>A loop that stores \<open>g p\<close> at every index below \<open>n\<close>.\<close>

lemma fold_fun_upd:
  "fold (\<lambda>p m. m(p := g p)) [0..<n] m = (\<lambda>p. if p < n then g p else m p)"
  by (induction n) auto

text \<open>A loop over \<open>xs\<close> keeps what each of its rounds keeps.\<close>

lemma fold_keeps:
  "P s \<Longrightarrow> (\<And>x s. x \<in> set xs \<Longrightarrow> P s \<Longrightarrow> P (f x s)) \<Longrightarrow> P (fold f xs s)"
  by (induction xs arbitrary: s) auto

lemma filter_upt_Suc:
  "filter P [0..<Suc n] = filter P [0..<n] @ (if P n then [n] else [])"
  by simp

text \<open>\<open>memcpy\<close> of \<open>data\<close> to offset \<open>off\<close> of a buffer.\<close>

definition memcpy_at :: "nat \<Rightarrow> 'a list \<Rightarrow> 'a list \<Rightarrow> 'a list" where
  "memcpy_at off data buf = take off buf @ data @ drop (off + length data) buf"

lemma length_memcpy_at:
  "off + length data \<le> length buf \<Longrightarrow> length (memcpy_at off data buf) = length buf"
  by (simp add: memcpy_at_def)

lemma take_memcpy_at:
  "off + length data \<le> length buf \<Longrightarrow>
   take (off + length data) (memcpy_at off data buf) = take off buf @ data"
  by (simp add: memcpy_at_def)

section \<open>Little-endian fields\<close>

text \<open>
  Every multi-byte field of the protocol is little-endian; the firmware copies its structs
  verbatim (all supported microcontrollers are little-endian) or stores a half-word with
  \<open>put_u16\<close>.
\<close>

definition put_u16 :: "u16 \<Rightarrow> bytes" where
  "put_u16 v = [ucast (v AND 0xFF), ucast (drop_bit 8 v)]"

definition put_u32 :: "u32 \<Rightarrow> bytes" where
  "put_u32 v = put_u16 (ucast (v AND 0xFFFF)) @ put_u16 (ucast (drop_bit 16 v AND 0xFFFF))"

definition read_u8 :: "bytes \<Rightarrow> nat \<Rightarrow> u8" where
  "read_u8 bs off = bs ! off"

definition read_u16le :: "bytes \<Rightarrow> nat \<Rightarrow> u16" where
  "read_u16le bs off = ucast (bs ! off) OR push_bit 8 (ucast (bs ! (off + 1)))"

definition read_u32le :: "bytes \<Rightarrow> nat \<Rightarrow> u32" where
  "read_u32le bs off =
     ucast (read_u16le bs off) OR push_bit 16 (ucast (read_u16le bs (off + 2)))"

lemma length_put_u16 [simp]: "length (put_u16 v) = 2"
  by (simp add: put_u16_def)

lemma length_put_u32 [simp]: "length (put_u32 v) = 4"
  by (simp add: put_u32_def)

lemma mask8_u16: "(0xFF :: u16) = mask 8"
  by (simp add: mask_eq_exp_minus_1)

lemma mask16_u32: "(0xFFFF :: u32) = mask 16"
  by (simp add: mask_eq_exp_minus_1)

lemma u16_halves:
  "ucast (ucast ((v :: u16) AND 0xFF) :: u8) OR push_bit 8 (ucast (ucast (drop_bit 8 v) :: u8)) = v"
  unfolding mask8_u16 by (rule bit_word_eqI) (auto simp: bit_simps)

lemma u32_halves:
  "ucast (ucast ((v :: u32) AND 0xFFFF) :: u16)
     OR push_bit 16 (ucast (ucast (drop_bit 16 v AND 0xFFFF) :: u16)) = v"
  unfolding mask16_u32 by (rule bit_word_eqI) (auto simp: bit_simps)

text \<open>
  Reading a field steps over what precedes it: these equations walk to the field's offset in a
  struct written as an append of fields, and then read back what was put there.
\<close>

lemma read_u8_walk [wire_simps]:
  "read_u8 (x # bs) 0 = x"
  "0 < n \<Longrightarrow> read_u8 (x # bs) n = read_u8 bs (n - 1)"
  "2 \<le> n \<Longrightarrow> read_u8 (put_u16 v @ bs) n = read_u8 bs (n - 2)"
  "4 \<le> n \<Longrightarrow> read_u8 (put_u32 w @ bs) n = read_u8 bs (n - 4)"
  by (simp_all add: read_u8_def nth_append)

lemma read_u16le_skip:
  "length xs \<le> n \<Longrightarrow> read_u16le (xs @ bs) n = read_u16le bs (n - length xs)"
  by (simp add: read_u16le_def nth_append Suc_diff_le)

lemma read_u32le_skip:
  "length xs \<le> n \<Longrightarrow> read_u32le (xs @ bs) n = read_u32le bs (n - length xs)"
  by (simp add: read_u32le_def read_u16le_skip Suc_diff_le)

lemma read_u16le_walk [wire_simps]:
  "read_u16le (put_u16 v @ bs) 0 = v"
  "0 < n \<Longrightarrow> read_u16le (x # bs) n = read_u16le bs (n - 1)"
  "2 \<le> n \<Longrightarrow> read_u16le (put_u16 v @ bs) n = read_u16le bs (n - 2)"
  "4 \<le> n \<Longrightarrow> read_u16le (put_u32 w @ bs) n = read_u16le bs (n - 4)"
proof -
  show "read_u16le (put_u16 v @ bs) 0 = v"
    by (simp add: read_u16le_def put_u16_def u16_halves)
qed (use read_u16le_skip [of "[x]" n bs] read_u16le_skip [of "put_u16 v" n bs]
      read_u16le_skip [of "put_u32 w" n bs] in simp_all)

lemma read_u32le_walk [wire_simps]:
  "read_u32le (put_u32 w @ bs) 0 = w"
  "0 < n \<Longrightarrow> read_u32le (x # bs) n = read_u32le bs (n - 1)"
  "2 \<le> n \<Longrightarrow> read_u32le (put_u16 v @ bs) n = read_u32le bs (n - 2)"
  "4 \<le> n \<Longrightarrow> read_u32le (put_u32 w' @ bs) n = read_u32le bs (n - 4)"
proof -
  show "read_u32le (put_u32 w @ bs) 0 = w"
    by (simp add: read_u32le_def read_u16le_walk put_u32_def u32_halves)
qed (use read_u32le_skip [of "[x]" n bs] read_u32le_skip [of "put_u16 v" n bs]
      read_u32le_skip [of "put_u32 w'" n bs] in simp_all)

end
