(* ===== verification/Ring.thy ===== *)
theory Ring
  imports Prelude
begin

text \<open>
  The single-producer single-consumer rings of the firmware (\<open>src/src/UsbIo.h\<close>): the command
  queue, the event ring and the stream ring all pair an array of a power-of-two depth with two
  free-running 8-bit indices, and map an index to a slot with \<open>index & (depth - 1)\<close>.  A ring is
  refined to the list of its queued entries, oldest first, by \<open>ring_contents\<close>.
\<close>

record 'a ring =
  ring_slots :: "nat \<Rightarrow> 'a"
  ring_head :: u8
  ring_tail :: u8

definition slot_of :: "u8 \<Rightarrow> u8 \<Rightarrow> nat" where
  "slot_of depth i = unat (i AND (depth - 1))"

definition ring_pending :: "'a ring \<Rightarrow> u8" where
  "ring_pending r = ring_head r - ring_tail r"

definition ring_full :: "u8 \<Rightarrow> 'a ring \<Rightarrow> bool" where
  "ring_full depth r \<longleftrightarrow> depth \<le> ring_head r - ring_tail r"

definition ring_push :: "u8 \<Rightarrow> 'a \<Rightarrow> 'a ring \<Rightarrow> 'a ring" where
  "ring_push depth x r =
     r\<lparr>ring_slots := (ring_slots r)(slot_of depth (ring_head r) := x),
       ring_head := ring_head r + 1\<rparr>"

definition ring_front :: "u8 \<Rightarrow> 'a ring \<Rightarrow> 'a" where
  "ring_front depth r = ring_slots r (slot_of depth (ring_tail r))"

definition ring_drop :: "'a ring \<Rightarrow> 'a ring" where
  "ring_drop r = r\<lparr>ring_tail := ring_tail r + 1\<rparr>"

text \<open>The indices a loop \<open>for (i = tail; i != head; ++i)\<close> visits, in its order.\<close>

function walk :: "u8 \<Rightarrow> u8 \<Rightarrow> u8 list" where
  "walk i h = (if i \<noteq> h then i # walk (i + 1) h else [])"
  by pat_completeness auto
termination
  by (relation "measure (\<lambda>(i, h). unat (h - i))") (simp_all add: ring_distance_decreases)

declare walk.simps [simp del]

lemma walk_empty [simp]: "walk i i = []"
  by (simp add: walk.simps)

lemma walk_step: "i \<noteq> h \<Longrightarrow> walk i h = i # walk (i + 1) h"
  by (simp add: walk.simps [of i h])

lemma walk_eq: "walk i h = map (\<lambda>k. i + of_nat k) [0..<unat (h - i)]"
proof (induction i h rule: walk.induct)
  case (1 i h)
  show ?case
  proof (cases "i = h")
    case True
    then show ?thesis by simp
  next
    case False
    then have "unat (h - i) = Suc (unat (h - (i + 1)))"
      using ring_distance_step [of i h] by linarith
    then show ?thesis
      using 1 [OF False] False
      by (simp add: walk_step upt_rec [of 0] map_Suc_upt [symmetric] add.assoc comp_def
          del: upt_Suc)
  qed
qed

lemma length_walk: "length (walk i h) = unat (h - i)"
  by (simp add: walk_eq)

text \<open>The abstraction: the entries between tail and head, oldest first.\<close>

definition ring_contents :: "u8 \<Rightarrow> 'a ring \<Rightarrow> 'a list" where
  "ring_contents depth r =
     map (\<lambda>i. ring_slots r (slot_of depth i)) (walk (ring_tail r) (ring_head r))"

definition ring_ok :: "u8 \<Rightarrow> 'a ring \<Rightarrow> bool" where
  "ring_ok depth r \<longleftrightarrow> ring_pending r \<le> depth"

text \<open>
  The interface a ring depth satisfies: the two static assertions of \<open>UsbIo.cpp\<close> (a power of
  two, at most 128, so that an 8-bit difference never wraps past the depth).
\<close>

locale ring_depth =
  fixes depth :: u8
  assumes power_of_two: "\<exists>k \<le> 7. depth = 2 ^ k"
begin

lemma depth_exp:
  obtains k where "k \<le> 7" and "depth = 2 ^ k" and "unat depth = 2 ^ k" and "unat depth \<le> 128"
    and "0 < unat depth"
proof -
  from power_of_two obtain k where k: "k \<le> 7" "depth = 2 ^ k"
    by auto
  have lt: "(2::nat) ^ k \<le> 2 ^ 7"
    using k by (intro power_increasing) auto
  have "unat depth = 2 ^ k"
    using k lt by (simp add: unat_pow2)
  with k lt show thesis
    by (intro that) auto
qed

lemma slot_of_mod: "slot_of depth i = unat i mod unat depth"
proof -
  obtain k where k: "k \<le> 7" "depth = 2 ^ k" "unat depth = 2 ^ k"
    by (rule depth_exp)
  have "i AND (depth - 1) = take_bit k i"
    using k by (simp add: take_bit_eq_mask mask_eq_exp_minus_1)
  then show ?thesis
    using k by (simp add: slot_of_def unsigned_take_bit_eq flip: take_bit_eq_mod)
qed

lemma slot_of_eq:
  assumes "i < unat depth" and "j < unat depth"
  shows "slot_of depth (t + of_nat i) = slot_of depth (t + of_nat j) \<longleftrightarrow> i = j"
proof -
  obtain k where k: "k \<le> 7" "unat depth = 2 ^ k" "unat depth \<le> 128"
    by (rule depth_exp)
  then have dvd: "(2::nat) ^ k dvd 256"
    using le_imp_power_dvd [of k 8 "2::nat"] by simp
  have eq: "slot_of depth (t + of_nat m) = (unat t + m) mod 2 ^ k" if "m < unat depth" for m
    using that k dvd
    by (simp add: slot_of_mod unat_word_ariths mod_mod_cancel)
  have "(unat t + i) mod 2 ^ k = (unat t + j) mod 2 ^ k \<longleftrightarrow> i mod 2 ^ k = j mod 2 ^ k"
    by (simp add: mod_add_left_eq nat_mod_eq_iff add.commute)
  then show ?thesis
    using assms k by (simp add: eq)
qed

lemma length_contents: "length (ring_contents depth r) = unat (ring_pending r)"
  by (simp add: ring_contents_def length_walk ring_pending_def)

lemma not_full_iff: "\<not> ring_full depth r \<longleftrightarrow> length (ring_contents depth r) < unat depth"
  by (simp add: ring_full_def length_contents ring_pending_def word_le_nat_alt not_le)

lemma ring_ok_iff: "ring_ok depth r \<longleftrightarrow> length (ring_contents depth r) \<le> unat depth"
  by (simp add: ring_ok_def length_contents word_le_nat_alt)

lemma contents_empty_iff: "ring_contents depth r = [] \<longleftrightarrow> ring_tail r = ring_head r"
  by (metis length_0_conv length_contents ring_pending_def right_minus_eq unat_eq_zero)

lemma distinct_slots:
  assumes "ring_ok depth r"
  shows "distinct (map (slot_of depth) (walk (ring_tail r) (ring_head r)))"
proof -
  have "unat (ring_head r - ring_tail r) \<le> unat depth"
    using assms by (simp add: ring_ok_def ring_pending_def word_le_nat_alt)
  then show ?thesis
    by (auto simp: walk_eq distinct_map inj_on_def slot_of_eq comp_def)
qed

lemma contents_push:
  assumes "\<not> ring_full depth r"
  shows "ring_contents depth (ring_push depth x r) = ring_contents depth r @ [x]"
proof -
  let ?n = "unat (ring_pending r)"
  have n: "?n < unat depth"
    using assms by (simp add: not_full_iff length_contents)
  obtain k where "unat depth \<le> 128"
    by (rule depth_exp)
  have step: "ring_head r + 1 - ring_tail r = ring_pending r + 1"
    by (simp add: ring_pending_def)
  have pend: "unat (ring_head r + 1 - ring_tail r) = Suc ?n"
    unfolding step by (rule unat_succ_u8) (use n \<open>unat depth \<le> 128\<close> in simp)
  have head: "ring_head r = ring_tail r + of_nat ?n"
    by (simp add: ring_pending_def)
  have old: "slot_of depth (ring_tail r + of_nat i) \<noteq> slot_of depth (ring_head r)" if "i < ?n" for i
    by (subst head, subst slot_of_eq) (use that n in auto)
  have "walk (ring_tail r) (ring_head r + 1) = walk (ring_tail r) (ring_head r) @ [ring_head r]"
    unfolding walk_eq pend by (simp add: ring_pending_def)
  with old show ?thesis
    by (auto simp: ring_contents_def ring_push_def walk_eq ring_pending_def)
qed

lemma ok_push: "\<not> ring_full depth r \<Longrightarrow> ring_ok depth (ring_push depth x r)"
  by (simp add: ring_ok_iff contents_push not_full_iff)

lemma contents_front:
  assumes "ring_tail r \<noteq> ring_head r"
  shows "ring_contents depth r = ring_front depth r # ring_contents depth (ring_drop r)"
  using assms by (simp add: ring_contents_def walk_step ring_front_def ring_drop_def)

lemma ok_drop:
  "ring_tail r \<noteq> ring_head r \<Longrightarrow> ring_ok depth r \<Longrightarrow> ring_ok depth (ring_drop r)"
  using contents_front [of r] by (simp add: ring_ok_iff)

text \<open>Rewriting every queued entry in place, as one pass over the queued slots does.\<close>

lemma contents_map_in_place:
  assumes "ring_ok depth r"
  shows "ring_contents depth
      (r\<lparr>ring_slots := fold (\<lambda>i sl. sl(slot_of depth i := f (sl (slot_of depth i))))
          (walk (ring_tail r) (ring_head r)) (ring_slots r)\<rparr>) = map f (ring_contents depth r)"
proof -
  have one_pass: "fold (\<lambda>i sl. sl(slot_of depth i := f (sl (slot_of depth i)))) is sl (slot_of depth j)
      = (if j \<in> set is then f (sl (slot_of depth j)) else sl (slot_of depth j))"
    if "distinct (map (slot_of depth) is)" and "inj_on (slot_of depth) (insert j (set is))"
    for "is" :: "u8 list" and sl :: "nat \<Rightarrow> 'a" and j
    using that
  proof (induction "is" arbitrary: sl)
    case Nil
    then show ?case by simp
  next
    case (Cons i "is")
    then have "inj_on (slot_of depth) (insert j (set is))"
      by (auto simp: inj_on_def)
    with Cons show ?case
      by (auto simp: inj_on_def image_iff)
  qed
  show ?thesis
    using distinct_slots [OF assms]
    by (auto simp: ring_contents_def distinct_map one_pass insert_absorb)
qed

end

section \<open>The interface of a bounded FIFO\<close>

text \<open>
  What the firmware's producers rely on: a \<open>put\<close> appends while there is room and is refused
  once the capacity is reached, and never disturbs what is queued.  The command queue
  (\<open>enqueue\<close>), the event ring (\<open>push_event\<close>) and the stream ring are instances.
\<close>

locale bounded_fifo =
  fixes inv :: "'s \<Rightarrow> bool"
    and contents :: "'s \<Rightarrow> 'a list"
    and put :: "'a \<Rightarrow> 's \<Rightarrow> 's"
    and cap :: nat
  assumes put_room: "inv s \<Longrightarrow> length (contents s) < cap \<Longrightarrow> contents (put x s) = contents s @ [x]"
    and put_full: "inv s \<Longrightarrow> \<not> length (contents s) < cap \<Longrightarrow> contents (put x s) = contents s"
    and inv_put: "inv s \<Longrightarrow> inv (put x s)"
    and bounded: "inv s \<Longrightarrow> length (contents s) \<le> cap"
begin

lemma inv_puts: "inv s \<Longrightarrow> inv (fold put xs s)"
  by (induction xs arbitrary: s) (auto intro: inv_put)

text \<open>A burst of puts appends the longest prefix that fits, in order, and loses the rest.\<close>

lemma contents_puts:
  "inv s \<Longrightarrow> contents (fold put xs s) = contents s @ take (cap - length (contents s)) xs"
proof (induction xs arbitrary: s)
  case Nil
  then show ?case by simp
next
  case (Cons x xs)
  show ?case
  proof (cases "length (contents s) < cap")
    case True
    then have "cap - length (contents s) = Suc (cap - Suc (length (contents s)))"
      by simp
    with True Cons show ?thesis
      by (simp add: inv_put put_room)
  next
    case False
    with Cons show ?thesis
      by (simp add: inv_put put_full)
  qed
qed

lemma puts_fit:
  "inv s \<Longrightarrow> length (contents s) + length xs \<le> cap \<Longrightarrow> contents (fold put xs s) = contents s @ xs"
  by (simp add: contents_puts)

end

end
