(* ===== verification/Wire.thy ===== *)
theory Wire
  imports Prelude
begin

text \<open>
  The wire protocol of \<open>src/src/usbio_protocol.h\<close>, shared by the firmware and the host driver:
  request, status, pin-mode and edge codes, the capability and flag bits, the limits, and the
  reply layouts (each a record together with the bytes the struct occupies on the bus).
\<close>

section \<open>Codes\<close>

datatype usbio_request =
    USBIO_REQ_GET_INFO | USBIO_REQ_GET_PIN_CAPS | USBIO_REQ_PIN_MODE | USBIO_REQ_DIO_READ
  | USBIO_REQ_DIO_WRITE | USBIO_REQ_AI_READ | USBIO_REQ_PWM_WRITE | USBIO_REQ_DAC_WRITE
  | USBIO_REQ_DIO_READ_ALL | USBIO_REQ_AI_READ_ALL | USBIO_REQ_GET_STATUS
  | USBIO_REQ_STREAM_SELECT | USBIO_REQ_STREAM_START | USBIO_REQ_STREAM_STOP
  | USBIO_REQ_STREAM_STATUS | USBIO_REQ_GET_TIME | USBIO_REQ_EVENT_CONFIG
  | USBIO_REQ_EVENT_POP | USBIO_REQ_EVENT_COUNTS | USBIO_REQ_RESET

fun request_code :: "usbio_request \<Rightarrow> u8" where
  "request_code USBIO_REQ_GET_INFO = 0x00"
| "request_code USBIO_REQ_GET_PIN_CAPS = 0x01"
| "request_code USBIO_REQ_PIN_MODE = 0x02"
| "request_code USBIO_REQ_DIO_READ = 0x03"
| "request_code USBIO_REQ_DIO_WRITE = 0x04"
| "request_code USBIO_REQ_AI_READ = 0x05"
| "request_code USBIO_REQ_PWM_WRITE = 0x06"
| "request_code USBIO_REQ_DAC_WRITE = 0x07"
| "request_code USBIO_REQ_DIO_READ_ALL = 0x10"
| "request_code USBIO_REQ_AI_READ_ALL = 0x11"
| "request_code USBIO_REQ_GET_STATUS = 0x20"
| "request_code USBIO_REQ_STREAM_SELECT = 0x30"
| "request_code USBIO_REQ_STREAM_START = 0x31"
| "request_code USBIO_REQ_STREAM_STOP = 0x32"
| "request_code USBIO_REQ_STREAM_STATUS = 0x33"
| "request_code USBIO_REQ_GET_TIME = 0x21"
| "request_code USBIO_REQ_EVENT_CONFIG = 0x40"
| "request_code USBIO_REQ_EVENT_POP = 0x41"
| "request_code USBIO_REQ_EVENT_COUNTS = 0x42"
| "request_code USBIO_REQ_RESET = 0x7F"

definition all_requests :: "usbio_request list" where
  "all_requests =
     [USBIO_REQ_GET_INFO, USBIO_REQ_GET_PIN_CAPS, USBIO_REQ_PIN_MODE, USBIO_REQ_DIO_READ,
      USBIO_REQ_DIO_WRITE, USBIO_REQ_AI_READ, USBIO_REQ_PWM_WRITE, USBIO_REQ_DAC_WRITE,
      USBIO_REQ_DIO_READ_ALL, USBIO_REQ_AI_READ_ALL, USBIO_REQ_GET_STATUS,
      USBIO_REQ_STREAM_SELECT, USBIO_REQ_STREAM_START, USBIO_REQ_STREAM_STOP,
      USBIO_REQ_STREAM_STATUS, USBIO_REQ_GET_TIME, USBIO_REQ_EVENT_CONFIG,
      USBIO_REQ_EVENT_POP, USBIO_REQ_EVENT_COUNTS, USBIO_REQ_RESET]"

text \<open>The label a \<open>switch (bRequest)\<close> jumps to; \<open>None\<close> is its \<open>default\<close>.\<close>

definition request_of :: "u8 \<Rightarrow> usbio_request option" where
  "request_of b = map_of (map (\<lambda>r. (request_code r, r)) all_requests) b"

datatype usbio_status =
    USBIO_OK | USBIO_BUSY | USBIO_BAD_PIN | USBIO_BAD_MODE | USBIO_BAD_CMD
  | USBIO_UNSUPPORTED | USBIO_QUEUE_FULL | USBIO_BAD_VALUE

fun status_code :: "usbio_status \<Rightarrow> u8" where
  "status_code USBIO_OK = 0"
| "status_code USBIO_BUSY = 1"
| "status_code USBIO_BAD_PIN = 2"
| "status_code USBIO_BAD_MODE = 3"
| "status_code USBIO_BAD_CMD = 4"
| "status_code USBIO_UNSUPPORTED = 5"
| "status_code USBIO_QUEUE_FULL = 6"
| "status_code USBIO_BAD_VALUE = 7"

definition all_statuses :: "usbio_status list" where
  "all_statuses = [USBIO_OK, USBIO_BUSY, USBIO_BAD_PIN, USBIO_BAD_MODE, USBIO_BAD_CMD,
     USBIO_UNSUPPORTED, USBIO_QUEUE_FULL, USBIO_BAD_VALUE]"

definition status_of :: "u8 \<Rightarrow> usbio_status option" where
  "status_of b = map_of (map (\<lambda>s. (status_code s, s)) all_statuses) b"

datatype usbio_pin_mode =
    USBIO_MODE_INPUT | USBIO_MODE_OUTPUT | USBIO_MODE_INPUT_PULLUP | USBIO_MODE_INPUT_PULLDOWN
  | USBIO_MODE_ANALOG_IN | USBIO_MODE_PWM | USBIO_MODE_DAC

fun mode_code :: "usbio_pin_mode \<Rightarrow> u8" where
  "mode_code USBIO_MODE_INPUT = 0"
| "mode_code USBIO_MODE_OUTPUT = 1"
| "mode_code USBIO_MODE_INPUT_PULLUP = 2"
| "mode_code USBIO_MODE_INPUT_PULLDOWN = 3"
| "mode_code USBIO_MODE_ANALOG_IN = 4"
| "mode_code USBIO_MODE_PWM = 5"
| "mode_code USBIO_MODE_DAC = 6"

definition USBIO_MODE_COUNT :: u16 where
  "USBIO_MODE_COUNT = 7"

definition all_modes :: "usbio_pin_mode list" where
  "all_modes = [USBIO_MODE_INPUT, USBIO_MODE_OUTPUT, USBIO_MODE_INPUT_PULLUP,
     USBIO_MODE_INPUT_PULLDOWN, USBIO_MODE_ANALOG_IN, USBIO_MODE_PWM, USBIO_MODE_DAC]"

definition mode_of :: "u8 \<Rightarrow> usbio_pin_mode option" where
  "mode_of b = map_of (map (\<lambda>m. (mode_code m, m)) all_modes) b"

datatype usbio_edge_mode =
    USBIO_EDGE_OFF | USBIO_EDGE_RISING | USBIO_EDGE_FALLING | USBIO_EDGE_CHANGE

fun edge_code :: "usbio_edge_mode \<Rightarrow> u8" where
  "edge_code USBIO_EDGE_OFF = 0"
| "edge_code USBIO_EDGE_RISING = 1"
| "edge_code USBIO_EDGE_FALLING = 2"
| "edge_code USBIO_EDGE_CHANGE = 3"

definition USBIO_EDGE_COUNT :: u8 where
  "USBIO_EDGE_COUNT = 4"

definition all_edges :: "usbio_edge_mode list" where
  "all_edges = [USBIO_EDGE_OFF, USBIO_EDGE_RISING, USBIO_EDGE_FALLING, USBIO_EDGE_CHANGE]"

definition edge_of :: "u8 \<Rightarrow> usbio_edge_mode option" where
  "edge_of b = map_of (map (\<lambda>e. (edge_code e, e)) all_edges) b"

text \<open>The board identifiers of GET_INFO; the high byte is the architecture family.\<close>

datatype usbio_board_id =
    USBIO_BOARD_UNO_R4_MINIMA | USBIO_BOARD_NANO_R4 | USBIO_BOARD_RENESAS_GENERIC
  | USBIO_BOARD_PORTENTA_H7 | USBIO_BOARD_GIGA_R1 | USBIO_BOARD_NANO_33_BLE
  | USBIO_BOARD_MBED_GENERIC | USBIO_BOARD_ZERO | USBIO_BOARD_MKR | USBIO_BOARD_NANO_33_IOT
  | USBIO_BOARD_SAMD_GENERIC | USBIO_BOARD_NANO_RP2040_CONNECT | USBIO_BOARD_RP2040_GENERIC
  | USBIO_BOARD_NANO_ESP32 | USBIO_BOARD_ESP32_GENERIC

fun board_id_code :: "usbio_board_id \<Rightarrow> u16" where
  "board_id_code USBIO_BOARD_UNO_R4_MINIMA = 0x0101"
| "board_id_code USBIO_BOARD_NANO_R4 = 0x0102"
| "board_id_code USBIO_BOARD_RENESAS_GENERIC = 0x01FF"
| "board_id_code USBIO_BOARD_PORTENTA_H7 = 0x0201"
| "board_id_code USBIO_BOARD_GIGA_R1 = 0x0202"
| "board_id_code USBIO_BOARD_NANO_33_BLE = 0x0203"
| "board_id_code USBIO_BOARD_MBED_GENERIC = 0x02FF"
| "board_id_code USBIO_BOARD_ZERO = 0x0301"
| "board_id_code USBIO_BOARD_MKR = 0x0302"
| "board_id_code USBIO_BOARD_NANO_33_IOT = 0x0303"
| "board_id_code USBIO_BOARD_SAMD_GENERIC = 0x03FF"
| "board_id_code USBIO_BOARD_NANO_RP2040_CONNECT = 0x0401"
| "board_id_code USBIO_BOARD_RP2040_GENERIC = 0x04FF"
| "board_id_code USBIO_BOARD_NANO_ESP32 = 0x0501"
| "board_id_code USBIO_BOARD_ESP32_GENERIC = 0x05FF"

section \<open>Bits and limits\<close>

abbreviation (input) USBIO_CAP_DIO :: u8 where "USBIO_CAP_DIO \<equiv> 1"
abbreviation (input) USBIO_CAP_AIN :: u8 where "USBIO_CAP_AIN \<equiv> 2"
abbreviation (input) USBIO_CAP_PWM :: u8 where "USBIO_CAP_PWM \<equiv> 4"
abbreviation (input) USBIO_CAP_DAC :: u8 where "USBIO_CAP_DAC \<equiv> 8"

abbreviation (input) USBIO_FLAG_VENDOR_INTERFACE :: u16 where "USBIO_FLAG_VENDOR_INTERFACE \<equiv> 1"
abbreviation (input) USBIO_FLAG_PULLDOWN :: u16 where "USBIO_FLAG_PULLDOWN \<equiv> 2"
abbreviation (input) USBIO_FLAG_STREAMING :: u16 where "USBIO_FLAG_STREAMING \<equiv> 4"
abbreviation (input) USBIO_FLAG_EVENTS :: u16 where "USBIO_FLAG_EVENTS \<equiv> 8"

abbreviation (input) USBIO_STREAM_FLAG_DIGITAL :: u16 where "USBIO_STREAM_FLAG_DIGITAL \<equiv> 1"
abbreviation (input) USBIO_STREAM_FLAG_STOP_ON_OVERRUN :: u16 where
  "USBIO_STREAM_FLAG_STOP_ON_OVERRUN \<equiv> 2"

abbreviation (input) USBIO_MAX_PINS :: nat where "USBIO_MAX_PINS \<equiv> 128"
abbreviation (input) USBIO_MAX_AIN :: nat where "USBIO_MAX_AIN \<equiv> 32"
abbreviation (input) USBIO_QUEUE_DEPTH :: u8 where "USBIO_QUEUE_DEPTH \<equiv> 32"
abbreviation (input) USBIO_MAX_REPLY_LEN :: nat where "USBIO_MAX_REPLY_LEN \<equiv> 128"
abbreviation (input) USBIO_STREAM_MAGIC :: u16 where "USBIO_STREAM_MAGIC \<equiv> 0x5355"
abbreviation (input) USBIO_STREAM_EP_SIZE :: u16 where "USBIO_STREAM_EP_SIZE \<equiv> 64"
abbreviation (input) USBIO_MAX_STREAM_CHANNELS :: u8 where "USBIO_MAX_STREAM_CHANNELS \<equiv> 8"
abbreviation (input) USBIO_STREAM_MIN_PERIOD_US :: u16 where "USBIO_STREAM_MIN_PERIOD_US \<equiv> 1"
abbreviation (input) USBIO_STREAM_LEGACY_MIN_PERIOD_US :: u16 where
  "USBIO_STREAM_LEGACY_MIN_PERIOD_US \<equiv> 100"
abbreviation (input) USBIO_MAX_EVENT_PINS :: nat where "USBIO_MAX_EVENT_PINS \<equiv> 8"
abbreviation (input) USBIO_EVENT_QUEUE_DEPTH :: u8 where "USBIO_EVENT_QUEUE_DEPTH \<equiv> 32"
abbreviation (input) USBIO_MAX_EVENTS_PER_POP :: nat where "USBIO_MAX_EVENTS_PER_POP \<equiv> 7"
abbreviation (input) USBIO_MAX_DEBOUNCE_MS :: nat where "USBIO_MAX_DEBOUNCE_MS \<equiv> 255"
abbreviation (input) USBIO_PROTOCOL_VERSION :: u16 where "USBIO_PROTOCOL_VERSION \<equiv> 1"

text \<open>\<open>"UIO1"\<close>, not NUL terminated.\<close>

definition USBIO_MAGIC :: bytes where
  "USBIO_MAGIC = [0x55, 0x49, 0x4F, 0x31]"

section \<open>Codes are unambiguous\<close>

lemma request_of_code [simp]: "request_of (request_code r) = Some r"
  by (cases r) (simp_all add: request_of_def all_requests_def)

lemma request_of_SomeD: "request_of b = Some r \<Longrightarrow> b = request_code r"
  by (auto simp: request_of_def all_requests_def split: if_splits)

lemma request_of_iff: "request_of b = Some r \<longleftrightarrow> b = request_code r"
  using request_of_SomeD by auto

lemma status_of_code [simp]: "status_of (status_code s) = Some s"
  by (cases s) (simp_all add: status_of_def all_statuses_def)

lemma status_of_SomeD: "status_of b = Some s \<Longrightarrow> b = status_code s"
  by (auto simp: status_of_def all_statuses_def split: if_splits)

lemma status_of_iff: "status_of b = Some s \<longleftrightarrow> b = status_code s"
  using status_of_SomeD by auto

lemma status_code_eq_iff [simp]: "status_code s = status_code s' \<longleftrightarrow> s = s'"
  by (metis option.inject status_of_code)

lemma mode_of_code [simp]: "mode_of (mode_code m) = Some m"
  by (cases m) (simp_all add: mode_of_def all_modes_def)

lemma mode_of_SomeD: "mode_of b = Some m \<Longrightarrow> b = mode_code m"
  by (auto simp: mode_of_def all_modes_def split: if_splits)

lemma mode_of_iff: "mode_of b = Some m \<longleftrightarrow> b = mode_code m"
  using mode_of_SomeD by auto

lemma mode_code_less: "mode_code m < 7"
  by (cases m) simp_all

lemma mode_of_None_iff: "mode_of b = None \<longleftrightarrow> 7 \<le> b"
proof -
  have "b < 7 \<Longrightarrow> b = 0 \<or> b = 1 \<or> b = 2 \<or> b = 3 \<or> b = 4 \<or> b = 5 \<or> b = 6"
    by unat_arith
  then show ?thesis
    by (auto simp: mode_of_def all_modes_def not_less [symmetric])
qed

lemma edge_of_code [simp]: "edge_of (edge_code e) = Some e"
  by (cases e) (simp_all add: edge_of_def all_edges_def)

lemma edge_of_SomeD: "edge_of b = Some e \<Longrightarrow> b = edge_code e"
  by (auto simp: edge_of_def all_edges_def split: if_splits)

lemma edge_of_iff: "edge_of b = Some e \<longleftrightarrow> b = edge_code e"
  using edge_of_SomeD by auto

lemma edge_of_None_iff: "edge_of b = None \<longleftrightarrow> USBIO_EDGE_COUNT \<le> b"
proof -
  have "b < 4 \<Longrightarrow> b = 0 \<or> b = 1 \<or> b = 2 \<or> b = 3"
    by unat_arith
  then show ?thesis
    by (auto simp: edge_of_def all_edges_def USBIO_EDGE_COUNT_def not_less [symmetric])
qed

section \<open>Reply layouts\<close>

text \<open>
  Each reply struct as a record and as the bytes \<open>memcpy\<close> puts on the wire; the fields are
  naturally aligned, so there is no padding beyond the named reserved fields.
\<close>

record usbio_info =
  info_protocol_version :: u16
  info_board_id :: u16
  info_n_pins :: u8
  info_n_ain :: u8
  info_adc_bits :: u8
  info_pwm_bits :: u8
  info_dac_bits :: u8
  info_queue_depth :: u8
  info_vref_mv :: u16
  info_io_mv :: u16
  info_flags :: u16
  info_stream_max_channels :: u8
  info_event_max_pins :: u8
  info_stream_min_period_us :: u16

definition info_bytes :: "usbio_info \<Rightarrow> bytes" where
  "info_bytes i = USBIO_MAGIC @ put_u16 (info_protocol_version i) @ put_u16 (info_board_id i)
     @ [info_n_pins i, info_n_ain i, info_adc_bits i, info_pwm_bits i, info_dac_bits i,
        info_queue_depth i]
     @ put_u16 (info_vref_mv i) @ put_u16 (info_io_mv i) @ put_u16 (info_flags i)
     @ [info_stream_max_channels i, info_event_max_pins i]
     @ put_u16 (info_stream_min_period_us i)"

definition dio_reply_bytes :: "usbio_status \<Rightarrow> u8 \<Rightarrow> bytes" where
  "dio_reply_bytes status value = [status_code status, value]"

definition ai_reply_bytes :: "usbio_status \<Rightarrow> u16 \<Rightarrow> bytes" where
  "ai_reply_bytes status raw = [status_code status, 0] @ put_u16 raw"

definition all_header_bytes :: "usbio_status \<Rightarrow> bytes" where
  "all_header_bytes status = [status_code status, 0]"

definition status_reply_bytes :: "u8 \<Rightarrow> usbio_status \<Rightarrow> bytes" where
  "status_reply_bytes pending last_error =
     [status_code USBIO_OK, pending, status_code last_error, 0]"

definition time_reply_bytes :: "u32 \<Rightarrow> u32 \<Rightarrow> bytes" where
  "time_reply_bytes ms us = [status_code USBIO_OK, 0] @ put_u16 0 @ put_u32 ms @ put_u32 us"

record usbio_event_header =
  eh_status :: u8
  eh_count :: u8
  eh_dropped :: u8
  eh_pending :: u8

definition event_header_bytes :: "usbio_event_header \<Rightarrow> bytes" where
  "event_header_bytes h = [eh_status h, eh_count h, eh_dropped h, eh_pending h]"

record usbio_event =
  ev_pin :: u8
  ev_edge :: u8
  ev_seq :: u16
  ev_t_ms :: u32

definition event_bytes :: "usbio_event \<Rightarrow> bytes" where
  "event_bytes e = [ev_pin e, ev_edge e] @ put_u16 (ev_seq e) @ put_u32 (ev_t_ms e)"

record usbio_event_count =
  ec_pin :: u8
  ec_mode :: u8
  ec_count :: u16

definition event_count_bytes :: "usbio_event_count \<Rightarrow> bytes" where
  "event_count_bytes c = [ec_pin c, ec_mode c] @ put_u16 (ec_count c)"

record usbio_stream_status =
  ss_status :: u8
  ss_running :: u8
  ss_n_channels :: u8
  ss_flags :: u8
  ss_period_us :: u16
  ss_seq :: u32
  ss_overruns :: u32

definition stream_status_bytes :: "usbio_stream_status \<Rightarrow> bytes" where
  "stream_status_bytes s = [ss_status s, ss_running s, ss_n_channels s, ss_flags s]
     @ put_u16 (ss_period_us s) @ put_u16 0 @ put_u32 (ss_seq s) @ put_u32 (ss_overruns s)"

record usbio_stream_header =
  sh_magic :: u16
  sh_n_samples :: u16
  sh_seq :: u32
  sh_t_us :: u32

definition stream_header_bytes :: "usbio_stream_header \<Rightarrow> bytes" where
  "stream_header_bytes h = put_u16 (sh_magic h) @ put_u16 (sh_n_samples h)
     @ put_u32 (sh_seq h) @ put_u32 (sh_t_us h)"

text \<open>The sizes the header asserts with \<open>USBIO_STATIC_ASSERT(sizeof(...) == ...)\<close>.\<close>

lemma reply_sizes [simp]:
  "length (info_bytes i) = 24" "length (dio_reply_bytes st v) = 2"
  "length (ai_reply_bytes st raw) = 4" "length (all_header_bytes st) = 2"
  "length (status_reply_bytes p le) = 4" "length (time_reply_bytes ms us) = 12"
  "length (event_header_bytes h) = 4" "length (event_bytes e) = 8"
  "length (event_count_bytes c) = 4" "length (stream_status_bytes ss) = 16"
  "length (stream_header_bytes sh) = 12"
  by (simp_all add: info_bytes_def USBIO_MAGIC_def dio_reply_bytes_def ai_reply_bytes_def
      all_header_bytes_def status_reply_bytes_def time_reply_bytes_def event_header_bytes_def
      event_bytes_def event_count_bytes_def stream_status_bytes_def stream_header_bytes_def)

end
