(* ===== verification/State.thy ===== *)
theory State
  imports Ring Wire
begin

text \<open>
  The state of the firmware core (\<open>class UsbIoDevice\<close>, \<open>src/src/UsbIo.h\<close>), the board it is
  compiled for, and the Arduino core it calls.  The Arduino core and the USB stack are not part
  of the repository: they are the record \<open>arduino\<close> of functions on an abstract outside world
  \<open>'h\<close>, which every definition that makes such a call takes as an argument.
\<close>

section \<open>The board and the Arduino core\<close>

text \<open>
  What \<open>UsbIoBoard\<close> and the transport of the selected architecture provide; \<open>Boards\<close> builds
  one for each architecture of the repository.
\<close>

record board =
  pin_count :: u8
  pin_has_dio :: "u8 \<Rightarrow> bool"
  pin_has_ain :: "u8 \<Rightarrow> bool"
  pin_has_pwm :: "u8 \<Rightarrow> bool"
  pin_has_dac :: "u8 \<Rightarrow> bool"
  BoardId :: u16
  AdcBits :: u8
  PwmBits :: u8
  DacBits :: u8
  VrefMv :: u16
  IoMv :: u16
  HasPulldown :: bool
  has_stream_transport :: bool
  transport_flags :: u16
  stream_packet_max :: u16
  packet_buffer_len :: nat

text \<open>What the repository's own static assertions and its transports guarantee of a board.\<close>

definition wf_board :: "board \<Rightarrow> bool" where
  "wf_board b \<longleftrightarrow>
     unat (pin_count b) \<le> USBIO_MAX_PINS \<and> DacBits b \<le> PwmBits b \<and> PwmBits b \<le> 16 \<and>
     transport_flags b AND (USBIO_FLAG_PULLDOWN OR USBIO_FLAG_EVENTS) = 0 \<and>
     (transport_flags b AND USBIO_FLAG_STREAMING \<noteq> 0 \<longrightarrow> has_stream_transport b) \<and>
     63 \<le> unat (stream_packet_max b) \<and> unat (stream_packet_max b) \<le> packet_buffer_len b \<and>
     packet_buffer_len b < 512"

datatype pin_direction = INPUT | OUTPUT | INPUT_PULLUP | INPUT_PULLDOWN

datatype write_result =
    USBIO_STREAM_WRITE_SENT | USBIO_STREAM_WRITE_BUSY | USBIO_STREAM_WRITE_FAILED

text \<open>
  \<open>digitalRead\<close> answers whether the pad is \<open>HIGH\<close>; \<open>analogRead\<close> returns a C \<open>int\<close>.
  \<open>stream_write\<close> is \<open>usbio_transport_stream_write\<close> of the USB stack.
\<close>

record 'h arduino =
  pinMode :: "u8 \<Rightarrow> pin_direction \<Rightarrow> 'h \<Rightarrow> 'h"
  digitalWrite :: "u8 \<Rightarrow> bool \<Rightarrow> 'h \<Rightarrow> 'h"
  digitalRead :: "u8 \<Rightarrow> 'h \<Rightarrow> bool \<times> 'h"
  analogRead :: "u8 \<Rightarrow> 'h \<Rightarrow> int \<times> 'h"
  analogWrite :: "u8 \<Rightarrow> nat \<Rightarrow> 'h \<Rightarrow> 'h"
  analogReadResolution :: "u8 \<Rightarrow> 'h \<Rightarrow> 'h"
  analogWriteResolution :: "u8 \<Rightarrow> 'h \<Rightarrow> 'h"
  millis :: "'h \<Rightarrow> u32 \<times> 'h"
  micros :: "'h \<Rightarrow> u32 \<times> 'h"
  stream_write :: "bytes \<Rightarrow> 'h \<Rightarrow> write_result \<times> 'h"

section \<open>The device object\<close>

text \<open>One queued OUT request (\<open>struct Command\<close>).\<close>

record command =
  cmd_request :: usbio_request
  cmd_pin :: u8
  cmd_epoch :: u8
  cmd_value :: u16

text \<open>One watched pin (\<open>struct EventWatch\<close>).\<close>

record event_watch =
  w_pin :: u8
  w_active :: bool
  w_edge_mode :: usbio_edge_mode
  w_debounce_ms :: u8
  w_arm_seq :: u8
  w_seen_seq :: u8
  w_prev_level :: u8
  w_debounce_until :: u32
  w_count :: u16

definition EventTombstone :: u8 where
  "EventTombstone = 0xFF"

definition StreamRingDepth :: u8 where
  "StreamRingDepth = 32"

definition StreamTxFailureLimit :: u8 where
  "StreamTxFailureLimit = 3"

definition StreamFlushUs :: u16 where
  "StreamFlushUs = 2000"

definition StreamRecordMaxLen :: nat where
  "StreamRecordMaxLen = 12 + 2 * unat USBIO_MAX_STREAM_CHANNELS + (((USBIO_MAX_PINS + 7) div 8 + 1) div 2) * 2"

text \<open>
  The private members, grouped as \<open>UsbIo.h\<close> groups them.  \<open>_mode[p]\<close> holds a pin mode or
  \<open>ModeNone\<close>, here an option.  The per-pin arrays are functions of the pin number; every
  access in the code is at a pin below \<open>_n_pins\<close>, which \<open>fw_inv\<close> bounds by the array length.
  A \<open>StreamRecord\<close> is the list of its \<open>len\<close> bytes.
\<close>

record fw =
  fw_n_pins :: u8
  fw_n_ain :: u8
  fw_flags :: u16
  fw_caps :: "u8 \<Rightarrow> u8"
  fw_mode :: "u8 \<Rightarrow> usbio_pin_mode option"
  fw_dio :: "u8 \<Rightarrow> u8"
  fw_ain :: "u8 \<Rightarrow> u16"
  fw_queue :: "command ring"
  fw_epoch :: u8
  fw_reset_requests :: u8
  fw_reset_done :: u8
  fw_last_error :: usbio_status
  fw_ain_cursor :: u8
  fw_watch :: "nat \<Rightarrow> event_watch"
  fw_n_watched :: u8
  fw_arm_seq :: u8
  fw_events :: "usbio_event ring"
  fw_dropped :: u8
  fw_channels :: "nat \<Rightarrow> u8"
  fw_n_channels :: u8
  fw_running :: bool
  fw_stream_flags :: u8
  fw_period_us :: u16
  fw_seq :: u32
  fw_overruns :: u32
  fw_start_requests :: u8
  fw_start_done :: u8
  fw_deadline_us :: u32
  fw_records :: "bytes ring"
  fw_tx_failures :: u8
  fw_packet :: bytes
  fw_packet_len :: u16
  fw_packet_records :: u8
  fw_record_len :: u8
  fw_packet_since_us :: u32

text \<open>The loop \<open>for (uint8_t p = 0; p < n; ++p)\<close> visits these pins.\<close>

definition pins_below :: "u8 \<Rightarrow> u8 list" where
  "pins_below n = map of_nat [0..<unat n]"

definition empty_watch :: event_watch where
  "empty_watch = \<lparr>w_pin = 0, w_active = False, w_edge_mode = USBIO_EDGE_OFF, w_debounce_ms = 0,
     w_arm_seq = 0, w_seen_seq = 0, w_prev_level = 0, w_debounce_until = 0, w_count = 0\<rparr>"

text \<open>The constructor \<open>UsbIoDevice()\<close>: every index and array zeroed, every mode unset.\<close>

definition construct :: "board \<Rightarrow> fw" where
  "construct b = \<lparr>fw_n_pins = 0, fw_n_ain = 0, fw_flags = 0, fw_caps = (\<lambda>_. 0),
     fw_mode = (\<lambda>_. None), fw_dio = (\<lambda>_. 0), fw_ain = (\<lambda>_. 0),
     fw_queue = \<lparr>ring_slots = (\<lambda>_. \<lparr>cmd_request = USBIO_REQ_GET_INFO, cmd_pin = 0,
       cmd_epoch = 0, cmd_value = 0\<rparr>), ring_head = 0, ring_tail = 0\<rparr>,
     fw_epoch = 0, fw_reset_requests = 0, fw_reset_done = 0, fw_last_error = USBIO_OK,
     fw_ain_cursor = 0, fw_watch = (\<lambda>_. empty_watch), fw_n_watched = 0, fw_arm_seq = 0,
     fw_events = \<lparr>ring_slots = (\<lambda>_. \<lparr>ev_pin = 0, ev_edge = 0, ev_seq = 0, ev_t_ms = 0\<rparr>),
       ring_head = 0, ring_tail = 0\<rparr>,
     fw_dropped = 0, fw_channels = (\<lambda>_. 0), fw_n_channels = 0, fw_running = False,
     fw_stream_flags = 0, fw_period_us = 0, fw_seq = 0, fw_overruns = 0,
     fw_start_requests = 0, fw_start_done = 0, fw_deadline_us = 0,
     fw_records = \<lparr>ring_slots = (\<lambda>_. []), ring_head = 0, ring_tail = 0\<rparr>,
     fw_tx_failures = 0, fw_packet = replicate (packet_buffer_len b) 0, fw_packet_len = 0,
     fw_packet_records = 0, fw_record_len = 0, fw_packet_since_us = 0\<rparr>"

section \<open>Setup\<close>

text \<open>One round of the capability discovery loop of \<open>begin()\<close>.\<close>

definition begin_pin :: "board \<Rightarrow> u8 \<Rightarrow> fw \<Rightarrow> fw" where
  "begin_pin b p s =
     (let dio = (if pin_has_dio b p then USBIO_CAP_DIO else 0);
          take_ain = (pin_has_ain b p \<and> unat (fw_n_ain s) < USBIO_MAX_AIN);
          ain = (if take_ain then USBIO_CAP_AIN else 0);
          pwm = (if pin_has_pwm b p then USBIO_CAP_PWM else 0);
          dac = (if DacBits b \<noteq> 0 \<and> pin_has_dac b p then USBIO_CAP_DAC else 0)
      in s\<lparr>fw_n_ain := (if take_ain then fw_n_ain s + 1 else fw_n_ain s),
           fw_caps := (fw_caps s)(p := dio OR ain OR pwm OR dac),
           fw_mode := (fw_mode s)(p := None),
           fw_dio := (fw_dio s)(p := 0),
           fw_ain := (fw_ain s)(p := 0)\<rparr>)"

definition begin_device :: "board \<Rightarrow> 'h arduino \<Rightarrow> fw \<Rightarrow> 'h \<Rightarrow> fw \<times> 'h" where
  "begin_device b A s h =
     (let s1 = s\<lparr>fw_n_pins := pin_count b, fw_n_ain := 0\<rparr>;
          s2 = fold (begin_pin b) (pins_below (pin_count b)) s1;
          h1 = analogReadResolution A (AdcBits b) h;
          h2 = analogWriteResolution A (PwmBits b) h1;
          s3 = s2\<lparr>fw_flags := (if HasPulldown b then USBIO_FLAG_PULLDOWN else 0)\<rparr>;
          s4 = s3\<lparr>fw_flags := fw_flags s3 OR USBIO_FLAG_EVENTS\<rparr>
      in (s4\<lparr>fw_flags := fw_flags s4 OR transport_flags b\<rparr>, h2))"

end
