(* ===== verification/Core.thy ===== *)
theory Core
  imports State
begin

text \<open>
  The board-agnostic helpers of \<open>src/src/UsbIo.cpp\<close> shared by the interrupt side and the
  \<open>loop()\<close> side: stalling a request, the command queue, the mode predicates and RESET.
  Lemmas: the command queue is a bounded FIFO, and the closed form of RESET.
\<close>

definition full_scale :: "u8 \<Rightarrow> u16" where
  "full_scale bits = (if 16 \<le> bits then 0xFFFF else push_bit (unat bits) 1 - 1)"

definition stall :: "usbio_status \<Rightarrow> fw \<Rightarrow> bool \<times> fw" where
  "stall reason s = (False, s\<lparr>fw_last_error := reason\<rparr>)"

definition queue_pending :: "fw \<Rightarrow> u8" where
  "queue_pending s = ring_pending (fw_queue s)"

definition busy :: "fw \<Rightarrow> bool" where
  "busy s \<longleftrightarrow> queue_pending s \<noteq> 0 \<or> fw_reset_done s \<noteq> fw_reset_requests s"

definition enqueue :: "usbio_request \<Rightarrow> u8 \<Rightarrow> u16 \<Rightarrow> fw \<Rightarrow> bool \<times> fw" where
  "enqueue req pin val s =
     (if ring_full USBIO_QUEUE_DEPTH (fw_queue s) then (False, s)
      else (True, s\<lparr>fw_queue := ring_push USBIO_QUEUE_DEPTH
              \<lparr>cmd_request = req, cmd_pin = pin, cmd_epoch = fw_epoch s, cmd_value = val\<rparr>
              (fw_queue s)\<rparr>))"

definition request_reset :: "board \<Rightarrow> fw \<Rightarrow> fw" where
  "request_reset b s =
     (let s1 = s\<lparr>fw_epoch := fw_epoch s + 1\<rparr>;
          s2 = s1\<lparr>fw_mode := fold (\<lambda>p m. m(p :=
                  if fw_caps s1 p AND USBIO_CAP_DIO \<noteq> 0 then Some USBIO_MODE_INPUT else None))
                  (pins_below (fw_n_pins s1)) (fw_mode s1)\<rparr>;
          s3 = (if has_stream_transport b then s2\<lparr>fw_running := False, fw_n_channels := 0\<rparr> else s2);
          s4 = s3\<lparr>fw_watch := fold (\<lambda>i w. w(i := (w i)\<lparr>w_active := False\<rparr>))
                  [0..<USBIO_MAX_EVENT_PINS] (fw_watch s3)\<rparr>;
          s5 = s4\<lparr>fw_n_watched := 0,
                  fw_events := (fw_events s4)\<lparr>ring_tail := ring_head (fw_events s4)\<rparr>,
                  fw_dropped := 0\<rparr>
      in s5\<lparr>fw_reset_requests := fw_reset_requests s5 + 1\<rparr>)"

fun mode_allowed :: "board \<Rightarrow> u8 \<Rightarrow> usbio_pin_mode \<Rightarrow> bool" where
  "mode_allowed b caps USBIO_MODE_INPUT = (caps AND USBIO_CAP_DIO \<noteq> 0)"
| "mode_allowed b caps USBIO_MODE_OUTPUT = (caps AND USBIO_CAP_DIO \<noteq> 0)"
| "mode_allowed b caps USBIO_MODE_INPUT_PULLUP = (caps AND USBIO_CAP_DIO \<noteq> 0)"
| "mode_allowed b caps USBIO_MODE_INPUT_PULLDOWN = (caps AND USBIO_CAP_DIO \<noteq> 0 \<and> HasPulldown b)"
| "mode_allowed b caps USBIO_MODE_ANALOG_IN = (caps AND USBIO_CAP_AIN \<noteq> 0)"
| "mode_allowed b caps USBIO_MODE_PWM = (caps AND USBIO_CAP_PWM \<noteq> 0)"
| "mode_allowed b caps USBIO_MODE_DAC = (caps AND USBIO_CAP_DAC \<noteq> 0)"

definition mode_is_input :: "usbio_pin_mode option \<Rightarrow> bool" where
  "mode_is_input m \<longleftrightarrow> m = Some USBIO_MODE_INPUT \<or> m = Some USBIO_MODE_INPUT_PULLUP \<or>
     m = Some USBIO_MODE_INPUT_PULLDOWN"

definition mode_is_digital :: "usbio_pin_mode option \<Rightarrow> bool" where
  "mode_is_digital m \<longleftrightarrow> mode_is_input m \<or> m = Some USBIO_MODE_OUTPUT"

section \<open>Pin loops\<close>

lemma set_pins_below [simp]: "set (pins_below n) = {p. p < n}"
proof -
  have "p \<in> of_nat ` {0..<unat n}" if "p < n" for p :: u8
    using that by (intro image_eqI [of _ _ "unat p"]) (simp_all add: word_less_nat_alt)
  moreover have "(of_nat k :: u8) < n" if "k < unat n" for k
    using that order_less_trans [OF that unat_lt_u8] by (simp add: word_less_nat_alt)
  ultimately show ?thesis
    by (auto simp: pins_below_def)
qed

lemma distinct_pins_below [simp]: "distinct (pins_below n)"
proof -
  have "inj_on (of_nat :: nat \<Rightarrow> u8) {0..<unat n}"
    by (rule inj_onI) (metis atLeastLessThan_iff of_nat_eq_u8 order_less_trans unat_lt_u8)
  then show ?thesis
    by (simp add: pins_below_def distinct_map)
qed

lemma length_pins_below [simp]: "length (pins_below n) = unat n"
  by (simp add: pins_below_def)

lemma fold_upd_set: "fold (\<lambda>p m. m(p := g p)) ps m = (\<lambda>p. if p \<in> set ps then g p else m p)"
  by (induction ps arbitrary: m) auto

lemma fold_upd_self:
  "distinct is \<Longrightarrow> fold (\<lambda>i w. w(i := g (w i))) is w = (\<lambda>i. if i \<in> set is then g (w i) else w i)"
  by (induction "is" arbitrary: w) auto

section \<open>The command queue\<close>

interpretation ring32: ring_depth USBIO_QUEUE_DEPTH
  by unfold_locales (rule exI [of _ 5], simp)

abbreviation commands :: "fw \<Rightarrow> command list" where
  "commands s \<equiv> ring_contents USBIO_QUEUE_DEPTH (fw_queue s)"

definition put_command :: "usbio_request \<times> u8 \<times> u16 \<Rightarrow> fw \<Rightarrow> fw" where
  "put_command c s = snd (case c of (req, pin, val) \<Rightarrow> enqueue req pin val s)"

text \<open>What the queue holds for its consumer, less the epoch stamp \<open>enqueue\<close> adds.\<close>

definition queued_requests :: "fw \<Rightarrow> (usbio_request \<times> u8 \<times> u16) list" where
  "queued_requests s = map (\<lambda>c. (cmd_request c, cmd_pin c, cmd_value c)) (commands s)"

lemma enqueue_iff: "fst (enqueue req pin val s) \<longleftrightarrow> length (commands s) < 32"
  using ring32.not_full_iff [of "fw_queue s"] by (auto simp: enqueue_def)

lemma enqueue_commands:
  "fst (enqueue req pin val s) \<Longrightarrow> commands (snd (enqueue req pin val s)) =
     commands s @ [\<lparr>cmd_request = req, cmd_pin = pin, cmd_epoch = fw_epoch s, cmd_value = val\<rparr>]"
  by (auto simp: enqueue_def ring32.contents_push split: if_splits)

interpretation cmd_fifo: bounded_fifo
  "\<lambda>s. ring_ok USBIO_QUEUE_DEPTH (fw_queue s)" queued_requests put_command 32
proof
  fix s :: fw and x :: "usbio_request \<times> u8 \<times> u16"
  obtain req pin val where x: "x = (req, pin, val)"
    by (cases x)
  have len: "length (queued_requests s) = length (commands s)"
    by (simp add: queued_requests_def)
  assume ok: "ring_ok USBIO_QUEUE_DEPTH (fw_queue s)"
  show "length (queued_requests s) \<le> 32"
    using ok by (simp add: len ring32.ring_ok_iff)
  show "ring_ok USBIO_QUEUE_DEPTH (fw_queue (put_command x s))"
    using ok by (simp add: x put_command_def enqueue_def ring32.ok_push)
  show "queued_requests (put_command x s) = queued_requests s @ [x]"
    if "length (queued_requests s) < 32"
    using that enqueue_iff [of req pin val s]
    by (simp add: len x put_command_def queued_requests_def enqueue_commands)
  show "queued_requests (put_command x s) = queued_requests s"
    if "\<not> length (queued_requests s) < 32"
    using that enqueue_iff [of req pin val s]
    by (auto simp: len x put_command_def enqueue_def split: if_splits)
qed

section \<open>RESET\<close>

lemma request_reset_eq:
  "request_reset b s = s\<lparr>
     fw_mode := (\<lambda>p. if p < fw_n_pins s
        then if fw_caps s p AND USBIO_CAP_DIO \<noteq> 0 then Some USBIO_MODE_INPUT else None
        else fw_mode s p),
     fw_epoch := fw_epoch s + 1,
     fw_reset_requests := fw_reset_requests s + 1,
     fw_watch := (\<lambda>i. if i < 8 then (fw_watch s i)\<lparr>w_active := False\<rparr> else fw_watch s i),
     fw_n_watched := 0,
     fw_events := (fw_events s)\<lparr>ring_tail := ring_head (fw_events s)\<rparr>,
     fw_dropped := 0,
     fw_n_channels := (if has_stream_transport b then 0 else fw_n_channels s),
     fw_running := (if has_stream_transport b then False else fw_running s)\<rparr>"
  by (simp add: request_reset_def Let_def fold_upd_set fold_upd_self fun_eq_iff)

end
