(* ===== verification/Events.thy ===== *)
theory Events
  imports Core "HOL-Library.Multiset"
begin

text \<open>
  Pin events (\<open>src/src/UsbIo.cpp\<close>, section "pin events", and the EVENT_POP / EVENT_COUNTS
  replies of \<open>handle_in\<close>): the watch table EVENT_CONFIG edits from the interrupt, the edge
  scanner \<open>event_poll\<close> runs from \<open>loop()\<close>, and the bounded event ring between them.
\<close>

section \<open>The watch table\<close>

text \<open>The first slot below \<open>USBIO_MAX_EVENT_PINS\<close> that satisfies \<open>P\<close>, as the scan loops find it.\<close>

definition first_slot :: "(nat \<Rightarrow> bool) \<Rightarrow> nat option" where
  "first_slot P = find P [0..<USBIO_MAX_EVENT_PINS]"

definition event_watch_index :: "fw \<Rightarrow> u8 \<Rightarrow> nat option" where
  "event_watch_index s pin = first_slot (\<lambda>i. w_active (fw_watch s i) \<and> w_pin (fw_watch s i) = pin)"

definition find_free_event_slot :: "fw \<Rightarrow> nat" where
  "find_free_event_slot s =
     (case first_slot (\<lambda>i. \<not> w_active (fw_watch s i)) of Some i \<Rightarrow> i | None \<Rightarrow> 0)"

text \<open>\<open>_event_watch[idx].active = 0; --_event_n_watched;\<close>\<close>

definition unwatch :: "nat \<Rightarrow> fw \<Rightarrow> fw" where
  "unwatch i s = s\<lparr>fw_watch := (fw_watch s)(i := (fw_watch s i)\<lparr>w_active := False\<rparr>),
     fw_n_watched := fw_n_watched s - 1\<rparr>"

definition discard_events_for_pin :: "u8 \<Rightarrow> fw \<Rightarrow> fw" where
  "discard_events_for_pin pin s =
     (let r = fw_events s in
      s\<lparr>fw_events := r\<lparr>ring_slots := fold
          (\<lambda>i sl. let k = slot_of USBIO_EVENT_QUEUE_DEPTH i in
             sl(k := if ev_pin (sl k) = pin then (sl k)\<lparr>ev_pin := EventTombstone\<rparr> else sl k))
          (walk (ring_tail r) (ring_head r)) (ring_slots r)\<rparr>\<rparr>)"

definition count_queued_events :: "fw \<Rightarrow> u8" where
  "count_queued_events s =
     (let r = fw_events s in
      fold (\<lambda>i n. if ev_pin (ring_slots r (slot_of USBIO_EVENT_QUEUE_DEPTH i)) \<noteq> EventTombstone
                  then n + 1 else n)
        (walk (ring_tail r) (ring_head r)) 0)"

text \<open>Arming: capability and mode, edge value, capacity, then the slot is filled and published.\<close>

definition arm_event :: "u8 \<Rightarrow> u8 \<Rightarrow> u8 \<Rightarrow> fw \<Rightarrow> bool \<times> fw" where
  "arm_event pin edge debounce s =
     (if fw_caps s pin AND USBIO_CAP_DIO = 0 \<or> \<not> mode_is_input (fw_mode s pin)
      then stall USBIO_BAD_MODE s
      else case edge_of edge of
        None \<Rightarrow> stall USBIO_BAD_VALUE s
      | Some e \<Rightarrow>
         let idx = event_watch_index s pin in
         if idx = None \<and> USBIO_MAX_EVENT_PINS \<le> unat (fw_n_watched s)
         then stall USBIO_BAD_VALUE s
         else
           let i = (case idx of Some j \<Rightarrow> j | None \<Rightarrow> find_free_event_slot s);
               n = (case idx of Some _ \<Rightarrow> fw_n_watched s | None \<Rightarrow> fw_n_watched s + 1);
               stamp = fw_arm_seq s + 1;
               w = (fw_watch s i)\<lparr>w_pin := pin, w_edge_mode := e, w_debounce_ms := debounce,
                     w_arm_seq := stamp, w_active := True\<rparr>
           in (True, s\<lparr>fw_watch := (fw_watch s)(i := w), fw_n_watched := n, fw_arm_seq := stamp\<rparr>))"

definition handle_event_config :: "u8 \<Rightarrow> u16 \<Rightarrow> fw \<Rightarrow> bool \<times> fw" where
  "handle_event_config pin wValue s =
     (let edge = (ucast (wValue AND 0xFF) :: u8) in
      if edge = edge_code USBIO_EDGE_OFF
      then (True, case event_watch_index s pin of
              Some i \<Rightarrow> discard_events_for_pin pin (unwatch i s)
            | None \<Rightarrow> s)
      else arm_event pin edge (ucast (drop_bit 8 wValue)) s)"

section \<open>Edge detection\<close>

definition push_event :: "u8 \<Rightarrow> u8 \<Rightarrow> u16 \<Rightarrow> u32 \<Rightarrow> fw \<Rightarrow> fw" where
  "push_event pin edge seqno now s =
     (if ring_full USBIO_EVENT_QUEUE_DEPTH (fw_events s)
      then if fw_dropped s < 0xFF then s\<lparr>fw_dropped := fw_dropped s + 1\<rparr> else s
      else s\<lparr>fw_events := ring_push USBIO_EVENT_QUEUE_DEPTH
              \<lparr>ev_pin = pin, ev_edge = edge, ev_seq = seqno, ev_t_ms = now\<rparr> (fw_events s)\<rparr>)"

text \<open>One round of the scan loop of \<open>event_poll\<close>, for the watch in slot \<open>i\<close>.\<close>

definition scan_watch :: "u32 \<Rightarrow> nat \<Rightarrow> fw \<Rightarrow> fw" where
  "scan_watch now i s =
     (let w = fw_watch s i; pin = w_pin w in
      if \<not> w_active w then s
      else if w_seen_seq w \<noteq> w_arm_seq w then
        s\<lparr>fw_watch := (fw_watch s)(i := w\<lparr>w_seen_seq := w_arm_seq w, w_count := 0,
            w_prev_level := fw_dio s pin, w_debounce_until := now\<rparr>)\<rparr>
      else
        let level = fw_dio s pin in
        if level = w_prev_level w then s
        else
          let w1 = w\<lparr>w_prev_level := level\<rparr>;
              s1 = s\<lparr>fw_watch := (fw_watch s)(i := w1)\<rparr>;
              rising = (level \<noteq> 0);
              matches = (w_edge_mode w = USBIO_EDGE_CHANGE \<or>
                (if rising then w_edge_mode w = USBIO_EDGE_RISING
                 else w_edge_mode w = USBIO_EDGE_FALLING))
          in if \<not> matches \<or> sint (now - w_debounce_until w) < 0 then s1
             else
               let w2 = w1\<lparr>w_count := w_count w + 1,
                     w_debounce_until := now + ucast (w_debounce_ms w)\<rparr>
               in push_event pin
                    (edge_code (if rising then USBIO_EDGE_RISING else USBIO_EDGE_FALLING))
                    (w_count w2) now (s1\<lparr>fw_watch := (fw_watch s1)(i := w2)\<rparr>))"

definition event_poll :: "'h arduino \<Rightarrow> fw \<Rightarrow> 'h \<Rightarrow> fw \<times> 'h" where
  "event_poll A s h =
     (if fw_n_pins s = 0 then (s, h)
      else let (now, h1) = millis A h in
        (fold (scan_watch now) [0..<USBIO_MAX_EVENT_PINS] s, h1))"

section \<open>EVENT_POP and EVENT_COUNTS\<close>

text \<open>The loop \<open>while (tail != _event_head && hdr.count < cap)\<close>; \<open>acc\<close> is what it copied.\<close>

function pop_loop :: "usbio_event ring \<Rightarrow> nat \<Rightarrow> u8 \<Rightarrow> usbio_event list \<Rightarrow> u8 \<times> usbio_event list" where
  "pop_loop r cap tail acc =
     (if tail \<noteq> ring_head r \<and> length acc < cap
      then let e = ring_slots r (slot_of USBIO_EVENT_QUEUE_DEPTH tail) in
           pop_loop r cap (tail + 1) (if ev_pin e = EventTombstone then acc else acc @ [e])
      else (tail, acc))"
  by pat_completeness auto
termination
  by (relation "measure (\<lambda>(r, cap, tail, acc). unat (ring_head r - tail))")
    (simp_all add: ring_distance_decreases)

declare pop_loop.simps [simp del]

definition pop_cap :: "u16 \<Rightarrow> nat" where
  "pop_cap wIndex =
     (if wIndex = 0 \<or> USBIO_MAX_EVENTS_PER_POP < unat wIndex then USBIO_MAX_EVENTS_PER_POP
      else unat wIndex)"

definition reply_event_pop :: "u16 \<Rightarrow> fw \<Rightarrow> bytes \<times> fw" where
  "reply_event_pop wIndex s =
     (let (tail, es) = pop_loop (fw_events s) (pop_cap wIndex) (ring_tail (fw_events s)) [];
          s1 = s\<lparr>fw_events := (fw_events s)\<lparr>ring_tail := tail\<rparr>\<rparr>;
          dropped = fw_dropped s1;
          s2 = s1\<lparr>fw_dropped := 0\<rparr>;
          hdr = \<lparr>eh_status = status_code USBIO_OK, eh_count = of_nat (length es),
                 eh_dropped = dropped, eh_pending = count_queued_events s2\<rparr>
      in (event_header_bytes hdr @ concat (map event_bytes es), s2))"

text \<open>
  The insertion sort of EVENT_COUNTS: \<open>shift_in\<close> is the inner \<open>while\<close>, which moves later
  entries up until the key fits (its index \<open>b\<close> is \<open>j - 1\<close>), \<open>insertion_sort\<close> the outer \<open>for\<close>.
\<close>

fun shift_in :: "('a \<Rightarrow> 'a \<Rightarrow> bool) \<Rightarrow> 'a \<Rightarrow> nat \<Rightarrow> 'a list \<Rightarrow> 'a list" where
  "shift_in gt key 0 order = order[0 := key]"
| "shift_in gt key (Suc b) order =
     (if gt (order ! b) key then shift_in gt key b (order[Suc b := order ! b])
      else order[Suc b := key])"

definition insertion_sort :: "('a \<Rightarrow> 'a \<Rightarrow> bool) \<Rightarrow> 'a list \<Rightarrow> 'a list" where
  "insertion_sort gt order =
     fold (\<lambda>a ord. shift_in gt (ord ! a) a ord) [1..<length order] order"

definition armed_later :: "fw \<Rightarrow> nat \<Rightarrow> nat \<Rightarrow> bool" where
  "armed_later s i j \<longleftrightarrow> 0 < sint (w_arm_seq (fw_watch s i) - w_arm_seq (fw_watch s j))"

definition active_slots :: "fw \<Rightarrow> nat list" where
  "active_slots s = filter (\<lambda>i. w_active (fw_watch s i)) [0..<USBIO_MAX_EVENT_PINS]"

definition reply_event_counts :: "fw \<Rightarrow> bytes" where
  "reply_event_counts s =
     (let order = insertion_sort (armed_later s) (active_slots s);
          hdr = \<lparr>eh_status = status_code USBIO_OK, eh_count = of_nat (length order),
                 eh_dropped = 0, eh_pending = 0\<rparr>;
          entry = (\<lambda>i. let w = fw_watch s i in event_count_bytes
            \<lparr>ec_pin = w_pin w, ec_mode = edge_code (w_edge_mode w), ec_count = w_count w\<rparr>)
      in event_header_bytes hdr @ concat (map entry order))"

section \<open>The event ring\<close>

abbreviation queued_events :: "fw \<Rightarrow> usbio_event list" where
  "queued_events s \<equiv> ring_contents USBIO_EVENT_QUEUE_DEPTH (fw_events s)"

text \<open>What a host can still read: the queued events less those an OFF has discarded.\<close>

definition live_events :: "fw \<Rightarrow> usbio_event list" where
  "live_events s = filter (\<lambda>e. ev_pin e \<noteq> EventTombstone) (queued_events s)"

definition put_event :: "usbio_event \<Rightarrow> fw \<Rightarrow> fw" where
  "put_event e = push_event (ev_pin e) (ev_edge e) (ev_seq e) (ev_t_ms e)"

lemma push_event_room:
  "length (queued_events s) < 32 \<Longrightarrow> queued_events (push_event pin edge q now s) =
     queued_events s @ [\<lparr>ev_pin = pin, ev_edge = edge, ev_seq = q, ev_t_ms = now\<rparr>]"
  using ring32.not_full_iff [of "fw_events s"] by (simp add: push_event_def ring32.contents_push)

lemma push_event_full:
  "\<not> length (queued_events s) < 32 \<Longrightarrow> push_event pin edge q now s =
     (if fw_dropped s < 0xFF then s\<lparr>fw_dropped := fw_dropped s + 1\<rparr> else s)"
  using ring32.not_full_iff [of "fw_events s"] by (simp add: push_event_def)

interpretation event_fifo: bounded_fifo
  "\<lambda>s. ring_ok USBIO_EVENT_QUEUE_DEPTH (fw_events s)" queued_events put_event 32
proof
  fix s :: fw and e :: usbio_event
  assume ok: "ring_ok USBIO_EVENT_QUEUE_DEPTH (fw_events s)"
  show "length (queued_events s) \<le> 32"
    using ok by (simp add: ring32.ring_ok_iff)
  show "ring_ok USBIO_EVENT_QUEUE_DEPTH (fw_events (put_event e s))"
    using ok by (simp add: put_event_def push_event_def ring32.ok_push)
  show "queued_events (put_event e s) = queued_events s @ [e]" if "length (queued_events s) < 32"
    using that by (simp add: put_event_def push_event_room)
  show "queued_events (put_event e s) = queued_events s" if "\<not> length (queued_events s) < 32"
    using that by (simp add: put_event_def push_event_full)
qed

lemma count_live:
  "fold (\<lambda>i n. if P i then n + 1 else n) is (n :: u8) = n + of_nat (length (filter P is))"
  by (induction "is" arbitrary: n) simp_all

lemma count_queued_events_eq: "count_queued_events s = of_nat (length (live_events s))"
  by (simp add: count_queued_events_def Let_def count_live live_events_def ring_contents_def
      filter_map comp_def)

lemma queued_events_discard:
  assumes "ring_ok USBIO_EVENT_QUEUE_DEPTH (fw_events s)"
  shows "queued_events (discard_events_for_pin pin s) =
    map (\<lambda>e. if ev_pin e = pin then e\<lparr>ev_pin := EventTombstone\<rparr> else e) (queued_events s)"
  using ring32.contents_map_in_place [OF assms,
      of "\<lambda>e. if ev_pin e = pin then e\<lparr>ev_pin := EventTombstone\<rparr> else e"]
  by (simp add: discard_events_for_pin_def Let_def)

lemma live_events_discard:
  assumes "ring_ok USBIO_EVENT_QUEUE_DEPTH (fw_events s)" and "pin \<noteq> EventTombstone"
  shows "live_events (discard_events_for_pin pin s) =
    filter (\<lambda>e. ev_pin e \<noteq> pin) (live_events s)"
proof -
  have "filter (\<lambda>e. ev_pin e \<noteq> EventTombstone)
      (map (\<lambda>e. if ev_pin e = pin then e\<lparr>ev_pin := EventTombstone\<rparr> else e) es) =
      filter (\<lambda>e. ev_pin e \<noteq> pin) (filter (\<lambda>e. ev_pin e \<noteq> EventTombstone) es)" for es
    using assms(2) by (induction es) auto
  then show ?thesis
    by (simp add: live_events_def queued_events_discard [OF assms(1)])
qed

section \<open>EVENT_POP\<close>

abbreviation (input) is_live :: "usbio_event \<Rightarrow> bool" where
  "is_live e \<equiv> ev_pin e \<noteq> EventTombstone"

lemma contents_from:
  "tail \<noteq> ring_head r \<Longrightarrow> ring_contents d (r\<lparr>ring_tail := tail\<rparr>) =
     ring_slots r (slot_of d tail) # ring_contents d (r\<lparr>ring_tail := tail + 1\<rparr>)"
  by (simp add: ring_contents_def walk_step)

lemma contents_from_head [simp]: "ring_contents d (r\<lparr>ring_tail := ring_head r\<rparr>) = []"
  by (simp add: ring_contents_def)

abbreviation live_from :: "usbio_event ring \<Rightarrow> u8 \<Rightarrow> usbio_event list" where
  "live_from r t \<equiv> filter is_live (ring_contents USBIO_EVENT_QUEUE_DEPTH (r\<lparr>ring_tail := t\<rparr>))"

lemma pop_loop_spec:
  "length acc \<le> cap \<Longrightarrow> pop_loop r cap tail acc = (tail', es) \<Longrightarrow>
   es = acc @ take (cap - length acc) (live_from r tail) \<and>
   live_from r tail' = drop (cap - length acc) (live_from r tail)"
proof (induction r cap tail acc rule: pop_loop.induct)
  case (1 r cap tail acc)
  let ?e = "ring_slots r (slot_of USBIO_EVENT_QUEUE_DEPTH tail)"
  let ?acc = "if ev_pin ?e = EventTombstone then acc else acc @ [?e]"
  show ?case
  proof (cases "tail \<noteq> ring_head r \<and> length acc < cap")
    case True
    have live: "live_from r tail = (if is_live ?e then [?e] else []) @ live_from r (tail + 1)"
      using True by (simp add: contents_from)
    have "es = ?acc @ take (cap - length ?acc) (live_from r (tail + 1)) \<and>
        live_from r tail' = drop (cap - length ?acc) (live_from r (tail + 1))"
      using 1(1) [OF True refl] 1(2,3) True
      by (simp add: pop_loop.simps [of r cap tail acc] Let_def split: if_splits)
    moreover have "cap - length acc = Suc (cap - Suc (length acc))"
      using True by arith
    ultimately show ?thesis
      by (simp add: live)
  next
    case False
    then have "tail' = tail" "es = acc"
      using 1(3) unfolding pop_loop.simps [of r cap tail acc] if_not_P [OF False] by simp_all
    moreover have "cap - length acc = 0 \<or> live_from r tail = []"
      using False 1(2) by auto
    ultimately show ?thesis
      by auto
  qed
qed

lemma pop_loop_pending:
  "pop_loop r cap tail acc = (tail', es) \<Longrightarrow>
   unat (ring_head r - tail') \<le> unat (ring_head r - tail)"
proof (induction r cap tail acc rule: pop_loop.induct)
  case (1 r cap tail acc)
  show ?case
  proof (cases "tail \<noteq> ring_head r \<and> length acc < cap")
    case True
    with 1(2) have "unat (ring_head r - tail') \<le> unat (ring_head r - (tail + 1))"
      by (intro 1(1) [OF True refl]) (simp add: pop_loop.simps [of r cap tail acc] Let_def)
    then show ?thesis
      using True ring_distance_decreases [of tail "ring_head r"] by linarith
  next
    case False
    then have "tail' = tail"
      using 1(2) unfolding pop_loop.simps [of r cap tail acc] if_not_P [OF False] by simp
    then show ?thesis by simp
  qed
qed

text \<open>
  EVENT_POP hands over the oldest live events, at most the cap, in order; exactly those leave
  the ring, the header counts them and what is left, and the drop counter is read and cleared.
\<close>

definition popped :: "u16 \<Rightarrow> fw \<Rightarrow> usbio_event list" where
  "popped wIndex s = take (pop_cap wIndex) (live_events s)"

lemma event_pop_events:
  "live_events (snd (reply_event_pop wIndex s)) = drop (pop_cap wIndex) (live_events s)"
  using pop_loop_spec [of "[]" "pop_cap wIndex" "fw_events s" "ring_tail (fw_events s)"]
  by (simp add: reply_event_pop_def live_events_def Let_def split: prod.split)

lemma event_pop_reply:
  "fst (reply_event_pop wIndex s) =
     event_header_bytes \<lparr>eh_status = 0, eh_count = of_nat (length (popped wIndex s)),
       eh_dropped = fw_dropped s,
       eh_pending = of_nat (length (live_events s) - length (popped wIndex s))\<rparr>
     @ concat (map event_bytes (popped wIndex s))"
proof -
  have "length (live_events s) - min (length (live_events s)) (pop_cap wIndex) =
      length (live_events s) - pop_cap wIndex"
    by simp
  then show ?thesis
    using pop_loop_spec [of "[]" "pop_cap wIndex" "fw_events s" "ring_tail (fw_events s)"]
    by (cases "pop_loop (fw_events s) (pop_cap wIndex) (ring_tail (fw_events s)) []")
      (simp add: reply_event_pop_def live_events_def popped_def count_queued_events_eq)
qed

lemma event_pop_frame:
  "snd (reply_event_pop wIndex s) =
     s\<lparr>fw_events := fw_events (snd (reply_event_pop wIndex s)), fw_dropped := 0\<rparr>"
  by (simp add: reply_event_pop_def Let_def split: prod.split)

lemma event_pop_ok:
  assumes "ring_ok USBIO_EVENT_QUEUE_DEPTH (fw_events s)"
  shows "ring_ok USBIO_EVENT_QUEUE_DEPTH (fw_events (snd (reply_event_pop wIndex s)))"
  using pop_loop_pending [of "fw_events s" "pop_cap wIndex" "ring_tail (fw_events s)" "[]"] assms
  by (fastforce simp: reply_event_pop_def Let_def ring_ok_def ring_pending_def word_le_nat_alt
      split: prod.split)

lemma pop_cap_bounds: "1 \<le> pop_cap wIndex \<and> pop_cap wIndex \<le> 7"
  by (simp add: pop_cap_def unat_gt_0 Suc_le_eq)

section \<open>The watch table as a map\<close>

lemma first_slot_SomeD: "first_slot P = Some i \<Longrightarrow> i < 8 \<and> P i"
  by (auto simp: first_slot_def find_Some_iff)

lemma first_slot_None_iff: "first_slot P = None \<longleftrightarrow> (\<forall>i < 8. \<not> P i)"
  by (auto simp: first_slot_def find_None_iff)

text \<open>Each watched pin with its edge mode and debounce time.\<close>

definition watching :: "fw \<Rightarrow> u8 \<Rightarrow> (usbio_edge_mode \<times> u8) option" where
  "watching s pin = map_option
     (\<lambda>i. (w_edge_mode (fw_watch s i), w_debounce_ms (fw_watch s i))) (event_watch_index s pin)"

text \<open>
  The table's invariant: \<open>_event_n_watched\<close> counts the active slots, no pin is watched twice, and
  every watched pin exists, is digital and in an INPUT mode.
\<close>

definition watch_inv :: "fw \<Rightarrow> bool" where
  "watch_inv s \<longleftrightarrow>
     unat (fw_n_watched s) = length (active_slots s) \<and>
     distinct (map (\<lambda>i. w_pin (fw_watch s i)) (active_slots s)) \<and>
     (\<forall>i \<in> set (active_slots s).
        w_pin (fw_watch s i) < fw_n_pins s \<and> mode_is_input (fw_mode s (w_pin (fw_watch s i))) \<and>
        fw_caps s (w_pin (fw_watch s i)) AND USBIO_CAP_DIO \<noteq> 0 \<and>
        w_edge_mode (fw_watch s i) \<noteq> USBIO_EDGE_OFF)"

lemma active_slots_iff: "i \<in> set (active_slots s) \<longleftrightarrow> i < 8 \<and> w_active (fw_watch s i)"
  by (auto simp: active_slots_def)

lemma distinct_active_slots [simp]: "distinct (active_slots s)"
  by (simp add: active_slots_def)

lemma watch_index_SomeD:
  "event_watch_index s pin = Some i \<Longrightarrow> i \<in> set (active_slots s) \<and> w_pin (fw_watch s i) = pin"
  unfolding event_watch_index_def active_slots_iff by (auto dest: first_slot_SomeD)

lemma watch_index_None_iff:
  "event_watch_index s pin = None \<longleftrightarrow> pin \<notin> (\<lambda>i. w_pin (fw_watch s i)) ` set (active_slots s)"
  by (auto simp: event_watch_index_def first_slot_None_iff active_slots_iff)

lemma watch_index_eq:
  assumes "watch_inv s"
  shows "event_watch_index s pin = Some i \<longleftrightarrow>
    i \<in> set (active_slots s) \<and> w_pin (fw_watch s i) = pin"
proof
  assume "event_watch_index s pin = Some i"
  then show "i \<in> set (active_slots s) \<and> w_pin (fw_watch s i) = pin"
    by (rule watch_index_SomeD)
next
  assume i: "i \<in> set (active_slots s) \<and> w_pin (fw_watch s i) = pin"
  then obtain j where j: "event_watch_index s pin = Some j"
    using watch_index_None_iff [of s pin] by (cases "event_watch_index s pin") auto
  have "inj_on (\<lambda>i. w_pin (fw_watch s i)) (set (active_slots s))"
    using assms by (simp add: watch_inv_def distinct_map)
  then show "event_watch_index s pin = Some i"
    using i j watch_index_SomeD [OF j] by (auto simp: inj_on_def)
qed

lemma filter_upt_split:
  "i < n \<Longrightarrow> [0..<n] = [0..<i] @ i # [Suc i..<n]"
  using upt_add_eq_append [of 0 i "n - i"] upt_conv_Cons [of i n] by simp

lemma active_slots_unwatch:
  assumes "i \<in> set (active_slots s)"
  shows "active_slots (unwatch i s) = filter (\<lambda>j. j \<noteq> i) (active_slots s)"
  by (auto simp: active_slots_def unwatch_def intro: filter_cong)

lemma length_remove_one:
  assumes "distinct xs" and "i \<in> set xs"
  shows "length (filter (\<lambda>j. j \<noteq> i) xs) = length xs - 1"
proof -
  have "filter (\<lambda>j. j \<noteq> i) xs = remove1 i xs"
    using assms(1) by (simp add: distinct_remove1_removeAll removeAll_filter_not_eq eq_commute)
  then show ?thesis
    using assms(2) by (simp add: length_remove1)
qed

lemma unwatch_fields [simp]:
  "fw_n_watched (unwatch i s) = fw_n_watched s - 1" "fw_n_pins (unwatch i s) = fw_n_pins s"
  "fw_mode (unwatch i s) = fw_mode s" "fw_caps (unwatch i s) = fw_caps s"
  "fw_events (unwatch i s) = fw_events s"
  "j \<noteq> i \<Longrightarrow> fw_watch (unwatch i s) j = fw_watch s j"
  by (simp_all add: unwatch_def)

lemma watch_inv_unwatch:
  assumes inv: "watch_inv s" and idx: "event_watch_index s pin = Some i"
  shows "watch_inv (unwatch i s)"
proof -
  let ?pin = "\<lambda>t i. w_pin (fw_watch t i)"
  have i: "i \<in> set (active_slots s)"
    using watch_index_SomeD [OF idx] by simp
  have count: "unat (fw_n_watched s) = length (active_slots s)"
    using inv by (simp add: watch_inv_def)
  have "fw_n_watched s \<noteq> 0"
    using i count by (cases "active_slots s") auto
  then have "unat (fw_n_watched (unwatch i s)) = length (active_slots (unwatch i s))"
    by (simp add: active_slots_unwatch [OF i] length_remove_one i count [symmetric] unat_minus_one)
  moreover have "map (?pin (unwatch i s)) (active_slots (unwatch i s)) =
      map (?pin s) (filter (\<lambda>j. j \<noteq> i) (active_slots s))"
    by (simp add: active_slots_unwatch [OF i])
  then have "distinct (map (?pin (unwatch i s)) (active_slots (unwatch i s)))"
    using inv by (simp add: watch_inv_def distinct_map_filter)
  moreover have "j \<noteq> i \<and> j \<in> set (active_slots s)" if "j \<in> set (active_slots (unwatch i s))" for j
    using that by (simp add: active_slots_unwatch [OF i])
  ultimately show ?thesis
    using inv unfolding watch_inv_def by (auto simp del: One_nat_def)
qed

lemma watching_unwatch:
  assumes inv: "watch_inv s" and idx: "event_watch_index s pin = Some i"
  shows "watching (unwatch i s) = (watching s)(pin := None)"
proof
  fix p
  have i: "i \<in> set (active_slots s)" "w_pin (fw_watch s i) = pin"
    using watch_index_SomeD [OF idx] by simp_all
  have iff: "event_watch_index (unwatch i s) p = Some j \<longleftrightarrow>
      j \<noteq> i \<and> event_watch_index s p = Some j" for j
    using watch_index_eq [OF inv, of p j] watch_index_eq [OF watch_inv_unwatch [OF inv idx], of p j]
    by (auto simp: active_slots_unwatch [OF i(1)])
  show "watching (unwatch i s) p = ((watching s)(pin := None)) p"
  proof (cases "p = pin")
    case True
    then have "event_watch_index (unwatch i s) p = None"
      using iff idx by (metis not_Some_eq option.inject)
    with True show ?thesis
      by (simp add: watching_def)
  next
    case False
    then have "event_watch_index s p \<noteq> Some i"
      using i watch_index_SomeD by blast
    then have "event_watch_index (unwatch i s) p = event_watch_index s p"
      using iff by (metis not_Some_eq)
    with False \<open>event_watch_index s p \<noteq> Some i\<close> show ?thesis
      by (auto simp: watching_def map_option_case split: option.split)
  qed
qed

section \<open>EVENT_CONFIG on the map\<close>

lemma watch_inv_set:
  "watch_inv s \<longleftrightarrow>
     unat (fw_n_watched s) = card (set (active_slots s)) \<and>
     inj_on (\<lambda>i. w_pin (fw_watch s i)) (set (active_slots s)) \<and>
     (\<forall>i \<in> set (active_slots s).
        w_pin (fw_watch s i) < fw_n_pins s \<and> mode_is_input (fw_mode s (w_pin (fw_watch s i))) \<and>
        fw_caps s (w_pin (fw_watch s i)) AND USBIO_CAP_DIO \<noteq> 0 \<and>
        w_edge_mode (fw_watch s i) \<noteq> USBIO_EDGE_OFF)"
  by (simp add: watch_inv_def distinct_map distinct_card)

lemma watched_at_most_8: "watch_inv s \<Longrightarrow> unat (fw_n_watched s) \<le> 8"
  using length_filter_le [of "\<lambda>i. w_active (fw_watch s i)" "[0..<8]"]
  by (simp add: watch_inv_def active_slots_def)

lemma free_slot:
  assumes "watch_inv s" and "\<not> 8 \<le> unat (fw_n_watched s)"
  shows "find_free_event_slot s < 8 \<and> \<not> w_active (fw_watch s (find_free_event_slot s))"
proof -
  have "\<exists>i < 8. \<not> w_active (fw_watch s i)"
  proof (rule ccontr)
    assume "\<not> ?thesis"
    then have "active_slots s = [0..<8]"
      unfolding active_slots_def by (intro filter_True) auto
    then show False
      using assms by (simp add: watch_inv_def)
  qed
  then show ?thesis
    by (auto simp: find_free_event_slot_def first_slot_None_iff split: option.split
        dest: first_slot_SomeD)
qed

text \<open>The slot and the watch count an accepted arming uses.\<close>

definition arm_slot :: "u8 \<Rightarrow> fw \<Rightarrow> nat" where
  "arm_slot pin s = (case event_watch_index s pin of Some j \<Rightarrow> j | None \<Rightarrow> find_free_event_slot s)"

definition armed :: "u8 \<Rightarrow> usbio_edge_mode \<Rightarrow> u8 \<Rightarrow> fw \<Rightarrow> fw" where
  "armed pin e debounce s =
     s\<lparr>fw_watch := (fw_watch s)(arm_slot pin s := (fw_watch s (arm_slot pin s))
         \<lparr>w_pin := pin, w_edge_mode := e, w_debounce_ms := debounce,
          w_arm_seq := fw_arm_seq s + 1, w_active := True\<rparr>),
       fw_n_watched := (if event_watch_index s pin = None then fw_n_watched s + 1
                        else fw_n_watched s),
       fw_arm_seq := fw_arm_seq s + 1\<rparr>"

definition armable :: "u8 \<Rightarrow> u8 \<Rightarrow> fw \<Rightarrow> bool" where
  "armable pin edge s \<longleftrightarrow>
     fw_caps s pin AND USBIO_CAP_DIO \<noteq> 0 \<and> mode_is_input (fw_mode s pin) \<and>
     edge < USBIO_EDGE_COUNT \<and>
     (event_watch_index s pin \<noteq> None \<or> unat (fw_n_watched s) < USBIO_MAX_EVENT_PINS)"

lemma arm_event_eq:
  "arm_event pin edge debounce s =
     (if armable pin edge s then (True, armed pin (the (edge_of edge)) debounce s)
      else stall (if fw_caps s pin AND USBIO_CAP_DIO = 0 \<or> \<not> mode_is_input (fw_mode s pin)
                  then USBIO_BAD_MODE else USBIO_BAD_VALUE) s)"
  using edge_of_None_iff [of edge]
  by (auto simp: arm_event_def armable_def armed_def arm_slot_def Let_def not_le
      split: option.split)

lemma arm_slot_cases:
  assumes "watch_inv s" and "armable pin edge s"
  shows "arm_slot pin s < 8"
    and "event_watch_index s pin \<noteq> None \<Longrightarrow> arm_slot pin s \<in> set (active_slots s) \<and>
      w_pin (fw_watch s (arm_slot pin s)) = pin"
    and "event_watch_index s pin = None \<Longrightarrow> arm_slot pin s \<notin> set (active_slots s) \<and>
      pin \<notin> (\<lambda>i. w_pin (fw_watch s i)) ` set (active_slots s)"
  using assms free_slot [of s] watch_index_SomeD [of s pin] watch_index_None_iff [of s pin]
  by (auto simp: arm_slot_def armable_def active_slots_iff split: option.splits)

lemma active_slots_armed:
  "arm_slot pin s < 8 \<Longrightarrow>
   set (active_slots (armed pin e debounce s)) = insert (arm_slot pin s) (set (active_slots s))"
  by (auto simp: active_slots_iff armed_def split: if_splits)

lemma watch_inv_armed:
  assumes inv: "watch_inv s" and arm: "armable pin edge s" and pin: "pin < fw_n_pins s"
    and e: "e \<noteq> USBIO_EDGE_OFF"
  shows "watch_inv (armed pin e debounce s)"
proof -
  let ?i = "arm_slot pin s" and ?t = "armed pin e debounce s"
  note slot = arm_slot_cases [OF inv arm]
  have set: "set (active_slots ?t) = insert ?i (set (active_slots s))"
    by (rule active_slots_armed [OF slot(1)])
  have n: "unat (fw_n_watched ?t) = card (set (active_slots ?t))"
  proof (cases "event_watch_index s pin = None")
    case True
    then have "unat (fw_n_watched s) < 8"
      using arm by (simp add: armable_def)
    then have "unat (fw_n_watched s + 1) = Suc (unat (fw_n_watched s))"
      by (intro unat_succ_u8) simp
    with True slot(3) inv show ?thesis
      unfolding set by (simp add: armed_def watch_inv_set)
  next
    case False
    then have "set (active_slots ?t) = set (active_slots s)"
      unfolding set using slot(2) by (simp add: insert_absorb)
    with False inv show ?thesis
      by (auto simp: armed_def watch_inv_set)
  qed
  have old: "fw_watch ?t j = fw_watch s j" if "j \<noteq> ?i" for j
    using that by (simp add: armed_def)
  have new: "w_pin (fw_watch ?t ?i) = pin" "w_edge_mode (fw_watch ?t ?i) = e"
    by (simp_all add: armed_def)
  have fresh: "w_pin (fw_watch s j) \<noteq> pin" if "j \<in> set (active_slots s)" "j \<noteq> ?i" for j
    using that slot(2,3) inv by (cases "event_watch_index s pin") (auto simp: watch_inv_set inj_on_def)
  have inj: "inj_on (\<lambda>j. w_pin (fw_watch s j)) (set (active_slots s))"
    using inv by (simp add: watch_inv_set)
  have "inj_on (\<lambda>j. w_pin (fw_watch ?t j)) (set (active_slots ?t))"
    unfolding set
  proof (rule inj_onI)
    fix j k
    assume j: "j \<in> insert ?i (set (active_slots s))" and k: "k \<in> insert ?i (set (active_slots s))"
      and eq: "w_pin (fw_watch ?t j) = w_pin (fw_watch ?t k)"
    then show "j = k"
      using fresh old new(1) inj_onD [OF inj] by (metis insert_iff)
  qed
  moreover have "fw_mode ?t = fw_mode s" "fw_caps ?t = fw_caps s" "fw_n_pins ?t = fw_n_pins s"
    by (simp_all add: armed_def)
  moreover have "fw_caps s pin AND USBIO_CAP_DIO \<noteq> 0 \<and> mode_is_input (fw_mode s pin)"
    using arm by (simp add: armable_def)
  ultimately show ?thesis
    using n inv pin e old new unfolding watch_inv_set set by (metis insert_iff)
qed

lemma watching_armed:
  assumes inv: "watch_inv s" and arm: "armable pin edge s" and pin: "pin < fw_n_pins s"
    and e: "e \<noteq> USBIO_EDGE_OFF"
  shows "watching (armed pin e debounce s) = (watching s)(pin \<mapsto> (e, debounce))"
proof
  fix p
  let ?i = "arm_slot pin s" and ?t = "armed pin e debounce s"
  note slot = arm_slot_cases [OF inv arm]
  note inv' = watch_inv_armed [OF inv arm pin e, of debounce]
  have set: "set (active_slots ?t) = insert ?i (set (active_slots s))"
    by (rule active_slots_armed [OF slot(1)])
  have old: "fw_watch ?t j = fw_watch s j" if "j \<noteq> ?i" for j
    using that by (simp add: armed_def)
  have new: "w_pin (fw_watch ?t ?i) = pin" "w_edge_mode (fw_watch ?t ?i) = e"
    "w_debounce_ms (fw_watch ?t ?i) = debounce"
    by (simp_all add: armed_def)
  show "watching ?t p = ((watching s)(pin \<mapsto> (e, debounce))) p"
  proof (cases "p = pin")
    case True
    then have "event_watch_index ?t p = Some ?i"
      unfolding watch_index_eq [OF inv'] by (simp add: set new)
    with True show ?thesis
      by (simp add: watching_def new)
  next
    case False
    have "event_watch_index ?t p = Some j \<longleftrightarrow> event_watch_index s p = Some j" for j
      using False slot(2,3) new(1) old [of j] unfolding watch_index_eq [OF inv'] watch_index_eq [OF inv] set
      by (cases "j = ?i") auto
    then have same: "event_watch_index ?t p = event_watch_index s p"
      by (metis not_Some_eq)
    have "event_watch_index s p \<noteq> Some ?i"
      using False slot(2,3) watch_index_SomeD [of s p ?i] by auto
    then show ?thesis
      using False same old by (auto simp: watching_def map_option_case split: option.split)
  qed
qed

lemma watching_None_iff: "watching s pin = None \<longleftrightarrow> event_watch_index s pin = None"
  by (simp add: watching_def)

lemma watching_no_pin: "event_watch_index s pin = None \<Longrightarrow> (watching s)(pin := None) = watching s"
  by (auto simp: fun_eq_iff watching_def)

text \<open>
  OFF and arming in terms of the map: OFF removes exactly the pin and its queued events; an
  accepted arming maps exactly the pin to its mode and debounce time.
\<close>

lemma event_off_eq:
  "edge_code USBIO_EDGE_OFF = ucast (wValue AND 0xFF) \<Longrightarrow> handle_event_config pin wValue s =
     (True, case event_watch_index s pin of
        Some i \<Rightarrow> discard_events_for_pin pin (unwatch i s) | None \<Rightarrow> s)"
  by (simp add: handle_event_config_def)

lemma event_arm_eq:
  "edge_code USBIO_EDGE_OFF \<noteq> ucast (wValue AND 0xFF) \<Longrightarrow>
   handle_event_config pin wValue s =
     arm_event pin (ucast (wValue AND 0xFF)) (ucast (drop_bit 8 wValue)) s"
  by (auto simp: handle_event_config_def Let_def)

lemma discard_fields [simp]:
  "active_slots (discard_events_for_pin pin s) = active_slots s"
  "fw_watch (discard_events_for_pin pin s) = fw_watch s"
  "fw_n_watched (discard_events_for_pin pin s) = fw_n_watched s"
  "fw_n_pins (discard_events_for_pin pin s) = fw_n_pins s"
  "fw_mode (discard_events_for_pin pin s) = fw_mode s"
  "fw_caps (discard_events_for_pin pin s) = fw_caps s"
  "event_watch_index (discard_events_for_pin pin s) = event_watch_index s"
  by (simp_all add: discard_events_for_pin_def Let_def active_slots_def event_watch_index_def
      fun_eq_iff)

lemma watch_inv_discard [simp]: "watch_inv (discard_events_for_pin pin s) = watch_inv s"
  by (simp add: watch_inv_def)

lemma watching_discard [simp]: "watching (discard_events_for_pin pin s) = watching s"
  by (simp add: watching_def fun_eq_iff)

lemma edge_of_armable:
  assumes "armable pin edge s" and "edge \<noteq> 0"
  obtains e where "edge_of edge = Some e" and "e \<noteq> USBIO_EDGE_OFF"
proof -
  have "edge_of edge \<noteq> None"
    using assms edge_of_None_iff [of edge] by (auto simp: armable_def)
  then obtain e where e: "edge_of edge = Some e"
    by auto
  then have "e \<noteq> USBIO_EDGE_OFF"
    using assms(2) by (auto simp: edge_of_iff)
  with e that show thesis by blast
qed

lemma watch_inv_event_config:
  assumes inv: "watch_inv s" and pin: "pin < fw_n_pins s"
  shows "watch_inv (snd (handle_event_config pin wValue s))"
proof (cases "edge_code USBIO_EDGE_OFF = ucast (wValue AND 0xFF)")
  case True
  then show ?thesis
    using inv watch_inv_unwatch [OF inv] by (auto simp: event_off_eq split: option.split)
next
  case False
  let ?edge = "ucast (wValue AND 0xFF) :: u8"
  show ?thesis
  proof (cases "armable pin ?edge s")
    case True
    then obtain e where "edge_of ?edge = Some e" "e \<noteq> USBIO_EDGE_OFF"
      using False edge_of_armable [of pin ?edge s] by auto
    then show ?thesis
      using True watch_inv_armed [OF inv True pin] by (simp add: event_arm_eq [OF False] arm_event_eq)
  next
    case False2: False
    have "watch_inv (s\<lparr>fw_last_error := x\<rparr>) = watch_inv s" for x
      by (simp add: watch_inv_def active_slots_def)
    then show ?thesis
      using inv False2 by (simp add: event_arm_eq [OF False] arm_event_eq stall_def)
  qed
qed

section \<open>The scan, one watch at a time\<close>

text \<open>
  The edge detector of a single watch, given the clock and the level of its pin: the watch after
  the scan and the edge it reports, if any.  \<open>event_poll_eq\<close> shows that one \<open>event_poll\<close> is this
  detector on all eight slots, with the reported edges put into the ring in slot order.
\<close>

definition edge_level :: "u8 \<Rightarrow> usbio_edge_mode" where
  "edge_level level = (if level \<noteq> 0 then USBIO_EDGE_RISING else USBIO_EDGE_FALLING)"

definition edge_due :: "u32 \<Rightarrow> u8 \<Rightarrow> event_watch \<Rightarrow> bool" where
  "edge_due now level w \<longleftrightarrow>
     level \<noteq> w_prev_level w \<and>
     (w_edge_mode w = USBIO_EDGE_CHANGE \<or> w_edge_mode w = edge_level level) \<and>
     0 \<le> sint (now - w_debounce_until w)"

definition detect :: "u32 \<Rightarrow> u8 \<Rightarrow> event_watch \<Rightarrow> event_watch \<times> usbio_event option" where
  "detect now level w =
     (if \<not> w_active w then (w, None)
      else if w_seen_seq w \<noteq> w_arm_seq w then
        (w\<lparr>w_seen_seq := w_arm_seq w, w_count := 0, w_prev_level := level,
           w_debounce_until := now\<rparr>, None)
      else if edge_due now level w then
        (w\<lparr>w_prev_level := level, w_count := w_count w + 1,
           w_debounce_until := now + ucast (w_debounce_ms w)\<rparr>,
         Some \<lparr>ev_pin = w_pin w, ev_edge = edge_code (edge_level level),
               ev_seq = w_count w + 1, ev_t_ms = now\<rparr>)
      else (w\<lparr>w_prev_level := level\<rparr>, None))"

definition put_reported :: "usbio_event option \<Rightarrow> fw \<Rightarrow> fw" where
  "put_reported e = (case e of Some x \<Rightarrow> put_event x | None \<Rightarrow> id)"

lemma same_level [simp]: "w\<lparr>w_prev_level := w_prev_level w\<rparr> = w"
  by simp

lemma scan_watch_eq:
  "scan_watch now i s =
     (case detect now (fw_dio s (w_pin (fw_watch s i))) (fw_watch s i) of (w, e) \<Rightarrow>
        put_reported e (s\<lparr>fw_watch := (fw_watch s)(i := w)\<rparr>))"
proof -
  let ?w = "fw_watch s i" and ?level = "fw_dio s (w_pin (fw_watch s i))"
  show ?thesis
  proof (cases "?level = w_prev_level ?w")
    case True
    then have "?w\<lparr>w_prev_level := ?level\<rparr> = ?w"
      by simp
    moreover have "s\<lparr>fw_watch := (fw_watch s)(i := ?w)\<rparr> = s"
      by simp
    ultimately show ?thesis
      using True by (simp add: scan_watch_def detect_def Let_def edge_due_def put_reported_def)
  next
    case False
    then show ?thesis
      by (auto simp: scan_watch_def detect_def Let_def edge_due_def edge_level_def
          put_reported_def put_event_def not_less)
  qed
qed

lemma put_event_watch:
  "put_event e (s\<lparr>fw_watch := w\<rparr>) = (put_event e s)\<lparr>fw_watch := w\<rparr>"
  by (simp add: put_event_def push_event_def)

lemma put_event_fields [simp]:
  "fw_watch (put_event e s) = fw_watch s" "fw_dio (put_event e s) = fw_dio s"
  by (simp_all add: put_event_def push_event_def)

lemma put_reported_watch:
  "put_reported e (s\<lparr>fw_watch := w\<rparr>) = (put_reported e s)\<lparr>fw_watch := w\<rparr>"
  by (simp add: put_reported_def put_event_watch split: option.split)

lemma put_reported_fields [simp]:
  "fw_watch (put_reported e s) = fw_watch s" "fw_dio (put_reported e s) = fw_dio s"
  by (simp_all add: put_reported_def split: option.split)

definition detect_slot :: "u32 \<Rightarrow> fw \<Rightarrow> nat \<Rightarrow> event_watch \<times> usbio_event option" where
  "detect_slot now s i = detect now (fw_dio s (w_pin (fw_watch s i))) (fw_watch s i)"

lemma scan_fold:
  "distinct is \<Longrightarrow> fold (scan_watch now) is s =
     fold put_reported (map (\<lambda>i. snd (detect_slot now s i)) is)
       (s\<lparr>fw_watch := \<lambda>i. if i \<in> set is then fst (detect_slot now s i) else fw_watch s i\<rparr>)"
proof (induction "is" arbitrary: s)
  case Nil
  then show ?case by simp
next
  case (Cons i "is")
  let ?s1 = "scan_watch now i s"
  have step: "?s1 = put_reported (snd (detect_slot now s i))
      (s\<lparr>fw_watch := (fw_watch s)(i := fst (detect_slot now s i))\<rparr>)"
    by (simp add: scan_watch_eq detect_slot_def split: prod.split)
  have others: "detect_slot now ?s1 j = detect_slot now s j" if "j \<in> set is" for j
    using that Cons.prems by (auto simp: detect_slot_def step)
  have "fold (scan_watch now) (i # is) s = fold put_reported (map (\<lambda>j. snd (detect_slot now s j)) is)
      (?s1\<lparr>fw_watch := \<lambda>j. if j \<in> set is then fst (detect_slot now s j) else fw_watch ?s1 j\<rparr>)"
    using Cons others by (simp cong: map_cong if_cong)
  also have "(\<lambda>j. if j \<in> set is then fst (detect_slot now s j) else fw_watch ?s1 j) =
      (\<lambda>j. if j \<in> set (i # is) then fst (detect_slot now s j) else fw_watch s j)"
    by (auto simp: step)
  finally show ?case
    by (simp add: step put_reported_watch)
qed

text \<open>The edges one \<open>event_poll\<close> reports, in slot order, and the watch table it leaves.\<close>

definition reported :: "u32 \<Rightarrow> fw \<Rightarrow> usbio_event list" where
  "reported now s = List.map_filter (\<lambda>i. snd (detect_slot now s i)) [0..<USBIO_MAX_EVENT_PINS]"

definition scanned :: "u32 \<Rightarrow> fw \<Rightarrow> fw" where
  "scanned now s = s\<lparr>fw_watch :=
     (\<lambda>i. if i < USBIO_MAX_EVENT_PINS then fst (detect_slot now s i) else fw_watch s i)\<rparr>"

lemma fold_put_reported:
  "fold put_reported (map f is) s = fold put_event (List.map_filter f is) s"
  by (induction "is" arbitrary: s) (simp_all add: List.map_filter_def put_reported_def split: option.split)

lemma event_poll_eq:
  "event_poll A s h =
     (if fw_n_pins s = 0 then (s, h)
      else (fold put_event (reported (fst (millis A h)) s) (scanned (fst (millis A h)) s),
            snd (millis A h)))"
  by (simp add: event_poll_def reported_def scanned_def scan_fold fold_put_reported
      del: upt_Suc split: prod.split cong: if_cong)

lemma puts_dropped:
  "unat (fw_dropped (fold put_event es s)) =
     min 255 (unat (fw_dropped s) + (length es - (32 - length (queued_events s))))"
proof (induction es arbitrary: s)
  case Nil
  then show ?case
    using unat_le_u8 [of "fw_dropped s"] by simp
next
  case (Cons e es)
  show ?case
  proof (cases "length (queued_events s) < 32")
    case True
    then have "queued_events (put_event e s) = queued_events s @ [e]"
      by (simp add: put_event_def push_event_room)
    moreover have "fw_dropped (put_event e s) = fw_dropped s"
      using True ring32.not_full_iff [of "fw_events s"] by (simp add: put_event_def push_event_def)
    ultimately show ?thesis
      using True by (simp add: Cons)
  next
    case False
    then have "queued_events (put_event e s) = queued_events s"
      by (simp add: put_event_def push_event_full)
    moreover have "unat (fw_dropped (put_event e s)) = min 255 (Suc (unat (fw_dropped s)))"
    proof (cases "fw_dropped s < 0xFF")
      case True
      then have "unat (fw_dropped s) < 255"
        by (simp add: word_less_nat_alt)
      with True False show ?thesis
        by (simp add: put_event_def push_event_full unat_succ_u8)
    next
      case sat: False
      then have "unat (fw_dropped s) = 255"
        using unat_le_u8 [of "fw_dropped s"] by (simp add: word_less_nat_alt)
      with sat False show ?thesis
        by (simp add: put_event_def push_event_full)
    qed
    ultimately show ?thesis
      using False by (simp add: Cons)
  qed
qed

lemma scanned_fields [simp]:
  "fw_events (scanned now s) = fw_events s" "fw_dropped (scanned now s) = fw_dropped s"
  "fw_dio (scanned now s) = fw_dio s"
  by (simp_all add: scanned_def)

lemma puts_watch [simp]: "fw_watch (fold put_event es s) = fw_watch s"
  by (induction es arbitrary: s) simp_all

section \<open>Debouncing over time\<close>

text \<open>A watch fed a history of clock readings and pin levels, one per \<open>poll()\<close>.\<close>

definition watch_run :: "(u32 \<times> u8) list \<Rightarrow> event_watch \<Rightarrow> event_watch" where
  "watch_run samples = fold (\<lambda>(now, level) w. fst (detect now level w)) samples"

text \<open>The watch after an accepted edge, inside its debounce window.\<close>

definition settled :: "event_watch \<Rightarrow> bool" where
  "settled w \<longleftrightarrow> w_active w \<and> w_seen_seq w = w_arm_seq w"

lemma detect_window:
  assumes "settled w" and "w_debounce_until w = t0 + ucast (w_debounce_ms w)"
    and "unat (t - t0) < unat (w_debounce_ms w)"
  shows "detect t level w = (w\<lparr>w_prev_level := level\<rparr>, None)"
proof -
  have "\<not> 0 \<le> sint (t - (t0 + ucast (w_debounce_ms w)))"
    using assms(3) unat_le_u8 [of "w_debounce_ms w"] by (subst timer_elapsed) auto
  then show ?thesis
    using assms(1,2) by (simp add: detect_def settled_def edge_due_def)
qed

lemma run_window:
  assumes "settled w" and "w_debounce_until w = t0 + ucast (w_debounce_ms w)"
    and "\<forall>(t, level) \<in> set samples. unat (t - t0) < unat (w_debounce_ms w)"
  shows "watch_run samples w =
    w\<lparr>w_prev_level := (if samples = [] then w_prev_level w else snd (last samples))\<rparr>"
  using assms
proof (induction samples arbitrary: w)
  case Nil
  then show ?case by (simp add: watch_run_def)
next
  case (Cons x samples)
  obtain t level where x: "x = (t, level)"
    by fastforce
  have "detect t level w = (w\<lparr>w_prev_level := level\<rparr>, None)"
    using Cons.prems by (intro detect_window) (auto simp: x)
  moreover have "watch_run samples (w\<lparr>w_prev_level := level\<rparr>) =
      w\<lparr>w_prev_level := (if samples = [] then level else snd (last samples))\<rparr>"
    using Cons.prems by (subst Cons.IH) (auto simp: settled_def)
  ultimately show ?case
    by (simp add: watch_run_def x)
qed

lemma detect_after_window:
  assumes "settled w" and "w_debounce_until w = t0 + ucast (w_debounce_ms w)"
    and "unat (w_debounce_ms w) \<le> unat (t - t0)" and "unat (t - t0) < 2147483648"
  shows "edge_due t level w \<longleftrightarrow> level \<noteq> w_prev_level w \<and>
    (w_edge_mode w = USBIO_EDGE_CHANGE \<or> w_edge_mode w = edge_level level)"
proof -
  have "0 \<le> sint (t - (t0 + ucast (w_debounce_ms w)))"
    using assms(3,4) unat_le_u8 [of "w_debounce_ms w"] by (subst timer_elapsed) auto
  then show ?thesis
    by (simp add: edge_due_def assms(2))
qed

section \<open>EVENT_COUNTS: the order of the entries\<close>

text \<open>The insertion the inner loop performs on the sorted prefix \<open>xs\<close>.\<close>

definition ins :: "('a \<Rightarrow> 'a \<Rightarrow> bool) \<Rightarrow> 'a \<Rightarrow> 'a list \<Rightarrow> 'a list" where
  "ins gt key xs =
     rev (dropWhile (\<lambda>x. gt x key) (rev xs)) @ key # rev (takeWhile (\<lambda>x. gt x key) (rev xs))"

lemma shift_in_eq: "shift_in gt key (length xs) (xs @ y # zs) = ins gt key xs @ zs"
proof (induction xs arbitrary: y zs rule: rev_induct)
  case Nil
  then show ?case by (simp add: ins_def)
next
  case (snoc x xs)
  show ?case
  proof (cases "gt x key")
    case True
    then have "shift_in gt key (length (xs @ [x])) ((xs @ [x]) @ y # zs) =
        shift_in gt key (length xs) (xs @ x # x # zs)"
      by (simp add: nth_append list_update_append)
    also have "\<dots> = ins gt key xs @ x # zs"
      by (rule snoc.IH)
    finally show ?thesis
      using True by (simp add: ins_def)
  next
    case False
    then show ?thesis
      by (simp add: nth_append list_update_append ins_def)
  qed
qed

lemma length_ins [simp]: "length (ins gt key xs) = Suc (length xs)"
proof -
  have "length (takeWhile (\<lambda>x. gt x key) (rev xs)) + length (dropWhile (\<lambda>x. gt x key) (rev xs)) =
      length xs"
    by (metis length_append length_rev takeWhile_dropWhile_id)
  then show ?thesis
    by (simp add: ins_def)
qed

lemma mset_ins: "mset (ins gt key xs) = add_mset key (mset xs)"
proof -
  have "mset (takeWhile (\<lambda>x. gt x key) (rev xs)) + mset (dropWhile (\<lambda>x. gt x key) (rev xs)) =
      mset xs"
    by (simp flip: mset_append)
  then show ?thesis
    by (simp add: ins_def union_commute)
qed

lemma set_ins [simp]: "set (ins gt key xs) = insert key (set xs)"
  using arg_cong [OF mset_ins [of gt key xs], of set_mset] by simp

lemma sorted_insert_between:
  "sorted_wrt P (lo @ hi) \<Longrightarrow> (\<And>x. x \<in> set lo \<Longrightarrow> P x k) \<Longrightarrow> (\<And>y. y \<in> set hi \<Longrightarrow> P k y) \<Longrightarrow>
   sorted_wrt P (lo @ k # hi)"
  by (auto simp: sorted_wrt_append)

lemma insertion_sort_eq: "insertion_sort gt order = fold (ins gt) order []"
proof -
  have step: "fold (\<lambda>a ord. shift_in gt (ord ! a) a ord) [length (xs :: 'a list)..<length (xs @ ys)]
      (xs @ ys) = fold (ins gt) ys xs" for xs ys
  proof (induction ys arbitrary: xs)
    case Nil
    then show ?case by simp
  next
    case (Cons y ys)
    have "[length xs..<length (xs @ y # ys)] =
        length xs # [length (ins gt y xs)..<length (ins gt y xs @ ys)]"
      by (subst upt_conv_Cons) simp_all
    then show ?case
      using Cons.IH [of "ins gt y xs"] by (simp add: nth_append shift_in_eq)
  qed
  show ?thesis
  proof (cases order)
    case Nil
    then show ?thesis by (simp add: insertion_sort_def)
  next
    case (Cons x xs)
    then show ?thesis
      using step [of "[x]" xs] by (simp add: insertion_sort_def ins_def)
  qed
qed

text \<open>
  The comparison \<open>later\<close> of two slots is the sign of an 8-bit difference.  This is the interface
  the sort needs of it: on the set \<open>S\<close> it is a strict weak order.
\<close>

locale comparison =
  fixes later :: "'s \<Rightarrow> 'a \<Rightarrow> 'a \<Rightarrow> bool"
    and S :: "'s \<Rightarrow> 'a set"
  assumes asym: "x \<in> S s \<Longrightarrow> y \<in> S s \<Longrightarrow> later s x y \<Longrightarrow> \<not> later s y x"
    and neg_trans: "x \<in> S s \<Longrightarrow> y \<in> S s \<Longrightarrow> z \<in> S s \<Longrightarrow>
      \<not> later s x y \<Longrightarrow> \<not> later s y z \<Longrightarrow> \<not> later s x z"
begin

definition in_order :: "'s \<Rightarrow> 'a list \<Rightarrow> bool" where
  "in_order s = sorted_wrt (\<lambda>x y. \<not> later s x y)"

lemma in_order_ins:
  assumes "in_order s xs" and "insert key (set xs) \<subseteq> S s"
  shows "in_order s (ins (later s) key xs)"
proof -
  let ?P = "\<lambda>x. later s x key"
  let ?lo = "rev (dropWhile ?P (rev xs))" and ?hi = "rev (takeWhile ?P (rev xs))"
  have split: "?lo @ ?hi = xs"
    by (metis rev_append rev_rev_ident takeWhile_dropWhile_id)
  have sorted: "in_order s (?lo @ ?hi)"
    using assms(1) by (simp only: split)
  have sub: "set ?lo \<subseteq> S s" "set ?hi \<subseteq> S s"
    using assms(2) by (metis Un_subset_iff insert_subset set_append split)+
  have hi: "\<not> later s key y" if "y \<in> set ?hi" for y
    using that sub assms(2) asym [of y s key] by (auto dest: set_takeWhileD)
  have lo: "\<not> later s x key" if x: "x \<in> set ?lo" for x
  proof (cases "dropWhile ?P (rev xs)")
    case Nil
    show ?thesis using x unfolding Nil by simp
  next
    case (Cons l rest)
    then have l: "\<not> later s l key"
      by (metis dropWhile_eq_Cons_conv)
    have "?lo = rev rest @ [l]"
      by (simp add: Cons)
    with sorted x have "x = l \<or> \<not> later s x l"
      by (auto simp: in_order_def sorted_wrt_append)
    moreover have "x \<in> S s" "l \<in> S s" "key \<in> S s"
      using x sub(1) assms(2) Cons by auto
    ultimately show ?thesis
      using l neg_trans [of x s l key] by blast
  qed
  show ?thesis
    unfolding in_order_def ins_def
    by (rule sorted_insert_between [OF sorted [unfolded in_order_def]]) (use hi lo in blast)+
qed

lemma in_order_sort:
  assumes "set xs \<subseteq> S s"
  shows "in_order s (insertion_sort (later s) xs)"
proof -
  have "in_order s ys \<Longrightarrow> set ys \<subseteq> S s \<Longrightarrow> in_order s (fold (ins (later s)) xs ys)" for ys
    using assms by (induction xs arbitrary: ys) (auto simp: in_order_ins)
  then show ?thesis
    by (simp add: insertion_sort_eq in_order_def)
qed

end

text \<open>
  The slots armed within the last 128 armings: among them the signed 8-bit difference orders by
  age.  An older watch breaks the order.
\<close>

definition arm_age :: "fw \<Rightarrow> nat \<Rightarrow> nat" where
  "arm_age s i = unat (fw_arm_seq s - w_arm_seq (fw_watch s i))"

definition recent_slots :: "fw \<Rightarrow> nat set" where
  "recent_slots s = {i. arm_age s i < 128}"

lemma armed_later_recent:
  assumes "i \<in> recent_slots s" and "j \<in> recent_slots s"
  shows "armed_later s i j \<longleftrightarrow> arm_age s i < arm_age s j"
proof -
  let ?ai = "fw_arm_seq s - w_arm_seq (fw_watch s i)" and ?aj = "fw_arm_seq s - w_arm_seq (fw_watch s j)"
  have eq: "w_arm_seq (fw_watch s i) - w_arm_seq (fw_watch s j) = ?aj - ?ai"
    by simp
  show ?thesis
    using assms age_compare [of ?ai ?aj]
    unfolding armed_later_def eq arm_age_def recent_slots_def by simp
qed

interpretation arm_order: comparison armed_later recent_slots
proof
  fix s i j k
  assume "i \<in> recent_slots s" "j \<in> recent_slots s"
  note recent = this
  show "armed_later s i j \<Longrightarrow> \<not> armed_later s j i"
    using recent by (simp add: armed_later_recent)
  assume "k \<in> recent_slots s"
  with recent show "\<not> armed_later s i j \<Longrightarrow> \<not> armed_later s j k \<Longrightarrow> \<not> armed_later s i k"
    by (simp add: armed_later_recent)
qed

lemma mset_insertion_sort: "mset (insertion_sort gt xs) = mset xs"
proof -
  have "mset (fold (ins gt) xs ys) = mset xs + mset ys" for ys
    by (induction xs arbitrary: ys) (simp_all add: mset_ins)
  then show ?thesis
    by (simp add: insertion_sort_eq)
qed

text \<open>The slots EVENT_COUNTS lists, in its order.\<close>

definition count_order :: "fw \<Rightarrow> nat list" where
  "count_order s = insertion_sort (armed_later s) (active_slots s)"

definition count_entry :: "fw \<Rightarrow> nat \<Rightarrow> usbio_event_count" where
  "count_entry s i = \<lparr>ec_pin = w_pin (fw_watch s i), ec_mode = edge_code (w_edge_mode (fw_watch s i)),
     ec_count = w_count (fw_watch s i)\<rparr>"

lemma reply_event_counts_eq:
  "reply_event_counts s =
     event_header_bytes \<lparr>eh_status = 0, eh_count = of_nat (length (active_slots s)),
       eh_dropped = 0, eh_pending = 0\<rparr>
     @ concat (map (\<lambda>i. event_count_bytes (count_entry s i)) (count_order s))"
proof -
  have "length (count_order s) = length (active_slots s)"
    by (metis count_order_def mset_insertion_sort size_mset)
  then show ?thesis
    by (simp add: reply_event_counts_def Let_def count_order_def count_entry_def)
qed

end
