(* ===== verification/Streaming.thy ===== *)
theory Streaming
  imports Core
begin

text \<open>
  Streaming (\<open>src/src/UsbIo.cpp\<close>, section "streaming"): the STREAM_* request handlers of the
  interrupt side, and the sampler and packet builder \<open>stream_poll\<close> runs from \<open>loop()\<close>.  Only
  compiled where the transport has a bulk IN endpoint (\<open>has_stream_transport\<close>).
\<close>

section \<open>Requests\<close>

definition handle_usb_disconnected :: "board \<Rightarrow> fw \<Rightarrow> fw" where
  "handle_usb_disconnected b s =
     (if has_stream_transport b then s\<lparr>fw_running := False, fw_n_channels := 0\<rparr> else s)"

definition stream_channels :: "fw \<Rightarrow> u8 list" where
  "stream_channels s = map (fw_channels s) [0..<unat (fw_n_channels s)]"

definition stream_channel_index :: "fw \<Rightarrow> u8 \<Rightarrow> nat option" where
  "stream_channel_index s pin = find (\<lambda>i. fw_channels s i = pin) [0..<unat (fw_n_channels s)]"

text \<open>The loop that moves the channels above \<open>idx\<close> down by one.\<close>

definition remove_channel :: "nat \<Rightarrow> fw \<Rightarrow> fw" where
  "remove_channel idx s =
     s\<lparr>fw_channels := fold (\<lambda>i ch. ch(i := ch (i + 1))) [idx..<unat (fw_n_channels s) - 1]
         (fw_channels s),
       fw_n_channels := fw_n_channels s - 1\<rparr>"

definition handle_stream_select :: "u16 \<Rightarrow> u16 \<Rightarrow> fw \<Rightarrow> bool \<times> fw" where
  "handle_stream_select wValue wIndex s =
     (if fw_flags s AND USBIO_FLAG_STREAMING = 0 then stall USBIO_UNSUPPORTED s
      else if fw_running s then stall USBIO_BUSY s
      else if ucast (fw_n_pins s) \<le> wIndex then stall USBIO_BAD_PIN s
      else
        let pin = (ucast wIndex :: u8); m = fw_mode s pin in
        if m \<noteq> Some USBIO_MODE_ANALOG_IN \<and> \<not> mode_is_input m then stall USBIO_BAD_MODE s
        else if 1 < wValue then stall USBIO_BAD_VALUE s
        else if wValue \<noteq> 0 then
          (case stream_channel_index s pin of
             Some _ \<Rightarrow> (True, s)
           | None \<Rightarrow>
              if USBIO_MAX_STREAM_CHANNELS \<le> fw_n_channels s then stall USBIO_BAD_VALUE s
              else (True, s\<lparr>fw_channels := (fw_channels s)(unat (fw_n_channels s) := pin),
                            fw_n_channels := fw_n_channels s + 1\<rparr>))
        else
          (case stream_channel_index s pin of
             None \<Rightarrow> (True, s)
           | Some idx \<Rightarrow> (True, remove_channel idx s)))"

definition handle_stream_start :: "u16 \<Rightarrow> u16 \<Rightarrow> fw \<Rightarrow> bool \<times> fw" where
  "handle_stream_start wValue wIndex s =
     (if fw_flags s AND USBIO_FLAG_STREAMING = 0 then stall USBIO_UNSUPPORTED s
      else if fw_running s then stall USBIO_BUSY s
      else if fw_n_channels s = 0 then stall USBIO_BAD_VALUE s
      else if wValue \<noteq> 0 \<and> wValue < USBIO_STREAM_MIN_PERIOD_US then stall USBIO_BAD_VALUE s
      else if wIndex AND NOT (USBIO_STREAM_FLAG_DIGITAL OR USBIO_STREAM_FLAG_STOP_ON_OVERRUN) \<noteq> 0
      then stall USBIO_BAD_VALUE s
      else (True, s\<lparr>fw_period_us := wValue, fw_stream_flags := ucast wIndex, fw_running := True,
              fw_start_requests := fw_start_requests s + 1\<rparr>))"

definition handle_stream_stop :: "fw \<Rightarrow> bool \<times> fw" where
  "handle_stream_stop s =
     (if fw_flags s AND USBIO_FLAG_STREAMING = 0 then stall USBIO_UNSUPPORTED s
      else (True, s\<lparr>fw_running := False\<rparr>))"

section \<open>Sampling\<close>

definition read_pin :: "'h arduino \<Rightarrow> u8 \<Rightarrow> 'h \<Rightarrow> u8 \<times> 'h" where
  "read_pin A pin h = (let (high, h1) = digitalRead A pin h in (if high then 1 else 0, h1))"

definition read_analog :: "'h arduino \<Rightarrow> u8 \<Rightarrow> 'h \<Rightarrow> u16 \<times> 'h" where
  "read_analog A pin h =
     (let (v, h1) = analogRead A pin h in
      (if v < 0 then 0 else if 0xFFFF < v then 0xFFFF else word_of_int v, h1))"

text \<open>The sampling loop over the selected channels, which appends one half-word each.\<close>

fun sample_channels :: "'h arduino \<Rightarrow> fw \<Rightarrow> u8 list \<Rightarrow> 'h \<Rightarrow> bytes \<times> 'h" where
  "sample_channels A s [] h = ([], h)"
| "sample_channels A s (pin # pins) h =
     (let (v, h1) = (if fw_mode s pin = Some USBIO_MODE_ANALOG_IN then read_analog A pin h
                     else let (d, h') = read_pin A pin h in (ucast d, h'));
          (rest, h2) = sample_channels A s pins h1
      in (put_u16 v @ rest, h2))"

text \<open>
  The digital bitmap of DIO_READ_ALL and of stream records: \<open>memset\<close> of \<open>(n_pins + 7) / 8\<close>
  bytes, then bit \<open>p mod 8\<close> of byte \<open>p div 8\<close> is set for every digital pin whose shadow is
  non-zero.
\<close>

definition bitmap_len :: "u8 \<Rightarrow> nat" where
  "bitmap_len n = (unat n + 7) div 8"

definition set_bitmap_pin :: "fw \<Rightarrow> u8 \<Rightarrow> bytes \<Rightarrow> bytes" where
  "set_bitmap_pin s p bm =
     (if mode_is_digital (fw_mode s p) \<and> fw_dio s p \<noteq> 0
      then bm[unat (drop_bit 3 p) := bm ! unat (drop_bit 3 p) OR push_bit (unat (p AND 7)) 1]
      else bm)"

definition digital_bitmap :: "fw \<Rightarrow> bytes" where
  "digital_bitmap s =
     fold (set_bitmap_pin s) (pins_below (fw_n_pins s)) (replicate (bitmap_len (fw_n_pins s)) 0)"

text \<open>The record \<open>stream_sample\<close> formats in \<open>buf\<close>: header, samples, padded bitmap.\<close>

definition stream_record :: "fw \<Rightarrow> u32 \<Rightarrow> bytes \<Rightarrow> bytes" where
  "stream_record s now samples =
     (let hdr = stream_header_bytes \<lparr>sh_magic = USBIO_STREAM_MAGIC,
            sh_n_samples = ucast (fw_n_channels s), sh_seq = fw_seq s, sh_t_us = now\<rparr>;
          body = hdr @ samples
      in if ucast (fw_stream_flags s) AND USBIO_STREAM_FLAG_DIGITAL \<noteq> 0
         then let buf = body @ digital_bitmap s
              in if odd (length buf) then buf @ [0] else buf
         else body)"

definition stream_sample :: "'h arduino \<Rightarrow> u32 \<Rightarrow> fw \<Rightarrow> 'h \<Rightarrow> fw \<times> 'h" where
  "stream_sample A now s h =
     (let (samples, h1) = sample_channels A s (stream_channels s) h;
          buf = stream_record s now samples;
          s1 = s\<lparr>fw_seq := fw_seq s + 1\<rparr>
      in if ring_full StreamRingDepth (fw_records s1)
         then (let s2 = s1\<lparr>fw_overruns := fw_overruns s1 + 1\<rparr> in
               (if ucast (fw_stream_flags s) AND USBIO_STREAM_FLAG_STOP_ON_OVERRUN \<noteq> 0
                then s2\<lparr>fw_running := False\<rparr> else s2, h1))
         else (s1\<lparr>fw_records := ring_push StreamRingDepth buf (fw_records s1)\<rparr>, h1))"

section \<open>Scheduling and sending\<close>

text \<open>The pending START's reset at the top of \<open>stream_poll\<close>.\<close>

definition apply_start :: "'h arduino \<Rightarrow> fw \<Rightarrow> 'h \<Rightarrow> fw \<times> 'h" where
  "apply_start A s h =
     (if fw_start_done s \<noteq> fw_start_requests s
      then let (now, h1) = micros A h in
        (s\<lparr>fw_start_done := fw_start_requests s,
           fw_records := (fw_records s)\<lparr>ring_head := 0, ring_tail := 0\<rparr>,
           fw_seq := 0, fw_overruns := 0, fw_tx_failures := 0, fw_packet_len := 0,
           fw_packet_records := 0, fw_record_len := 0, fw_deadline_us := now\<rparr>, h1)
      else (s, h))"

definition reschedule :: "u32 \<Rightarrow> fw \<Rightarrow> fw" where
  "reschedule now s =
     (if fw_period_us s \<noteq> 0
      then let d = fw_deadline_us s + ucast (fw_period_us s) in
           s\<lparr>fw_deadline_us :=
               (if 0 \<le> sint (now - d) then now + ucast (fw_period_us s) else d)\<rparr>
      else s)"

definition take_due_sample :: "'h arduino \<Rightarrow> fw \<Rightarrow> 'h \<Rightarrow> fw \<times> 'h" where
  "take_due_sample A s h =
     (if fw_running s
      then let (now, h1) = micros A h in
        if fw_period_us s = 0 \<or> 0 \<le> sint (now - fw_deadline_us s)
        then let (s1, h2) = stream_sample A now s h1 in (reschedule now s1, h2)
        else (s, h1)
      else (s, h))"

text \<open>Moving one record from the ring into the packet under construction.\<close>

definition pack_record :: "u32 option \<Rightarrow> fw \<Rightarrow> fw" where
  "pack_record since s =
     (let rec = ring_front StreamRingDepth (fw_records s) in
      s\<lparr>fw_packet_since_us := (case since of Some us \<Rightarrow> us | None \<Rightarrow> fw_packet_since_us s),
        fw_packet := memcpy_at (unat (fw_packet_len s)) rec (fw_packet s),
        fw_packet_len := fw_packet_len s + of_nat (length rec),
        fw_record_len := of_nat (length rec),
        fw_packet_records := fw_packet_records s + 1,
        fw_records := ring_drop (fw_records s)\<rparr>)"

text \<open>The packing loop \<open>while (_stream_tail != _stream_head)\<close>.\<close>

function pack_records :: "board \<Rightarrow> 'h arduino \<Rightarrow> fw \<Rightarrow> 'h \<Rightarrow> fw \<times> 'h" where
  "pack_records b A s h =
     (if ring_tail (fw_records s) = ring_head (fw_records s) then (s, h)
      else if stream_packet_max b <
              fw_packet_len s + of_nat (length (ring_front StreamRingDepth (fw_records s)))
      then (s, h)
      else if fw_packet_len s = 0
      then let (us, h1) = micros A h in pack_records b A (pack_record (Some us) s) h1
      else pack_records b A (pack_record None s) h)"
  by pat_completeness auto
termination
  by (relation "measure (\<lambda>(b, A, s, h). unat (ring_head (fw_records s) - ring_tail (fw_records s)))")
    (simp_all add: pack_record_def Let_def ring_drop_def ring_distance_decreases)

declare pack_records.simps [simp del]

text \<open>What \<open>stream_poll\<close> does with the packet once the ring is packed.\<close>

definition flush_packet :: "board \<Rightarrow> 'h arduino \<Rightarrow> fw \<Rightarrow> 'h \<Rightarrow> fw \<times> 'h" where
  "flush_packet b A s h =
     (let (result, h1) = stream_write A (take (unat (fw_packet_len s)) (fw_packet s)) h in
      case result of
        USBIO_STREAM_WRITE_BUSY \<Rightarrow> (s, h1)
      | USBIO_STREAM_WRITE_FAILED \<Rightarrow>
          (let s1 = s\<lparr>fw_tx_failures := fw_tx_failures s + 1\<rparr> in
           if fw_tx_failures s1 < StreamTxFailureLimit then (s1, h1)
           else (s1\<lparr>fw_running := False,
                    fw_overruns := fw_overruns s1 + ucast (fw_packet_records s1)
                       + ucast (ring_pending (fw_records s1)),
                    fw_records := (fw_records s1)\<lparr>ring_tail := ring_head (fw_records s1)\<rparr>,
                    fw_packet_len := 0, fw_packet_records := 0, fw_tx_failures := 0\<rparr>, h1))
      | USBIO_STREAM_WRITE_SENT \<Rightarrow>
          (s\<lparr>fw_tx_failures := 0, fw_packet_len := 0, fw_packet_records := 0\<rparr>, h1))"

definition send_packet :: "board \<Rightarrow> 'h arduino \<Rightarrow> fw \<Rightarrow> 'h \<Rightarrow> fw \<times> 'h" where
  "send_packet b A s h =
     (if fw_packet_len s = 0 then (s, h)
      else if stream_packet_max b - fw_packet_len s < ucast (fw_record_len s) \<or> \<not> fw_running s
      then flush_packet b A s h
      else let (us, h1) = micros A h in
        if us - fw_packet_since_us s < ucast StreamFlushUs then (s, h1)
        else flush_packet b A s h1)"

definition stream_poll :: "board \<Rightarrow> 'h arduino \<Rightarrow> fw \<Rightarrow> 'h \<Rightarrow> fw \<times> 'h" where
  "stream_poll b A s h =
     (let (s1, h1) = apply_start A s h;
          (s2, h2) = take_due_sample A s1 h1;
          (s3, h3) = pack_records b A s2 h2
      in send_packet b A s3 h3)"

section \<open>What streaming leaves alone\<close>

text \<open>\<open>stream_poll\<close> writes the stream's own fields only; everything else a host can observe stays.\<close>

definition same_core :: "fw \<Rightarrow> fw \<Rightarrow> bool" where
  "same_core s s' \<longleftrightarrow>
     fw_n_pins s' = fw_n_pins s \<and> fw_n_ain s' = fw_n_ain s \<and> fw_flags s' = fw_flags s \<and>
     fw_caps s' = fw_caps s \<and> fw_mode s' = fw_mode s \<and> fw_dio s' = fw_dio s \<and>
     fw_ain s' = fw_ain s \<and> fw_queue s' = fw_queue s \<and> fw_epoch s' = fw_epoch s \<and>
     fw_reset_requests s' = fw_reset_requests s \<and> fw_reset_done s' = fw_reset_done s \<and>
     fw_last_error s' = fw_last_error s \<and> fw_ain_cursor s' = fw_ain_cursor s \<and>
     fw_watch s' = fw_watch s \<and> fw_n_watched s' = fw_n_watched s \<and>
     fw_arm_seq s' = fw_arm_seq s \<and> fw_events s' = fw_events s \<and> fw_dropped s' = fw_dropped s \<and>
     fw_channels s' = fw_channels s \<and> fw_n_channels s' = fw_n_channels s \<and>
     fw_stream_flags s' = fw_stream_flags s \<and> fw_period_us s' = fw_period_us s \<and>
     fw_start_requests s' = fw_start_requests s"

lemma same_core_refl [simp]: "same_core s s"
  by (simp add: same_core_def)

lemma same_core_trans [trans]: "same_core s s' \<Longrightarrow> same_core s' s'' \<Longrightarrow> same_core s s''"
  by (simp add: same_core_def)

lemma apply_start_core: "same_core s (fst (apply_start A s h))"
  by (simp add: apply_start_def same_core_def split: prod.split)

lemma stream_sample_core: "same_core s (fst (stream_sample A now s h))"
  by (simp add: stream_sample_def same_core_def Let_def split: prod.split)

lemma reschedule_core: "same_core s (reschedule now s)"
  by (simp add: reschedule_def same_core_def Let_def)

lemma take_due_sample_core: "same_core s (fst (take_due_sample A s h))"
proof -
  obtain now h1 where m: "micros A h = (now, h1)" by fastforce
  obtain s1 h2 where r: "stream_sample A now s h1 = (s1, h2)" by fastforce
  have "same_core s (reschedule now s1)"
    using stream_sample_core [of s A now h1] by (simp add: r) (rule same_core_trans [OF _ reschedule_core])
  then show ?thesis
    by (simp add: take_due_sample_def m r)
qed

lemma pack_record_core: "same_core s (pack_record us s)"
  by (simp add: pack_record_def same_core_def Let_def)

text \<open>The next record exists and fits into the packet: the two guards of the packing loop.\<close>

definition next_fits :: "board \<Rightarrow> fw \<Rightarrow> bool" where
  "next_fits b s \<longleftrightarrow>
     ring_tail (fw_records s) \<noteq> ring_head (fw_records s) \<and>
     fw_packet_len s + of_nat (length (ring_front StreamRingDepth (fw_records s)))
       \<le> stream_packet_max b"

lemma pack_records_keeps:
  assumes "P s" and "\<And>us s. P s \<Longrightarrow> next_fits b s \<Longrightarrow> P (pack_record us s)"
  shows "P (fst (pack_records b A s h))"
  using assms
proof (induction b A s h rule: pack_records.induct)
  case (1 b A s h)
  show ?case
  proof (cases "next_fits b s")
    case True
    then have guards: "ring_tail (fw_records s) \<noteq> ring_head (fw_records s)"
      "\<not> stream_packet_max b < fw_packet_len s
          + of_nat (length (ring_front StreamRingDepth (fw_records s)))"
      by (auto simp: next_fits_def)
    have P: "P (pack_record us s)" for us
      using 1(4) [OF 1(3) True] .
    show ?thesis
    proof (cases "fw_packet_len s = 0")
      case empty: True
      obtain us h1 where m: "micros A h = (us, h1)" by fastforce
      have "pack_records b A s h = pack_records b A (pack_record (Some us) s) h1"
        using guards empty m by (subst pack_records.simps) simp
      with 1(1) [OF guards empty m [symmetric] refl P 1(4)] show ?thesis
        by simp
    next
      case False
      have "pack_records b A s h = pack_records b A (pack_record None s) h"
        using guards False by (subst pack_records.simps) simp
      with 1(2) [OF guards False P 1(4)] show ?thesis
        by simp
    qed
  next
    case False
    then have "pack_records b A s h = (s, h)"
      by (subst pack_records.simps) (auto simp: next_fits_def not_less)
    with 1(3) show ?thesis by simp
  qed
qed

lemma pack_records_core: "same_core s (fst (pack_records b A s h))"
  by (rule pack_records_keeps) (auto intro: same_core_trans pack_record_core)

lemma flush_packet_core: "same_core s (fst (flush_packet b A s h))"
  by (simp add: flush_packet_def same_core_def Let_def split: prod.split write_result.split)

lemma send_packet_core: "same_core s (fst (send_packet b A s h))"
  by (simp add: send_packet_def flush_packet_core split: prod.split)

lemma stream_poll_core: "same_core s (fst (stream_poll b A s h))"
proof -
  obtain s1 h1 where 1: "apply_start A s h = (s1, h1)" by fastforce
  obtain s2 h2 where 2: "take_due_sample A s1 h1 = (s2, h2)" by fastforce
  obtain s3 h3 where 3: "pack_records b A s2 h2 = (s3, h3)" by fastforce
  have "same_core s s1" "same_core s1 s2" "same_core s2 s3"
    using apply_start_core [of s A h] take_due_sample_core [of s1 A h1]
      pack_records_core [of s2 b A h2] by (simp_all add: 1 2 3)
  then have "same_core s s3"
    by (blast intro: same_core_trans)
  then show ?thesis
    using send_packet_core [of s3 b A h3] by (simp add: stream_poll_def 1 2 3) (rule same_core_trans)
qed

section \<open>Record lengths\<close>

lemma length_sample_channels: "length (fst (sample_channels A s ps h)) = 2 * length ps"
proof (induction ps arbitrary: h)
  case Nil
  then show ?case by simp
next
  case (Cons p ps)
  have "length (fst (case sample_channels A s ps h' of (rest, h2) \<Rightarrow> (put_u16 v @ rest, h2))) =
      2 * length (p # ps)" for v h'
    using Cons [of h'] by (cases "sample_channels A s ps h'") simp
  then show ?case
    by (simp add: Let_def split: prod.split)
qed

lemma length_digital_bitmap [simp]: "length (digital_bitmap s) = bitmap_len (fw_n_pins s)"
proof -
  have "length (fold (set_bitmap_pin s) ps bm) = length bm" for ps bm
    by (induction ps arbitrary: bm) (simp_all add: set_bitmap_pin_def)
  then show ?thesis
    by (simp add: digital_bitmap_def)
qed

text \<open>The length of a record: header, one half-word per channel, and the padded bitmap.\<close>

definition record_len :: "fw \<Rightarrow> nat" where
  "record_len s = 12 + 2 * unat (fw_n_channels s) +
     (if ucast (fw_stream_flags s) AND USBIO_STREAM_FLAG_DIGITAL \<noteq> 0
      then 2 * ((bitmap_len (fw_n_pins s) + 1) div 2) else 0)"

lemma length_stream_record:
  "length samples = 2 * unat (fw_n_channels s) \<Longrightarrow>
   length (stream_record s now samples) = record_len s"
  by (auto simp: stream_record_def record_len_def Let_def)

lemma record_len_bound:
  "unat (fw_n_channels s) \<le> 8 \<Longrightarrow> unat (fw_n_pins s) \<le> 128 \<Longrightarrow>
   even (record_len s) \<and> 12 \<le> record_len s \<and> record_len s \<le> StreamRecordMaxLen"
proof -
  assume "unat (fw_n_channels s) \<le> 8" "unat (fw_n_pins s) \<le> 128"
  moreover from this(2) have "((unat (fw_n_pins s) + 7) div 8 + 1) div 2 \<le> 8"
    by linarith
  ultimately show ?thesis
    by (simp add: record_len_def StreamRecordMaxLen_def bitmap_len_def)
qed

section \<open>The record pipeline\<close>

interpretation stream_ring: ring_depth StreamRingDepth
  by unfold_locales (rule exI [of _ 5], simp add: StreamRingDepth_def)

abbreviation records :: "fw \<Rightarrow> bytes list" where
  "records s \<equiv> ring_contents StreamRingDepth (fw_records s)"

definition packet :: "fw \<Rightarrow> bytes" where
  "packet s = take (unat (fw_packet_len s)) (fw_packet s)"

text \<open>The bytes that wait for the transport: the packet being filled, then the ring.\<close>

definition pipeline :: "fw \<Rightarrow> bytes" where
  "pipeline s = packet s @ concat (records s)"

definition record_ok :: "bytes \<Rightarrow> bool" where
  "record_ok r \<longleftrightarrow> even (length r) \<and> 12 \<le> length r \<and> length r \<le> StreamRecordMaxLen"

text \<open>
  The stream's invariant: selected channels are distinct pins, records have an even length that
  fits their slot, the packet stays within the transport's packet size, its record count is
  backed by bytes, and a running stream has channels.
\<close>

definition stream_inv :: "board \<Rightarrow> fw \<Rightarrow> bool" where
  "stream_inv b s \<longleftrightarrow>
     unat (fw_n_channels s) \<le> 8 \<and> distinct (stream_channels s) \<and>
     (\<forall>p \<in> set (stream_channels s). p < fw_n_pins s) \<and>
     (fw_running s \<longrightarrow> fw_n_channels s \<noteq> 0) \<and>
     ring_ok StreamRingDepth (fw_records s) \<and> (\<forall>r \<in> set (records s). record_ok r) \<and>
     length (fw_packet s) = packet_buffer_len b \<and>
     unat (fw_packet_len s) \<le> unat (stream_packet_max b) \<and>
     12 * unat (fw_packet_records s) \<le> unat (fw_packet_len s) \<and>
     fw_tx_failures s < StreamTxFailureLimit"

lemma StreamRecordMaxLen_eq [simp]: "StreamRecordMaxLen = 44"
  by (simp add: StreamRecordMaxLen_def)

lemma unat_StreamRingDepth [simp]: "unat StreamRingDepth = 32"
  by (simp add: StreamRingDepth_def)

lemma next_fits_front:
  assumes "stream_inv b s" and "wf_board b" and "next_fits b s"
  defines "rec \<equiv> ring_front StreamRingDepth (fw_records s)"
  shows "records s = rec # ring_contents StreamRingDepth (ring_drop (fw_records s))"
    and "record_ok rec"
    and "unat (fw_packet_len s) + length rec \<le> unat (stream_packet_max b)"
    and "unat (fw_packet_len s + of_nat (length rec)) = unat (fw_packet_len s) + length rec"
proof -
  show front: "records s = rec # ring_contents StreamRingDepth (ring_drop (fw_records s))"
    using assms(3) unfolding rec_def next_fits_def by (intro stream_ring.contents_front) simp
  then show ok: "record_ok rec"
    using assms(1) by (simp add: stream_inv_def)
  have "length rec \<le> 44" "unat (fw_packet_len s) < 512"
    using ok assms(1,2) by (auto simp: record_ok_def stream_inv_def wf_board_def)
  then show sum: "unat (fw_packet_len s + of_nat (length rec)) = unat (fw_packet_len s) + length rec"
    by (simp add: unat_plus_if')
  show "unat (fw_packet_len s) + length rec \<le> unat (stream_packet_max b)"
    using assms(3) unfolding next_fits_def rec_def [symmetric] word_le_nat_alt sum by simp
qed

lemma pack_record_fields [simp]:
  "fw_n_channels (pack_record us s) = fw_n_channels s" "fw_n_pins (pack_record us s) = fw_n_pins s"
  "stream_channels (pack_record us s) = stream_channels s"
  "fw_running (pack_record us s) = fw_running s" "fw_tx_failures (pack_record us s) = fw_tx_failures s"
  "fw_records (pack_record us s) = ring_drop (fw_records s)"
  "fw_packet_records (pack_record us s) = fw_packet_records s + 1"
  "fw_packet_len (pack_record us s) =
     fw_packet_len s + of_nat (length (ring_front StreamRingDepth (fw_records s)))"
  "fw_packet (pack_record us s) =
     memcpy_at (unat (fw_packet_len s)) (ring_front StreamRingDepth (fw_records s)) (fw_packet s)"
  by (simp_all add: pack_record_def Let_def stream_channels_def)

lemma pack_record_inv:
  assumes inv: "stream_inv b s" and wf: "wf_board b" and fits: "next_fits b s"
  shows "stream_inv b (pack_record us s)"
proof -
  let ?rec = "ring_front StreamRingDepth (fw_records s)"
  note front = next_fits_front [OF inv wf fits]
  have ne: "ring_tail (fw_records s) \<noteq> ring_head (fw_records s)"
    using fits by (simp add: next_fits_def)
  have max: "unat (stream_packet_max b) \<le> packet_buffer_len b" "packet_buffer_len b < 512"
    using wf by (auto simp: wf_board_def)
  have pr: "12 * unat (fw_packet_records s) \<le> unat (fw_packet_len s)"
    using inv by (simp add: stream_inv_def)
  moreover have "unat (fw_packet_len s) < 512"
    using inv max by (simp add: stream_inv_def)
  ultimately have "unat (fw_packet_records s + 1) = Suc (unat (fw_packet_records s))"
    by (intro unat_succ_u8) linarith
  then have "12 * unat (fw_packet_records s + 1) \<le> unat (fw_packet_len s) + length ?rec"
    using pr front(2) by (simp add: record_ok_def)
  moreover have "length (memcpy_at (unat (fw_packet_len s)) ?rec (fw_packet s)) = packet_buffer_len b"
    using inv front(3) max by (subst length_memcpy_at) (auto simp: stream_inv_def)
  ultimately show ?thesis
    using inv front stream_ring.ok_drop [OF ne] unfolding stream_inv_def by simp
qed

lemma pack_record_pipeline:
  assumes inv: "stream_inv b s" and wf: "wf_board b" and fits: "next_fits b s"
  shows "pipeline (pack_record us s) = pipeline s"
proof -
  note front = next_fits_front [OF inv wf fits]
  have "unat (fw_packet_len s) + length (ring_front StreamRingDepth (fw_records s)) \<le> length (fw_packet s)"
    using inv wf front(3) by (auto simp: stream_inv_def wf_board_def)
  then show ?thesis
    using front(1) by (simp add: pipeline_def packet_def front(4) take_memcpy_at)
qed

lemma pack_records_inv:
  "stream_inv b s \<Longrightarrow> wf_board b \<Longrightarrow> stream_inv b (fst (pack_records b A s h))"
  by (rule pack_records_keeps) (auto intro: pack_record_inv)

lemma pack_records_pipeline:
  assumes "stream_inv b s" and "wf_board b"
  shows "pipeline (fst (pack_records b A s h)) = pipeline s"
proof -
  have "stream_inv b (fst (pack_records b A s h)) \<and>
      pipeline (fst (pack_records b A s h)) = pipeline s"
    by (rule pack_records_keeps [where P = "\<lambda>t. stream_inv b t \<and> pipeline t = pipeline s"])
      (use assms in \<open>auto intro: pack_record_inv simp: pack_record_pipeline\<close>)
  then show ?thesis ..
qed

section \<open>Sampling into the ring\<close>

text \<open>The record a due sample formats, from the readings of the selected channels.\<close>

definition sampled_record :: "'h arduino \<Rightarrow> u32 \<Rightarrow> fw \<Rightarrow> 'h \<Rightarrow> bytes" where
  "sampled_record A now s h =
     stream_record s now (fst (sample_channels A s (stream_channels s) h))"

lemma length_stream_channels [simp]: "length (stream_channels s) = unat (fw_n_channels s)"
  by (simp add: stream_channels_def)

lemma sampled_record_ok:
  assumes "stream_inv b s" and "unat (fw_n_pins s) \<le> 128"
  shows "record_ok (sampled_record A now s h)" and "length (sampled_record A now s h) = record_len s"
proof -
  show len: "length (sampled_record A now s h) = record_len s"
    by (simp add: sampled_record_def length_stream_record length_sample_channels)
  show "record_ok (sampled_record A now s h)"
    using record_len_bound [of s] assms by (simp add: record_ok_def len stream_inv_def)
qed

lemma sample_room:
  assumes "length (records s) < 32"
  shows "fst (stream_sample A now s h) = s\<lparr>fw_seq := fw_seq s + 1,
      fw_records := ring_push StreamRingDepth (sampled_record A now s h) (fw_records s)\<rparr>"
    and "records (fst (stream_sample A now s h)) = records s @ [sampled_record A now s h]"
  using assms stream_ring.not_full_iff [of "fw_records s"]
  by (simp_all add: stream_sample_def sampled_record_def Let_def stream_ring.contents_push
      split: prod.split)

lemma sample_overrun:
  assumes "\<not> length (records s) < 32"
  shows "fst (stream_sample A now s h) =
    s\<lparr>fw_seq := fw_seq s + 1, fw_overruns := fw_overruns s + 1,
      fw_running := (if ucast (fw_stream_flags s) AND USBIO_STREAM_FLAG_STOP_ON_OVERRUN \<noteq> 0
                     then False else fw_running s)\<rparr>"
  using assms stream_ring.not_full_iff [of "fw_records s"]
  by (simp add: stream_sample_def Let_def split: prod.split)

lemma stream_sample_inv:
  assumes inv: "stream_inv b s" and pins: "unat (fw_n_pins s) \<le> 128"
  shows "stream_inv b (fst (stream_sample A now s h))"
proof (cases "length (records s) < 32")
  case True
  note ok = sampled_record_ok(1) [OF inv pins, of A now h]
  have "\<not> ring_full StreamRingDepth (fw_records s)"
    using True by (simp add: stream_ring.not_full_iff)
  with inv ok show ?thesis
    unfolding sample_room(1) [OF True] stream_inv_def
    by (simp add: stream_ring.contents_push stream_ring.ok_push stream_channels_def)
next
  case False
  with inv show ?thesis
    unfolding sample_overrun [OF False] stream_inv_def by (simp add: stream_channels_def)
qed

lemma stream_sample_pipeline:
  "pipeline (fst (stream_sample A now s h)) =
     pipeline s @ (if length (records s) < 32 then sampled_record A now s h else [])"
  using sample_room [of s A now h] sample_overrun [of s A now h]
  by (cases "length (records s) < 32") (simp_all add: pipeline_def packet_def)

lemma stream_inv_cong:
  assumes "stream_inv b s"
  shows "stream_inv b (s\<lparr>fw_deadline_us := d\<rparr>)" "stream_inv b (s\<lparr>fw_running := False\<rparr>)"
  using assms by (simp_all add: stream_inv_def stream_channels_def)

lemma reschedule_inv: "stream_inv b s \<Longrightarrow> stream_inv b (reschedule now s)"
  by (simp add: reschedule_def Let_def stream_inv_cong)

lemma take_due_sample_inv:
  assumes "stream_inv b s" and "unat (fw_n_pins s) \<le> 128"
  shows "stream_inv b (fst (take_due_sample A s h))"
proof -
  obtain now h1 where m: "micros A h = (now, h1)" by fastforce
  obtain s1 h2 where r: "stream_sample A now s h1 = (s1, h2)" by fastforce
  have "stream_inv b (reschedule now s1)"
    using stream_sample_inv [OF assms, of A now h1] by (simp add: r reschedule_inv)
  then show ?thesis
    using assms(1) by (simp add: take_due_sample_def m r)
qed

lemma ring_empty_contents [simp]: "ring_head r = ring_tail r \<Longrightarrow> ring_contents d r = []"
  by (simp add: ring_contents_def)

lemma apply_start_inv:
  assumes "stream_inv b s"
  shows "stream_inv b (fst (apply_start A s h))"
  using assms
  by (auto simp: apply_start_def stream_inv_def stream_channels_def ring_ok_def ring_pending_def
      StreamTxFailureLimit_def split: prod.split)

lemma apply_start_pipeline:
  "fw_start_done s = fw_start_requests s \<Longrightarrow> apply_start A s h = (s, h)"
  "fw_start_done s \<noteq> fw_start_requests s \<Longrightarrow> pipeline (fst (apply_start A s h)) = []"
  by (simp_all add: apply_start_def pipeline_def packet_def split: prod.split)

section \<open>Handing packets over\<close>

lemma flush_packet_cases:
  "flush_packet b A s h =
     (case stream_write A (packet s) h of
        (USBIO_STREAM_WRITE_SENT, h1) \<Rightarrow>
          (s\<lparr>fw_tx_failures := 0, fw_packet_len := 0, fw_packet_records := 0\<rparr>, h1)
      | (USBIO_STREAM_WRITE_BUSY, h1) \<Rightarrow> (s, h1)
      | (USBIO_STREAM_WRITE_FAILED, h1) \<Rightarrow>
          (if fw_tx_failures s + 1 < StreamTxFailureLimit
           then (s\<lparr>fw_tx_failures := fw_tx_failures s + 1\<rparr>, h1)
           else (s\<lparr>fw_running := False,
                   fw_overruns := fw_overruns s + ucast (fw_packet_records s)
                      + of_nat (length (records s)),
                   fw_records := (fw_records s)\<lparr>ring_tail := ring_head (fw_records s)\<rparr>,
                   fw_packet_len := 0, fw_packet_records := 0, fw_tx_failures := 0\<rparr>, h1)))"
proof -
  have "ucast (ring_pending (fw_records s)) = (of_nat (length (records s)) :: u32)"
    by (simp add: stream_ring.length_contents)
  then show ?thesis
    by (simp add: flush_packet_def packet_def Let_def split: prod.split write_result.split)
qed

lemma flush_packet_inv:
  assumes "stream_inv b s"
  shows "stream_inv b (fst (flush_packet b A s h))"
  using assms
  by (auto simp: flush_packet_cases stream_inv_def stream_channels_def ring_ok_def ring_pending_def
      StreamTxFailureLimit_def split: prod.split write_result.split)

lemma send_packet_inv:
  "stream_inv b s \<Longrightarrow> stream_inv b (fst (send_packet b A s h))"
  by (simp add: send_packet_def flush_packet_inv split: prod.split)

lemma stream_poll_inv:
  assumes inv: "stream_inv b s" and wf: "wf_board b" and pins: "unat (fw_n_pins s) \<le> 128"
  shows "stream_inv b (fst (stream_poll b A s h))"
proof -
  obtain s1 h1 where 1: "apply_start A s h = (s1, h1)" by fastforce
  obtain s2 h2 where 2: "take_due_sample A s1 h1 = (s2, h2)" by fastforce
  obtain s3 h3 where 3: "pack_records b A s2 h2 = (s3, h3)" by fastforce
  have "stream_inv b s1" "fw_n_pins s1 = fw_n_pins s"
    using apply_start_inv [OF inv, of A h] apply_start_core [of s A h]
    by (simp_all add: 1 same_core_def)
  then have "stream_inv b s2"
    using take_due_sample_inv [of b s1 A h1] pins by (simp add: 2)
  then have "stream_inv b s3"
    using pack_records_inv [of b s2 A h2] wf by (simp add: 3)
  then show ?thesis
    using send_packet_inv [of b s3 A h3] by (simp add: stream_poll_def 1 2 3)
qed

text \<open>The record a \<open>stream_poll\<close> without a pending START adds to the ring, if one is due.\<close>

definition due :: "u32 \<Rightarrow> fw \<Rightarrow> bool" where
  "due now s \<longleftrightarrow> fw_running s \<and> (fw_period_us s = 0 \<or> 0 \<le> sint (now - fw_deadline_us s))"

definition new_record :: "'h arduino \<Rightarrow> fw \<Rightarrow> 'h \<Rightarrow> bytes" where
  "new_record A s h =
     (let (now, h1) = micros A h in
      if due now s \<and> length (records s) < 32 then sampled_record A now s h1 else [])"

lemma reschedule_pipeline [simp]: "pipeline (reschedule now s) = pipeline s"
  by (simp add: reschedule_def pipeline_def packet_def Let_def)

lemma take_due_sample_pipeline:
  "pipeline (fst (take_due_sample A s h)) = pipeline s @ new_record A s h"
proof -
  obtain now h1 where m: "micros A h = (now, h1)" by fastforce
  obtain s1 h2 where r: "stream_sample A now s h1 = (s1, h2)" by fastforce
  show ?thesis
    using stream_sample_pipeline [of A now s h1]
    by (auto simp: take_due_sample_def new_record_def due_def m r)
qed

lemma tx_failures_kept:
  "fw_tx_failures (fst (take_due_sample A s h)) = fw_tx_failures s"
  "fw_tx_failures (fst (pack_records b A s h)) = fw_tx_failures s"
proof -
  have "fw_tx_failures (fst (stream_sample A now s h')) = fw_tx_failures s" for now h'
    by (simp add: stream_sample_def Let_def split: prod.split)
  moreover have "fw_tx_failures (reschedule now t) = fw_tx_failures t" for now t
    by (simp add: reschedule_def Let_def)
  ultimately show "fw_tx_failures (fst (take_due_sample A s h)) = fw_tx_failures s"
    by (simp add: take_due_sample_def split: prod.split) (metis fst_conv)
  show "fw_tx_failures (fst (pack_records b A s h)) = fw_tx_failures s"
    by (rule pack_records_keeps) simp_all
qed

text \<open>
  The documented contract of the transport: \<open>sent\<close> lists the packets the stack has taken, a write
  answered SENT adds its packet and no other answer does, and the calls that read pins or the
  clock leave the endpoint alone.
\<close>

definition logs_packets :: "'h arduino \<Rightarrow> ('h \<Rightarrow> bytes list) \<Rightarrow> bool" where
  "logs_packets A sent \<longleftrightarrow>
     (\<forall>bs h. sent (snd (stream_write A bs h)) =
        sent h @ (if fst (stream_write A bs h) = USBIO_STREAM_WRITE_SENT then [bs] else [])) \<and>
     (\<forall>h. sent (snd (micros A h)) = sent h) \<and>
     (\<forall>p h. sent (snd (digitalRead A p h)) = sent h) \<and>
     (\<forall>p h. sent (snd (analogRead A p h)) = sent h)"

lemma logs_packetsD:
  assumes "logs_packets A sent"
  shows "stream_write A bs h = (r, h1) \<Longrightarrow>
      sent h1 = sent h @ (if r = USBIO_STREAM_WRITE_SENT then [bs] else [])"
    and "micros A h = (us, h1) \<Longrightarrow> sent h1 = sent h"
    and "digitalRead A p h = (d, h1) \<Longrightarrow> sent h1 = sent h"
    and "analogRead A p h = (v, h1) \<Longrightarrow> sent h1 = sent h"
  using assms unfolding logs_packets_def by (metis fst_conv snd_conv)+

lemma sample_channels_sent:
  assumes "logs_packets A sent"
  shows "sent (snd (sample_channels A s ps h)) = sent h"
proof (induction ps arbitrary: h)
  case Nil
  then show ?case by simp
next
  case (Cons p ps)
  have "sent (snd (case sample_channels A s ps h' of (rest, h2) \<Rightarrow> (put_u16 v @ rest, h2))) = sent h'"
    for v h'
    using Cons [of h'] by (cases "sample_channels A s ps h'") simp
  then show ?case
    using logs_packetsD(3,4) [OF assms]
    by (auto simp: Let_def read_pin_def read_analog_def split: prod.split)
qed

lemma take_due_sample_sent:
  assumes "logs_packets A sent"
  shows "sent (snd (take_due_sample A s h)) = sent h"
proof -
  obtain now h1 where m: "micros A h = (now, h1)" by fastforce
  obtain s1 h2 where r: "stream_sample A now s h1 = (s1, h2)" by fastforce
  have "sent h2 = sent h1"
    using sample_channels_sent [OF assms, of s "stream_channels s" h1] r
    by (auto simp: stream_sample_def Let_def split: prod.splits if_splits)
  then show ?thesis
    using logs_packetsD(2) [OF assms m] by (simp add: take_due_sample_def m r)
qed

lemma pack_records_sent:
  assumes "logs_packets A sent"
  shows "sent (snd (pack_records b A s h)) = sent h"
  using assms
proof (induction b A s h rule: pack_records.induct)
  case (1 b A s h)
  obtain us h1 where m: "micros A h = (us, h1)" by fastforce
  have "sent h1 = sent h"
    by (rule logs_packetsD(2) [OF 1(3) m])
  then show ?case
    using 1(1) [OF _ _ _ m [symmetric] refl 1(3)] 1(2) [OF _ _ _ 1(3)]
    by (subst pack_records.simps) (simp add: m)
qed

lemma packet_updates [simp]:
  "packet (s\<lparr>fw_tx_failures := n\<rparr>) = packet s"
  "packet (s\<lparr>fw_tx_failures := n, fw_packet_len := 0, fw_packet_records := k\<rparr>) = []"
  by (simp_all add: packet_def)

lemma length_packet:
  "stream_inv b s \<Longrightarrow> wf_board b \<Longrightarrow> length (packet s) = unat (fw_packet_len s)"
  by (auto simp: packet_def stream_inv_def wf_board_def)

lemma send_packet_sent:
  assumes log: "logs_packets A sent" and inv: "stream_inv b s" and wf: "wf_board b"
    and run: "send_packet b A s h = (s', h')" and budget: "fw_tx_failures s < 2"
  shows "concat (sent h') @ pipeline s' = concat (sent h) @ pipeline s"
    and "\<exists>ps. sent h' = sent h @ ps \<and> length ps \<le> 1 \<and>
      (\<forall>p \<in> set ps. p \<noteq> [] \<and> length p \<le> unat (stream_packet_max b))"
proof -
  have flush: "concat (sent h') @ pipeline s' = concat (sent h0) @ pipeline s \<and>
      (\<exists>ps. sent h' = sent h0 @ ps \<and> length ps \<le> 1 \<and>
        (\<forall>p \<in> set ps. p \<noteq> [] \<and> length p \<le> unat (stream_packet_max b)))"
    if f: "flush_packet b A s h0 = (s', h')" and ne: "fw_packet_len s \<noteq> 0" for h0
  proof -
    obtain r h1 where w: "stream_write A (packet s) h0 = (r, h1)" by fastforce
    have "packet s \<noteq> []" "length (packet s) \<le> unat (stream_packet_max b)"
      using ne inv length_packet [OF inv wf] by (auto simp: stream_inv_def unat_eq_0)
    moreover have "fw_tx_failures s + 1 < StreamTxFailureLimit"
      using budget by (auto simp: StreamTxFailureLimit_def word_less_nat_alt unat_succ_u8)
    ultimately show ?thesis
      using f logs_packetsD(1) [OF log w]
      by (cases r) (auto simp: flush_packet_cases w pipeline_def intro: exI [of _ "[]"])
  qed
  obtain us h1 where m: "micros A h = (us, h1)" by fastforce
  have "sent h1 = sent h"
    by (rule logs_packetsD(2) [OF log m])
  then have "concat (sent h') @ pipeline s' = concat (sent h) @ pipeline s \<and>
      (\<exists>ps. sent h' = sent h @ ps \<and> length ps \<le> 1 \<and>
        (\<forall>p \<in> set ps. p \<noteq> [] \<and> length p \<le> unat (stream_packet_max b)))"
    using run flush [of h] flush [of h1]
    by (auto simp: send_packet_def m split: if_splits intro: exI [of _ "[]"])
  then show "concat (sent h') @ pipeline s' = concat (sent h) @ pipeline s"
    and "\<exists>ps. sent h' = sent h @ ps \<and> length ps \<le> 1 \<and>
      (\<forall>p \<in> set ps. p \<noteq> [] \<and> length p \<le> unat (stream_packet_max b))"
    by auto
qed

text \<open>
  The pipeline conserves records: what the transport has taken, followed by what waits, grows
  by exactly the new record, byte for byte and in order.
\<close>

lemma stream_poll_conserves:
  assumes log: "logs_packets A sent" and inv: "stream_inv b s" and wf: "wf_board b"
    and pins: "unat (fw_n_pins s) \<le> 128"
    and started: "fw_start_done s = fw_start_requests s" and budget: "fw_tx_failures s < 2"
    and run: "stream_poll b A s h = (s', h')"
  shows "concat (sent h') @ pipeline s' = concat (sent h) @ pipeline s @ new_record A s h"
    and "\<exists>ps. sent h' = sent h @ ps \<and> length ps \<le> 1 \<and>
      (\<forall>p \<in> set ps. p \<noteq> [] \<and> length p \<le> unat (stream_packet_max b))"
proof -
  obtain s2 h2 where 2: "take_due_sample A s h = (s2, h2)" by fastforce
  obtain s3 h3 where 3: "pack_records b A s2 h2 = (s3, h3)" by fastforce
  have inv2: "stream_inv b s2"
    using take_due_sample_inv [OF inv pins, of A h] by (simp add: 2)
  have inv3: "stream_inv b s3"
    using pack_records_inv [OF inv2 wf, of A h2] by (simp add: 3)
  have pipe: "pipeline s3 = pipeline s @ new_record A s h"
    using pack_records_pipeline [OF inv2 wf, of A h2] take_due_sample_pipeline [of A s h]
    by (simp add: 2 3)
  have sent: "sent h3 = sent h"
    using take_due_sample_sent [OF log, of s h] pack_records_sent [OF log, of b s2 h2]
    by (simp add: 2 3)
  have fails: "fw_tx_failures s3 < 2"
    using tx_failures_kept(1) [of A s h] tx_failures_kept(2) [of b A s2 h2] budget by (simp add: 2 3)
  have send: "send_packet b A s3 h3 = (s', h')"
    using run apply_start_pipeline(1) [OF started, of A h] by (simp add: stream_poll_def 2 3)
  show "concat (sent h') @ pipeline s' = concat (sent h) @ pipeline s @ new_record A s h"
    using send_packet_sent(1) [OF log inv3 wf send fails] by (simp add: pipe sent)
  show "\<exists>ps. sent h' = sent h @ ps \<and> length ps \<le> 1 \<and>
      (\<forall>p \<in> set ps. p \<noteq> [] \<and> length p \<le> unat (stream_packet_max b))"
    using send_packet_sent(2) [OF log inv3 wf send fails] by (simp add: sent)
qed

section \<open>Schedule, accounting and bitmap\<close>

text \<open>After a due sample the next deadline lies ahead, by at most one period.\<close>

lemma reschedule_ahead:
  assumes "fw_period_us s \<noteq> 0" and "0 \<le> sint (now - fw_deadline_us s)"
  shows "1 \<le> unat (fw_deadline_us (reschedule now s) - now)"
    and "unat (fw_deadline_us (reschedule now s) - now) \<le> unat (fw_period_us s)"
proof -
  let ?p = "ucast (fw_period_us s) :: u32" and ?late = "now - fw_deadline_us s"
  have p: "unat ?p = unat (fw_period_us s)" "1 \<le> unat ?p" "unat ?p < 65536"
    using assms(1) unat_lt_u16 [of "fw_period_us s"] by (simp_all add: Suc_le_eq unat_gt_0 del: unat_lt_u16)
  have late: "unat ?late < 2147483648"
    using assms(2) by (simp add: sint_nonneg_u32)
  have elapsed: "0 \<le> sint (now - (fw_deadline_us s + ?p)) \<longleftrightarrow> unat ?p \<le> unat ?late"
    using p late by (intro timer_elapsed) linarith+
  have ahead: "fw_deadline_us (reschedule now s) - now =
      (if unat ?p \<le> unat ?late then ?p else ?p - ?late)"
    using assms(1) elapsed by (simp add: reschedule_def Let_def)
  show "1 \<le> unat (fw_deadline_us (reschedule now s) - now)"
    and "unat (fw_deadline_us (reschedule now s) - now) \<le> unat (fw_period_us s)"
    unfolding ahead using p by (auto simp: unat_sub_if')
qed

text \<open>
  Every sample taken since START is queued, in the packet, delivered or counted as an overrun:
  \<open>accounted\<close> is the number of those that have not been delivered.
\<close>

definition accounted :: "fw \<Rightarrow> u32" where
  "accounted s = fw_overruns s + ucast (fw_packet_records s) + of_nat (length (records s))"

lemma stream_sample_accounted:
  "fw_seq (fst (stream_sample A now s h)) = fw_seq s + 1"
  "accounted (fst (stream_sample A now s h)) = accounted s + 1"
proof -
  let ?s' = "fst (stream_sample A now s h)"
  have "fw_seq ?s' = fw_seq s + 1 \<and> accounted ?s' = accounted s + 1"
  proof (cases "length (records s) < 32")
    case True
    show ?thesis
      using sample_room(2) [OF True, of A now h] unfolding accounted_def sample_room(1) [OF True] by simp
  next
    case False
    show ?thesis
      unfolding accounted_def sample_overrun [OF False] by simp
  qed
  then show "fw_seq ?s' = fw_seq s + 1" "accounted ?s' = accounted s + 1"
    by simp_all
qed

lemma pack_record_accounted:
  assumes inv: "stream_inv b s" and wf: "wf_board b" and fits: "next_fits b s"
  shows "accounted (pack_record us s) = accounted s"
proof -
  have "unat (fw_packet_records s) < 255"
    using inv wf by (auto simp: stream_inv_def wf_board_def)
  then have "unat (fw_packet_records s + 1) = Suc (unat (fw_packet_records s))"
    by (rule unat_succ_u8)
  then have "(ucast (fw_packet_records s + 1) :: u32) = ucast (fw_packet_records s) + 1"
    by (metis of_nat_Suc of_nat_unat add.commute)
  then show ?thesis
    using next_fits_front(1) [OF inv wf fits] by (simp add: accounted_def pack_record_def Let_def)
qed

lemma pack_records_accounted:
  assumes "stream_inv b s" and "wf_board b"
  shows "accounted (fst (pack_records b A s h)) = accounted s"
proof -
  have "stream_inv b (fst (pack_records b A s h)) \<and>
      accounted (fst (pack_records b A s h)) = accounted s"
    by (rule pack_records_keeps [where P = "\<lambda>t. stream_inv b t \<and> accounted t = accounted s"])
      (use assms in \<open>auto intro: pack_record_inv simp: pack_record_accounted\<close>)
  then show ?thesis ..
qed

text \<open>Giving up on the host loses nothing from the books: the backlog becomes overruns.\<close>

lemma flush_accounted:
  assumes "stream_write A (packet s) h = (r, h1)"
  shows "accounted (fst (flush_packet b A s h)) =
    (if r = USBIO_STREAM_WRITE_SENT then accounted s - ucast (fw_packet_records s) else accounted s)"
  using assms by (cases r) (simp_all add: flush_packet_cases accounted_def)

text \<open>Bit \<open>p mod 8\<close> of byte \<open>p div 8\<close> of the bitmap is the shadow level of digital pin \<open>p\<close>.\<close>

definition digital_high :: "fw \<Rightarrow> u8 \<Rightarrow> bool" where
  "digital_high s p \<longleftrightarrow> mode_is_digital (fw_mode s p) \<and> fw_dio s p \<noteq> 0"

lemma bitmap_position:
  "unat (drop_bit 3 (p :: u8)) = unat p div 8" "unat (p AND 7) = unat p mod 8"
proof -
  show "unat (drop_bit 3 p) = unat p div 8"
    by (subst unsigned_drop_bit_eq) (simp add: drop_bit_eq_div take_bit_nat_eq_self)
  have "p AND 7 = take_bit 3 p"
    by (simp add: take_bit_eq_mask mask_eq_exp_minus_1)
  then show "unat (p AND 7) = unat p mod 8"
    by (simp only: unsigned_take_bit_eq) (simp add: take_bit_eq_mod)
qed

lemma bit_set_bitmap_pin:
  assumes "unat p div 8 < length bm" and "j < 8"
  shows "bit (set_bitmap_pin s p bm ! i) j \<longleftrightarrow>
    bit (bm ! i) j \<or> digital_high s p \<and> i = unat p div 8 \<and> j = unat p mod 8"
  using assms
  by (auto simp: set_bitmap_pin_def digital_high_def bitmap_position nth_list_update bit_simps)

lemma bit_digital_bitmap:
  assumes "unat (fw_n_pins s) \<le> 128" and "p < fw_n_pins s"
  shows "bit (digital_bitmap s ! (unat p div 8)) (unat p mod 8) \<longleftrightarrow> digital_high s p"
proof -
  have fold: "bit (fold (set_bitmap_pin s) ps bm ! i) j \<longleftrightarrow>
      bit (bm ! i) j \<or> (\<exists>p \<in> set ps. digital_high s p \<and> i = unat p div 8 \<and> j = unat p mod 8)"
    if "\<forall>p \<in> set ps. unat p div 8 < length bm" "j < 8" for ps bm i j
    using that
  proof (induction ps arbitrary: bm)
    case Nil
    then show ?case by simp
  next
    case (Cons q ps)
    have "length (set_bitmap_pin s q bm) = length bm"
      by (simp add: set_bitmap_pin_def)
    with Cons show ?case
      by (auto simp: bit_set_bitmap_pin)
  qed
  have inside: "unat q div 8 < bitmap_len (fw_n_pins s)" if "q < fw_n_pins s" for q
    using that by (simp add: bitmap_len_def word_less_nat_alt)
  have "q = p" if "unat p div 8 = unat q div 8" "unat p mod 8 = unat q mod 8" for q
    using that by (metis div_mult_mod_eq unsigned_word_eqI)
  then show ?thesis
    using assms(2) inside unfolding digital_bitmap_def
    by (subst fold) (auto simp: inside)
qed

section \<open>The channel list\<close>

lemma shift_down:
  "fold (\<lambda>i ch. ch(i := ch (Suc i))) [k..<m] ch =
     (\<lambda>i. if k \<le> i \<and> i < m then ch (Suc i) else ch i)"
  by (induction m) (auto simp: fun_eq_iff)

lemma channel_index_SomeD:
  "stream_channel_index s pin = Some i \<Longrightarrow> i < unat (fw_n_channels s) \<and> fw_channels s i = pin"
  by (auto simp: stream_channel_index_def find_Some_iff)

lemma channel_index_None_iff:
  "stream_channel_index s pin = None \<longleftrightarrow> pin \<notin> set (stream_channels s)"
  by (auto simp: stream_channel_index_def find_None_iff stream_channels_def)

lemma remove1_nth:
  "distinct xs \<Longrightarrow> i < length xs \<Longrightarrow> remove1 (xs ! i) xs = take i xs @ drop (Suc i) xs"
proof (induction xs arbitrary: i)
  case Nil
  then show ?case by simp
next
  case (Cons x xs)
  then show ?case
    by (cases i) auto
qed

lemma stream_channels_remove:
  assumes idx: "stream_channel_index s pin = Some i" and dist: "distinct (stream_channels s)"
  shows "stream_channels (remove_channel i s) = remove1 pin (stream_channels s)"
proof -
  let ?n = "unat (fw_n_channels s)" and ?cs = "stream_channels s"
  have i: "i < ?n" "fw_channels s i = pin"
    using channel_index_SomeD [OF idx] by simp_all
  then have "fw_n_channels s \<noteq> 0"
    by auto
  then have n: "unat (fw_n_channels s - 1) = ?n - 1"
    by (rule unat_minus_one)
  have "stream_channels (remove_channel i s) =
      map (\<lambda>j. if i \<le> j \<and> j < ?n - 1 then fw_channels s (Suc j) else fw_channels s j) [0..<?n - 1]"
    by (simp add: stream_channels_def remove_channel_def n shift_down)
  also have "\<dots> = take i ?cs @ drop (Suc i) ?cs"
    using i(1) by (intro nth_equalityI) (auto simp: stream_channels_def nth_append)
  also have "\<dots> = remove1 (?cs ! i) ?cs"
    using i(1) dist by (intro remove1_nth [symmetric]) auto
  also have "?cs ! i = pin"
    using i by (simp add: stream_channels_def)
  finally show ?thesis .
qed

lemma stream_channels_add:
  assumes "unat (fw_n_channels s) < 8"
  shows "stream_channels (s\<lparr>fw_channels := (fw_channels s)(unat (fw_n_channels s) := pin),
    fw_n_channels := fw_n_channels s + 1\<rparr>) = stream_channels s @ [pin]"
proof -
  have "unat (fw_n_channels s + 1) = Suc (unat (fw_n_channels s))"
    using assms by (intro unat_succ_u8) simp
  then show ?thesis
    by (simp add: stream_channels_def)
qed

text \<open>The verdict of STREAM_SELECT, in the order of its checks.\<close>

definition select_error :: "u16 \<Rightarrow> u16 \<Rightarrow> fw \<Rightarrow> usbio_status option" where
  "select_error wValue wIndex s =
     (if fw_flags s AND USBIO_FLAG_STREAMING = 0 then Some USBIO_UNSUPPORTED
      else if fw_running s then Some USBIO_BUSY
      else if unat (fw_n_pins s) \<le> unat wIndex then Some USBIO_BAD_PIN
      else if fw_mode s (ucast wIndex) \<noteq> Some USBIO_MODE_ANALOG_IN
              \<and> \<not> mode_is_input (fw_mode s (ucast wIndex)) then Some USBIO_BAD_MODE
      else if 1 < unat wValue then Some USBIO_BAD_VALUE
      else if wValue = 1 \<and> ucast wIndex \<notin> set (stream_channels s)
              \<and> 8 \<le> length (stream_channels s) then Some USBIO_BAD_VALUE
      else None)"

lemma select_rejected:
  assumes "select_error wValue wIndex s = Some e"
  shows "handle_stream_select wValue wIndex s = stall e s"
proof -
  have "\<not> 1 < unat wValue \<Longrightarrow> wValue \<noteq> 0 \<Longrightarrow> wValue = 1"
    by (metis One_nat_def less_one linorder_less_linear unat_1 unat_eq_zero unsigned_word_eqI)
  with assms channel_index_None_iff [of s "ucast wIndex"] show ?thesis
    by (auto simp: select_error_def handle_stream_select_def Let_def word_le_nat_alt
        word_less_nat_alt split: if_splits option.split)
qed

lemma select_accepted:
  assumes ok: "select_error wValue wIndex s = None" and dist: "distinct (stream_channels s)"
  shows "fst (handle_stream_select wValue wIndex s)"
    and "stream_channels (snd (handle_stream_select wValue wIndex s)) =
      (if wValue = 0 then remove1 (ucast wIndex) (stream_channels s)
       else if ucast wIndex \<in> set (stream_channels s) then stream_channels s
       else stream_channels s @ [ucast wIndex])"
proof -
  let ?pin = "ucast wIndex :: u8"
  have guards: "fw_flags s AND USBIO_FLAG_STREAMING \<noteq> 0" "\<not> fw_running s"
    "\<not> ucast (fw_n_pins s) \<le> wIndex" "\<not> 1 < wValue"
    "fw_mode s ?pin = Some USBIO_MODE_ANALOG_IN \<or> mode_is_input (fw_mode s ?pin)"
    using ok by (auto simp: select_error_def word_le_nat_alt word_less_nat_alt split: if_splits)
  have v: "wValue \<noteq> 0 \<Longrightarrow> wValue = 1"
    using guards(4) by (metis antisym_conv3 less_one unat_1 unat_eq_0 word_less_nat_alt)
  have room: "wValue \<noteq> 0 \<Longrightarrow> ?pin \<notin> set (stream_channels s) \<Longrightarrow> unat (fw_n_channels s) < 8"
    using ok v by (auto simp: select_error_def split: if_splits)
  have full: "USBIO_MAX_STREAM_CHANNELS \<le> fw_n_channels s \<longleftrightarrow> \<not> unat (fw_n_channels s) < 8"
    by (simp add: word_le_nat_alt not_less)
  have absent: "stream_channel_index s ?pin = None \<Longrightarrow> remove1 ?pin (stream_channels s) = stream_channels s"
    by (simp add: channel_index_None_iff remove1_idem)
  show "fst (handle_stream_select wValue wIndex s)"
    and "stream_channels (snd (handle_stream_select wValue wIndex s)) =
      (if wValue = 0 then remove1 ?pin (stream_channels s)
       else if ?pin \<in> set (stream_channels s) then stream_channels s
       else stream_channels s @ [?pin])"
    using guards room full absent channel_index_None_iff [of s ?pin]
      stream_channels_add [of s ?pin] stream_channels_remove [OF _ dist, of ?pin]
    by (auto simp: handle_stream_select_def Let_def split: option.split)
qed

section \<open>Requests keep the stream's invariant\<close>

lemma stream_inv_error [simp]: "stream_inv b (s\<lparr>fw_last_error := e\<rparr>) = stream_inv b s"
  by (simp add: stream_inv_def stream_channels_def)

lemma stream_inv_channels:
  assumes "stream_inv b s"
    and "unat n \<le> 8" and "\<not> fw_running s" and "distinct (map ch [0..<unat n])"
    and "\<forall>p \<in> set (map ch [0..<unat n]). p < fw_n_pins s"
  shows "stream_inv b (s\<lparr>fw_channels := ch, fw_n_channels := n\<rparr>)"
  using assms by (simp add: stream_inv_def stream_channels_def)

lemma select_frame:
  "snd (handle_stream_select wValue wIndex s) =
     s\<lparr>fw_channels := fw_channels (snd (handle_stream_select wValue wIndex s)),
       fw_n_channels := fw_n_channels (snd (handle_stream_select wValue wIndex s)),
       fw_last_error := fw_last_error (snd (handle_stream_select wValue wIndex s))\<rparr>"
  by (simp add: handle_stream_select_def Let_def stall_def remove_channel_def split: option.split)

lemma select_inv:
  assumes inv: "stream_inv b s"
  shows "stream_inv b (snd (handle_stream_select wValue wIndex s))"
proof (cases "select_error wValue wIndex s")
  case (Some e)
  then show ?thesis
    using inv by (simp add: select_rejected stall_def)
next
  case None
  let ?s' = "snd (handle_stream_select wValue wIndex s)" and ?pin = "ucast wIndex :: u8"
  have dist: "distinct (stream_channels s)" and pins: "\<forall>p \<in> set (stream_channels s). p < fw_n_pins s"
    and len: "length (stream_channels s) \<le> 8"
    using inv by (simp_all add: stream_inv_def)
  have run: "\<not> fw_running s" and idx: "unat wIndex < unat (fw_n_pins s)"
    and room: "wValue = 1 \<Longrightarrow> ?pin \<notin> set (stream_channels s) \<Longrightarrow> length (stream_channels s) < 8"
    and v: "unat wValue \<le> 1"
    using None by (auto simp: select_error_def split: if_splits)
  have v1: "wValue \<noteq> 0 \<Longrightarrow> wValue = 1"
    using v by (metis One_nat_def le_Suc_eq le_zero_eq unat_1 unat_eq_zero unsigned_word_eqI)
  have pin: "?pin < fw_n_pins s"
    using idx unat_lt_u8 [of "fw_n_pins s"]
    by (simp add: word_less_nat_alt unat_ucast_u16_u8 order_less_trans [OF idx])
  have cs: "stream_channels ?s' =
      (if wValue = 0 then remove1 ?pin (stream_channels s)
       else if ?pin \<in> set (stream_channels s) then stream_channels s
       else stream_channels s @ [?pin])"
    by (rule select_accepted(2) [OF None dist])
  have "distinct (stream_channels ?s')" "\<forall>p \<in> set (stream_channels ?s'). p < fw_n_pins s"
    unfolding cs using dist pins pin by (auto dest: notin_set_remove1)
  moreover have "length (stream_channels ?s') \<le> 8"
    unfolding cs using len room v1 by (auto simp: length_remove1)
  moreover have "stream_inv b (s\<lparr>fw_channels := fw_channels ?s', fw_n_channels := fw_n_channels ?s'\<rparr>)"
    using calculation inv run by (intro stream_inv_channels) (simp_all add: stream_channels_def)
  ultimately show ?thesis
    by (subst select_frame) simp
qed

lemma start_inv:
  "stream_inv b s \<Longrightarrow> stream_inv b (snd (handle_stream_start wValue wIndex s))"
  by (simp add: handle_stream_start_def stall_def) (simp add: stream_inv_def stream_channels_def)

lemma stop_inv: "stream_inv b s \<Longrightarrow> stream_inv b (snd (handle_stream_stop s))"
  by (simp add: handle_stream_stop_def stall_def) (simp add: stream_inv_def stream_channels_def)

lemma no_channels_inv:
  "stream_inv b s \<Longrightarrow> stream_inv b (s\<lparr>fw_running := False, fw_n_channels := 0\<rparr>)"
  by (simp add: stream_inv_def stream_channels_def)

lemma disconnect_inv: "stream_inv b s \<Longrightarrow> stream_inv b (handle_usb_disconnected b s)"
  by (simp add: handle_usb_disconnected_def no_channels_inv)

end
