(* ===== verification/Requests.thy ===== *)
theory Requests
  imports Events Streaming
begin

text \<open>
  The interrupt side of \<open>src/src/UsbIo.cpp\<close>: \<open>handle_setup\<close> decodes one SETUP packet,
  \<open>handle_out\<close> validates and applies or queues a command, \<open>handle_in\<close> builds a reply from the
  shadow state.  A reply is the list of the bytes written to \<open>_reply\<close>, \<open>None\<close> a STALL.
\<close>

section \<open>OUT requests\<close>

text \<open>
  A value below \<open>USBIO_MODE_COUNT\<close> is the code of a mode (\<open>mode_of_None_iff\<close>), so the \<open>None\<close> case
  below is never taken.
\<close>

definition handle_pin_mode :: "board \<Rightarrow> u8 \<Rightarrow> u16 \<Rightarrow> fw \<Rightarrow> bool \<times> fw" where
  "handle_pin_mode b pin wValue s =
     (if USBIO_MODE_COUNT \<le> wValue then stall USBIO_BAD_VALUE s
      else case mode_of (ucast wValue) of
        None \<Rightarrow> stall USBIO_BAD_VALUE s
      | Some m \<Rightarrow>
          if \<not> mode_allowed b (fw_caps s pin) m then stall USBIO_UNSUPPORTED s
          else
            (let (queued, s1) = enqueue USBIO_REQ_PIN_MODE pin wValue s in
             if \<not> queued then stall USBIO_QUEUE_FULL s1
             else
               let s2 = s1\<lparr>fw_mode := (fw_mode s1)(pin := Some m)\<rparr>;
                   s3 = (if has_stream_transport b \<and> fw_running s2
                            \<and> stream_channel_index s2 pin \<noteq> None
                         then s2\<lparr>fw_running := False\<rparr> else s2)
               in (True,
                   if mode_is_input (Some m) then s3
                   else case event_watch_index s3 pin of
                          Some i \<Rightarrow> unwatch i s3
                        | None \<Rightarrow> s3)))"

text \<open>Queueing a write, the last step of DIO_WRITE, PWM_WRITE and DAC_WRITE.\<close>

definition enqueue_or_stall :: "usbio_request \<Rightarrow> u8 \<Rightarrow> u16 \<Rightarrow> fw \<Rightarrow> bool \<times> fw" where
  "enqueue_or_stall req pin val s =
     (let (queued, s1) = enqueue req pin val s in
      if queued then (True, s1) else stall USBIO_QUEUE_FULL s1)"

definition handle_pin_request :: "board \<Rightarrow> usbio_request \<Rightarrow> u8 \<Rightarrow> u16 \<Rightarrow> fw \<Rightarrow> bool \<times> fw" where
  "handle_pin_request b req pin wValue s =
     (case req of
        USBIO_REQ_PIN_MODE \<Rightarrow> handle_pin_mode b pin wValue s
      | USBIO_REQ_DIO_WRITE \<Rightarrow>
          if fw_mode s pin \<noteq> Some USBIO_MODE_OUTPUT then stall USBIO_BAD_MODE s
          else enqueue_or_stall req pin (if wValue \<noteq> 0 then 1 else 0) s
      | USBIO_REQ_PWM_WRITE \<Rightarrow>
          if fw_mode s pin \<noteq> Some USBIO_MODE_PWM then stall USBIO_BAD_MODE s
          else if full_scale (PwmBits b) < wValue then stall USBIO_BAD_VALUE s
          else enqueue_or_stall req pin wValue s
      | USBIO_REQ_DAC_WRITE \<Rightarrow>
          if fw_mode s pin \<noteq> Some USBIO_MODE_DAC then stall USBIO_BAD_MODE s
          else if full_scale (DacBits b) < wValue then stall USBIO_BAD_VALUE s
          else enqueue_or_stall req pin wValue s
      | USBIO_REQ_EVENT_CONFIG \<Rightarrow> handle_event_config pin wValue s
      | _ \<Rightarrow> stall USBIO_BAD_CMD s)"

text \<open>The requests the first \<open>switch\<close> of \<open>handle_out\<close> lets through to the pin check.\<close>

fun is_pin_request :: "usbio_request \<Rightarrow> bool" where
  "is_pin_request USBIO_REQ_PIN_MODE = True"
| "is_pin_request USBIO_REQ_DIO_WRITE = True"
| "is_pin_request USBIO_REQ_PWM_WRITE = True"
| "is_pin_request USBIO_REQ_DAC_WRITE = True"
| "is_pin_request USBIO_REQ_EVENT_CONFIG = True"
| "is_pin_request _ = False"

definition handle_out :: "board \<Rightarrow> u8 \<Rightarrow> u16 \<Rightarrow> u16 \<Rightarrow> u16 \<Rightarrow> fw \<Rightarrow> bool \<times> fw" where
  "handle_out b bRequest wValue wIndex wLength s =
     (if wLength \<noteq> 0 then stall USBIO_BAD_CMD s
      else case request_of bRequest of
        None \<Rightarrow> stall USBIO_BAD_CMD s
      | Some req \<Rightarrow>
         if req = USBIO_REQ_RESET then (True, request_reset b s)
         else if req = USBIO_REQ_STREAM_SELECT then
           (if has_stream_transport b then handle_stream_select wValue wIndex s
            else stall USBIO_UNSUPPORTED s)
         else if req = USBIO_REQ_STREAM_START then
           (if has_stream_transport b then handle_stream_start wValue wIndex s
            else stall USBIO_UNSUPPORTED s)
         else if req = USBIO_REQ_STREAM_STOP then
           (if has_stream_transport b then handle_stream_stop s
            else stall USBIO_UNSUPPORTED s)
         else if \<not> is_pin_request req then stall USBIO_BAD_CMD s
         else if ucast (fw_n_pins s) \<le> wIndex then stall USBIO_BAD_PIN s
         else handle_pin_request b req (ucast wIndex) wValue s)"

section \<open>IN requests\<close>

definition device_info :: "board \<Rightarrow> fw \<Rightarrow> usbio_info" where
  "device_info b s =
     \<lparr>info_protocol_version = USBIO_PROTOCOL_VERSION, info_board_id = BoardId b,
      info_n_pins = fw_n_pins s, info_n_ain = fw_n_ain s, info_adc_bits = AdcBits b,
      info_pwm_bits = PwmBits b, info_dac_bits = DacBits b,
      info_queue_depth = USBIO_QUEUE_DEPTH, info_vref_mv = VrefMv b, info_io_mv = IoMv b,
      info_flags = fw_flags s,
      info_stream_max_channels =
        (if fw_flags s AND USBIO_FLAG_STREAMING \<noteq> 0 then USBIO_MAX_STREAM_CHANNELS else 0),
      info_event_max_pins =
        (if fw_flags s AND USBIO_FLAG_EVENTS \<noteq> 0 then of_nat USBIO_MAX_EVENT_PINS else 0),
      info_stream_min_period_us =
        (if fw_flags s AND USBIO_FLAG_STREAMING \<noteq> 0 then USBIO_STREAM_MIN_PERIOD_US else 0)\<rparr>"

definition reply_info :: "board \<Rightarrow> fw \<Rightarrow> bytes" where
  "reply_info b s = info_bytes (device_info b s)"

definition reply_pin_caps :: "u16 \<Rightarrow> u16 \<Rightarrow> fw \<Rightarrow> bytes" where
  "reply_pin_caps wIndex wLength s =
     (if wIndex < ucast (fw_n_pins s)
      then let len = ucast (fw_n_pins s) - wIndex;
               len' = (if wLength < len then wLength else len)
           in map (\<lambda>i. fw_caps s (ucast wIndex + of_nat i)) [0..<unat len']
      else [])"

definition reply_dio_read :: "u16 \<Rightarrow> fw \<Rightarrow> bytes" where
  "reply_dio_read wIndex s =
     (if ucast (fw_n_pins s) \<le> wIndex then dio_reply_bytes USBIO_BAD_PIN 0
      else if \<not> mode_is_digital (fw_mode s (ucast wIndex)) then dio_reply_bytes USBIO_BAD_MODE 0
      else if busy s then dio_reply_bytes USBIO_BUSY 0
      else dio_reply_bytes USBIO_OK (fw_dio s (ucast wIndex)))"

definition reply_ai_read :: "u16 \<Rightarrow> fw \<Rightarrow> bytes" where
  "reply_ai_read wIndex s =
     (if ucast (fw_n_pins s) \<le> wIndex then ai_reply_bytes USBIO_BAD_PIN 0
      else if fw_mode s (ucast wIndex) \<noteq> Some USBIO_MODE_ANALOG_IN
      then ai_reply_bytes USBIO_BAD_MODE 0
      else if busy s then ai_reply_bytes USBIO_BUSY 0
      else ai_reply_bytes USBIO_OK (fw_ain s (ucast wIndex)))"

definition reply_dio_read_all :: "fw \<Rightarrow> bytes" where
  "reply_dio_read_all s =
     all_header_bytes (if busy s then USBIO_BUSY else USBIO_OK) @ digital_bitmap s"

text \<open>The half-words of the analog pins in ascending order; a pin not in ANALOG_IN reads 0.\<close>

definition ain_pins :: "fw \<Rightarrow> u8 list" where
  "ain_pins s = filter (\<lambda>p. fw_caps s p AND USBIO_CAP_AIN \<noteq> 0) (pins_below (fw_n_pins s))"

definition ain_value :: "fw \<Rightarrow> u8 \<Rightarrow> u16" where
  "ain_value s p = (if fw_mode s p = Some USBIO_MODE_ANALOG_IN then fw_ain s p else 0)"

definition reply_ai_read_all :: "fw \<Rightarrow> bytes" where
  "reply_ai_read_all s =
     all_header_bytes (if busy s then USBIO_BUSY else USBIO_OK)
     @ concat (map (\<lambda>p. put_u16 (ain_value s p)) (ain_pins s))"

definition reply_stream_status :: "fw \<Rightarrow> bytes" where
  "reply_stream_status s = stream_status_bytes
     \<lparr>ss_status = status_code USBIO_OK, ss_running = (if fw_running s then 1 else 0),
      ss_n_channels = fw_n_channels s, ss_flags = fw_stream_flags s,
      ss_period_us = fw_period_us s, ss_seq = (if fw_seq s = 0 then 0 else fw_seq s - 1),
      ss_overruns = fw_overruns s\<rparr>"

text \<open>The \<open>switch\<close> of \<open>handle_in\<close>, before its clamp to \<open>wLength\<close>.\<close>

definition in_reply ::
  "board \<Rightarrow> 'h arduino \<Rightarrow> usbio_request \<Rightarrow> u16 \<Rightarrow> u16 \<Rightarrow> fw \<Rightarrow> 'h \<Rightarrow> bytes option \<times> fw \<times> 'h"
where
  "in_reply b A req wIndex wLength s h =
     (case req of
        USBIO_REQ_GET_INFO \<Rightarrow> (Some (reply_info b s), s, h)
      | USBIO_REQ_GET_PIN_CAPS \<Rightarrow> (Some (reply_pin_caps wIndex wLength s), s, h)
      | USBIO_REQ_GET_STATUS \<Rightarrow>
          (Some (status_reply_bytes (queue_pending s) (fw_last_error s)),
           s\<lparr>fw_last_error := USBIO_OK\<rparr>, h)
      | USBIO_REQ_GET_TIME \<Rightarrow>
          (let (ms, h1) = millis A h; (us, h2) = micros A h1
           in (Some (time_reply_bytes ms us), s, h2))
      | USBIO_REQ_DIO_READ \<Rightarrow> (Some (reply_dio_read wIndex s), s, h)
      | USBIO_REQ_AI_READ \<Rightarrow> (Some (reply_ai_read wIndex s), s, h)
      | USBIO_REQ_DIO_READ_ALL \<Rightarrow> (Some (reply_dio_read_all s), s, h)
      | USBIO_REQ_AI_READ_ALL \<Rightarrow> (Some (reply_ai_read_all s), s, h)
      | USBIO_REQ_STREAM_STATUS \<Rightarrow>
          if has_stream_transport b \<and> fw_flags s AND USBIO_FLAG_STREAMING \<noteq> 0
          then (Some (reply_stream_status s), s, h)
          else (None, snd (stall USBIO_UNSUPPORTED s), h)
      | USBIO_REQ_EVENT_POP \<Rightarrow>
          (let (reply, s1) = reply_event_pop wIndex s in (Some reply, s1, h))
      | USBIO_REQ_EVENT_COUNTS \<Rightarrow> (Some (reply_event_counts s), s, h)
      | _ \<Rightarrow> (None, snd (stall USBIO_BAD_CMD s), h))"

definition handle_in ::
  "board \<Rightarrow> 'h arduino \<Rightarrow> u8 \<Rightarrow> u16 \<Rightarrow> u16 \<Rightarrow> fw \<Rightarrow> 'h \<Rightarrow> bytes option \<times> fw \<times> 'h"
where
  "handle_in b A bRequest wIndex wLength s h =
     (case request_of bRequest of
        None \<Rightarrow> (None, snd (stall USBIO_BAD_CMD s), h)
      | Some req \<Rightarrow>
         (let (reply, s1, h1) = in_reply b A req wIndex wLength s h
          in (map_option (take (unat wLength)) reply, s1, h1)))"

section \<open>SETUP packets\<close>

record setup_packet =
  bmRequestType :: u8
  bRequest :: u8
  wValue :: u16
  wIndex :: u16
  wLength :: u16

definition handle_setup ::
  "board \<Rightarrow> 'h arduino \<Rightarrow> setup_packet \<Rightarrow> fw \<Rightarrow> 'h \<Rightarrow> bytes option \<times> fw \<times> 'h"
where
  "handle_setup b A p s h =
     (if bmRequestType p AND 0x60 \<noteq> 0x40 then (None, s, h)
      else
        let recipient = bmRequestType p AND 0x1F;
            dispatch = (\<lambda>index.
              if bmRequestType p AND 0x80 \<noteq> 0
              then handle_in b A (bRequest p) index (wLength p) s h
              else let (ok, s1) = handle_out b (bRequest p) (wValue p) index (wLength p) s
                   in (if ok then Some [] else None, s1, h))
        in if recipient = 0 then dispatch (wIndex p)
           else if recipient = 1 then
             (if fw_flags s AND USBIO_FLAG_VENDOR_INTERFACE = 0
              then (None, snd (stall USBIO_UNSUPPORTED s), h)
              else dispatch (drop_bit 8 (wIndex p)))
           else (None, snd (stall USBIO_BAD_CMD s), h))"

section \<open>The verdict of an OUT request\<close>

text \<open>
  The specification: each request has an ordered list of refusals, and the verdict is the first
  one that applies.  \<open>handle_out_spec\<close> shows that \<open>handle_out\<close> follows it, and that a refused
  request changes nothing but the last-error register GET_STATUS reports.
\<close>

definition first_error :: "(bool \<times> usbio_status) list \<Rightarrow> usbio_status option" where
  "first_error checks = map_option snd (find fst checks)"

lemma first_error_simps [simp]:
  "first_error [] = None"
  "first_error ((c, e) # checks) = (if c then Some e else first_error checks)"
  by (simp_all add: first_error_def)

definition queue_refusal :: "fw \<Rightarrow> bool \<times> usbio_status" where
  "queue_refusal s = (32 \<le> length (commands s), USBIO_QUEUE_FULL)"

definition streaming_refusal :: "board \<Rightarrow> fw \<Rightarrow> bool \<times> usbio_status" where
  "streaming_refusal b s =
     (\<not> has_stream_transport b \<or> fw_flags s AND USBIO_FLAG_STREAMING = 0, USBIO_UNSUPPORTED)"

definition range_refusal :: "u16 \<Rightarrow> fw \<Rightarrow> bool \<times> usbio_status" where
  "range_refusal i s = (unat (fw_n_pins s) \<le> unat i, USBIO_BAD_PIN)"

fun refusals :: "board \<Rightarrow> usbio_request \<Rightarrow> u16 \<Rightarrow> u16 \<Rightarrow> fw \<Rightarrow> (bool \<times> usbio_status) list" where
  "refusals b USBIO_REQ_RESET v i s = []"
| "refusals b USBIO_REQ_PIN_MODE v i s =
     [range_refusal i s,
      (7 \<le> unat v, USBIO_BAD_VALUE),
      (\<not> mode_allowed b (fw_caps s (ucast i)) (the (mode_of (ucast v))), USBIO_UNSUPPORTED),
      queue_refusal s]"
| "refusals b USBIO_REQ_DIO_WRITE v i s =
     [range_refusal i s,
      (fw_mode s (ucast i) \<noteq> Some USBIO_MODE_OUTPUT, USBIO_BAD_MODE),
      queue_refusal s]"
| "refusals b USBIO_REQ_PWM_WRITE v i s =
     [range_refusal i s,
      (fw_mode s (ucast i) \<noteq> Some USBIO_MODE_PWM, USBIO_BAD_MODE),
      (full_scale (PwmBits b) < v, USBIO_BAD_VALUE),
      queue_refusal s]"
| "refusals b USBIO_REQ_DAC_WRITE v i s =
     [range_refusal i s,
      (fw_mode s (ucast i) \<noteq> Some USBIO_MODE_DAC, USBIO_BAD_MODE),
      (full_scale (DacBits b) < v, USBIO_BAD_VALUE),
      queue_refusal s]"
| "refusals b USBIO_REQ_EVENT_CONFIG v i s =
     (let pin = ucast i; edge = ucast (v AND 0xFF) :: u8; arm = (edge \<noteq> 0) in
      [range_refusal i s,
       (arm \<and> (fw_caps s pin AND USBIO_CAP_DIO = 0 \<or> \<not> mode_is_input (fw_mode s pin)), USBIO_BAD_MODE),
       (arm \<and> 4 \<le> unat edge, USBIO_BAD_VALUE),
       (arm \<and> watching s pin = None \<and> 8 \<le> unat (fw_n_watched s), USBIO_BAD_VALUE)])"
| "refusals b USBIO_REQ_STREAM_SELECT v i s =
     [streaming_refusal b s,
      (fw_running s, USBIO_BUSY),
      range_refusal i s,
      (fw_mode s (ucast i) \<noteq> Some USBIO_MODE_ANALOG_IN \<and> \<not> mode_is_input (fw_mode s (ucast i)),
       USBIO_BAD_MODE),
      (1 < unat v, USBIO_BAD_VALUE),
      (v = 1 \<and> ucast i \<notin> set (stream_channels s) \<and> 8 \<le> length (stream_channels s), USBIO_BAD_VALUE)]"
| "refusals b USBIO_REQ_STREAM_START v i s =
     [streaming_refusal b s,
      (fw_running s, USBIO_BUSY),
      (stream_channels s = [], USBIO_BAD_VALUE),
      (3 < unat i, USBIO_BAD_VALUE)]"
| "refusals b USBIO_REQ_STREAM_STOP v i s = [streaming_refusal b s]"
| "refusals b _ v i s = [(True, USBIO_BAD_CMD)]"

definition out_error :: "board \<Rightarrow> u8 \<Rightarrow> u16 \<Rightarrow> u16 \<Rightarrow> u16 \<Rightarrow> fw \<Rightarrow> usbio_status option" where
  "out_error b code v i len s =
     (case request_of code of
        None \<Rightarrow> Some USBIO_BAD_CMD
      | Some req \<Rightarrow> first_error ((len \<noteq> 0, USBIO_BAD_CMD) # refusals b req v i s))"

lemma enqueue_full [simp]:
  "32 \<le> length (commands s) \<Longrightarrow> enqueue req pin v s = (False, s)"
  using enqueue_iff [of req pin v s] by (auto simp: enqueue_def split: if_splits)

lemma enqueue_room [simp]:
  "\<not> 32 \<le> length (commands s) \<Longrightarrow> fst (enqueue req pin v s)"
  using enqueue_iff [of req pin v s] by simp

lemma above_flags: "i AND NOT 3 \<noteq> (0 :: u16) \<longleftrightarrow> 3 < unat i"
proof -
  have "i AND NOT 3 = 0 \<longleftrightarrow> i = take_bit 2 i"
    by (simp add: take_bit_eq_mask mask_eq_exp_minus_1 bit_eq_iff bit_simps) blast
  also have "\<dots> \<longleftrightarrow> unat i < 4"
    using take_bit_nat_eq_self_iff [of 2 "unat i"]
    by (simp add: word_unat_eq_iff unsigned_take_bit_eq eq_commute)
  finally show ?thesis
    by auto
qed

lemma enqueue_or_stall_verdict:
  "fst (enqueue_or_stall req pin v s) \<longleftrightarrow> \<not> 32 \<le> length (commands s)"
  "32 \<le> length (commands s) \<Longrightarrow> enqueue_or_stall req pin v s = stall USBIO_QUEUE_FULL s"
proof -
  obtain q s1 where e: "enqueue req pin v s = (q, s1)"
    by fastforce
  show "fst (enqueue_or_stall req pin v s) \<longleftrightarrow> \<not> 32 \<le> length (commands s)"
    "32 \<le> length (commands s) \<Longrightarrow> enqueue_or_stall req pin v s = stall USBIO_QUEUE_FULL s"
    using enqueue_room [of s req pin v] enqueue_full [of s req pin v]
    by (auto simp: enqueue_or_stall_def stall_def e)
qed

lemma mode_of_value:
  "\<not> 7 \<le> unat (v :: u16) \<Longrightarrow> mode_of (ucast v) = Some (the (mode_of (ucast v)))"
proof -
  assume "\<not> 7 \<le> unat v"
  then have "\<not> 7 \<le> (ucast v :: u8)"
    by (simp add: word_le_nat_alt unat_ucast_u16_u8)
  then show ?thesis
    using mode_of_None_iff [of "ucast v"] by auto
qed

lemma mode_count_iff: "USBIO_MODE_COUNT \<le> v \<longleftrightarrow> 7 \<le> unat v"
  by (simp add: USBIO_MODE_COUNT_def word_le_nat_alt)

text \<open>The outcome \<open>r\<close> of a handler follows a list of refusals.\<close>

definition follows :: "(bool \<times> usbio_status) list \<Rightarrow> bool \<times> fw \<Rightarrow> fw \<Rightarrow> bool" where
  "follows checks r s =
     (case first_error checks of None \<Rightarrow> fst r | Some e \<Rightarrow> r = (False, s\<lparr>fw_last_error := e\<rparr>))"

lemma follows_simps [simp]:
  "follows [] r s = fst r"
  "follows ((c, e) # checks) r s = (if c then r = stall e s else follows checks r s)"
  by (simp_all add: follows_def stall_def)

lemma pin_mode_split:
  assumes "\<not> 7 \<le> unat v"
  shows "handle_pin_mode b pin v s =
    (if \<not> mode_allowed b (fw_caps s pin) (the (mode_of (ucast v))) then stall USBIO_UNSUPPORTED s
     else if 32 \<le> length (commands s) then stall USBIO_QUEUE_FULL s
     else (True, snd (handle_pin_mode b pin v s)))"
proof -
  obtain m where m: "mode_of (ucast v) = Some m"
    using mode_of_value [OF assms] by simp
  obtain q s1 where e: "enqueue USBIO_REQ_PIN_MODE pin v s = (q, s1)"
    by fastforce
  show ?thesis
    using assms enqueue_full [of s USBIO_REQ_PIN_MODE pin v] enqueue_room [of s USBIO_REQ_PIN_MODE pin v]
    by (simp add: handle_pin_mode_def m mode_count_iff e Let_def)
qed

lemma pin_mode_verdict:
  "follows (tl (refusals b USBIO_REQ_PIN_MODE v i s)) (handle_pin_mode b (ucast i) v s) s"
proof (cases "7 \<le> unat v")
  case True
  then show ?thesis
    by (simp add: handle_pin_mode_def mode_count_iff)
next
  case False
  show ?thesis
    using False by (subst pin_mode_split [OF False]) (simp add: queue_refusal_def)
qed

lemma event_config_verdict:
  "follows (tl (refusals b USBIO_REQ_EVENT_CONFIG v i s)) (handle_event_config (ucast i) v s) s"
proof (cases "edge_code USBIO_EDGE_OFF = ucast (v AND 0xFF)")
  case True
  then show ?thesis
    by (simp add: event_off_eq Let_def)
next
  case False
  then show ?thesis
    by (simp add: event_arm_eq arm_event_eq armable_def Let_def watching_None_iff
        word_less_nat_alt USBIO_EDGE_COUNT_def not_less)
qed

lemma stream_start_verdict:
  "has_stream_transport b \<Longrightarrow>
   follows (refusals b USBIO_REQ_STREAM_START v i s) (handle_stream_start v i s) s"
proof -
  have "stream_channels s = [] \<longleftrightarrow> fw_n_channels s = 0"
    by (metis length_0_conv length_stream_channels unat_eq_zero)
  moreover have "\<not> (v \<noteq> 0 \<and> v < 1)"
    by (simp add: word_less_1)
  moreover have "i AND NOT (USBIO_STREAM_FLAG_DIGITAL OR USBIO_STREAM_FLAG_STOP_ON_OVERRUN) \<noteq> 0
      \<longleftrightarrow> 3 < unat i"
    using above_flags [of i] by simp
  ultimately show "has_stream_transport b \<Longrightarrow> ?thesis"
    unfolding handle_stream_start_def by (simp add: streaming_refusal_def)
qed

lemma stream_select_verdict:
  "has_stream_transport b \<Longrightarrow> distinct (stream_channels s) \<Longrightarrow>
   follows (refusals b USBIO_REQ_STREAM_SELECT v i s) (handle_stream_select v i s) s"
proof -
  assume b: "has_stream_transport b" and dist: "distinct (stream_channels s)"
  have "first_error (refusals b USBIO_REQ_STREAM_SELECT v i s) = select_error v i s"
    using b by (simp add: select_error_def streaming_refusal_def range_refusal_def)
  then show ?thesis
    using select_accepted(1) [OF _ dist, of v i] select_rejected [of v i s]
    by (simp add: follows_def stall_def split: option.split)
qed

lemma follows_tl:
  "follows (tl (refusals b req v i s)) r s \<Longrightarrow> refusals b req v i s \<noteq> [] \<Longrightarrow>
   hd (refusals b req v i s) = range_refusal i s \<Longrightarrow>
   follows (refusals b req v i s) (if unat (fw_n_pins s) \<le> unat i then stall USBIO_BAD_PIN s else r) s"
  by (cases "refusals b req v i s") (auto simp: range_refusal_def)

lemma write_verdict:
  "follows [(c, e), (d, e'), queue_refusal s]
     (if c then stall e s else if d then stall e' s else enqueue_or_stall req pin v s) s"
  "follows [(c, e), queue_refusal s] (if c then stall e s else enqueue_or_stall req pin v s) s"
  by (simp_all add: queue_refusal_def enqueue_or_stall_verdict)

lemma pin_request_verdict:
  assumes "is_pin_request req"
  shows "follows (refusals b req v i s)
    (if unat (fw_n_pins s) \<le> unat i then stall USBIO_BAD_PIN s
     else handle_pin_request b req (ucast i) v s) s"
proof (rule follows_tl)
  show "follows (tl (refusals b req v i s)) (handle_pin_request b req (ucast i) v s) s"
  proof (cases req)
    case USBIO_REQ_PIN_MODE
    then show ?thesis
      by (simp only: handle_pin_request_def pin_mode_verdict usbio_request.case)
  next
    case USBIO_REQ_EVENT_CONFIG
    then show ?thesis
      by (simp only: handle_pin_request_def event_config_verdict usbio_request.case)
  next
    case USBIO_REQ_DIO_WRITE
    then show ?thesis
      by (simp add: handle_pin_request_def write_verdict del: follows_simps)
  next
    case USBIO_REQ_PWM_WRITE
    then show ?thesis
      by (simp add: handle_pin_request_def write_verdict del: follows_simps)
  next
    case USBIO_REQ_DAC_WRITE
    then show ?thesis
      by (simp add: handle_pin_request_def write_verdict del: follows_simps)
  qed (use assms in simp_all)
qed (use assms in \<open>cases req; simp add: Let_def\<close>)+

lemma handle_out_verdict:
  assumes code: "request_of code = Some req" and dist: "distinct (stream_channels s)"
  shows "follows (refusals b req v i s) (handle_out b code v i 0 s) s"
proof (cases "is_pin_request req")
  case True
  have "handle_out b code v i 0 s =
      (if unat (fw_n_pins s) \<le> unat i then stall USBIO_BAD_PIN s
       else handle_pin_request b req (ucast i) v s)"
    using True by (cases req) (simp_all add: handle_out_def code word_le_nat_alt)
  then show ?thesis
    by (simp only: pin_request_verdict [OF True])
next
  case False
  show ?thesis
  proof (cases req)
    case USBIO_REQ_STREAM_START
    then show ?thesis
      using stream_start_verdict [of b v i s]
      by (cases "has_stream_transport b") (simp add: handle_out_def code,
        simp add: handle_out_def code streaming_refusal_def)
  next
    case USBIO_REQ_STREAM_SELECT
    then show ?thesis
      using stream_select_verdict [OF _ dist, of b v i]
      by (cases "has_stream_transport b") (simp add: handle_out_def code,
        simp add: handle_out_def code streaming_refusal_def)
  next
    case USBIO_REQ_STREAM_STOP
    then show ?thesis
      by (simp add: handle_out_def code handle_stream_stop_def streaming_refusal_def)
  qed (use False in \<open>simp_all add: handle_out_def code\<close>)
qed

lemma handle_out_spec:
  assumes "distinct (stream_channels s)"
  shows "case out_error b code v i len s of
      None \<Rightarrow> fst (handle_out b code v i len s)
    | Some e \<Rightarrow> handle_out b code v i len s = (False, s\<lparr>fw_last_error := e\<rparr>)"
proof (cases "request_of code")
  case None
  then show ?thesis
    by (simp add: out_error_def handle_out_def stall_def)
next
  case (Some req)
  show ?thesis
  proof (cases "len = 0")
    case True
    show ?thesis
      unfolding True using handle_out_verdict [OF Some assms, of b v i]
      by (simp add: out_error_def Some follows_def)
  next
    case False
    then show ?thesis
      by (simp add: out_error_def handle_out_def stall_def Some)
  qed
qed

section \<open>IN replies\<close>

lemma length_reply_pin_caps:
  "length (reply_pin_caps i len s) = min (unat len) (unat (fw_n_pins s) - unat i)"
proof (cases "unat i < unat (fw_n_pins s)")
  case True
  then have "unat (ucast (fw_n_pins s) - i) = unat (fw_n_pins s) - unat i"
    by (subst unat_sub) (simp_all add: word_le_nat_alt)
  with True show ?thesis
    by (simp add: reply_pin_caps_def word_less_nat_alt min_def)
next
  case False
  then show ?thesis
    by (simp add: reply_pin_caps_def word_less_nat_alt)
qed

lemma length_concat_const:
  "(\<And>x. x \<in> set xs \<Longrightarrow> length (f x) = k) \<Longrightarrow> length (concat (map f xs)) = k * length xs"
  by (induction xs) simp_all

lemma length_reply_event_pop:
  "length (fst (reply_event_pop i s)) = 4 + 8 * length (popped i s)"
  by (simp add: event_pop_reply length_concat_const [where k = 8])

lemma length_count_order: "length (count_order s) = length (active_slots s)"
  by (metis count_order_def mset_insertion_sort size_mset)

lemma length_active_slots: "length (active_slots s) \<le> 8"
  using length_filter_le [of "\<lambda>i. w_active (fw_watch s i)" "[0..<8]"]
  by (simp add: active_slots_def)

lemma length_reply_event_counts:
  "length (reply_event_counts s) = 4 + 4 * length (active_slots s)"
  by (simp add: reply_event_counts_eq length_concat_const [where k = 4] length_count_order)

text \<open>What the reply buffer of 128 bytes must hold: the limits \<open>begin()\<close> establishes.\<close>

definition pins_inv :: "fw \<Rightarrow> bool" where
  "pins_inv s \<longleftrightarrow> unat (fw_n_pins s) \<le> USBIO_MAX_PINS \<and> unat (fw_n_ain s) \<le> USBIO_MAX_AIN \<and>
     unat (fw_n_ain s) = length (ain_pins s)"

lemma in_reply_length:
  assumes "pins_inv s" and "in_reply b A req i len s h = (Some reply, s', h')"
  shows "length reply \<le> USBIO_MAX_REPLY_LEN"
proof -
  have pins: "unat (fw_n_pins s) \<le> 128" and ain: "length (ain_pins s) \<le> 32"
    using assms(1) by (simp_all add: pins_inv_def)
  have "bitmap_len (fw_n_pins s) \<le> 16"
    using pins by (simp add: bitmap_len_def)
  moreover have "length (popped i s) \<le> 7"
    using pop_cap_bounds [of i] by (simp add: popped_def min_le_iff_disj)
  moreover have "length (concat (map (\<lambda>p. put_u16 (ain_value s p)) (ain_pins s))) = 2 * length (ain_pins s)"
    by (rule length_concat_const) simp
  ultimately show ?thesis
    using assms(2) pins ain length_reply_event_pop [of i s] length_active_slots [of s]
    by (cases req) (auto simp: in_reply_def reply_info_def length_reply_pin_caps reply_dio_read_def
        reply_ai_read_def reply_dio_read_all_def reply_ai_read_all_def reply_stream_status_def
        length_reply_event_counts split: prod.splits if_splits)
qed

text \<open>The IN requests that stall: unknown ones and STREAM_STATUS without a stream.\<close>

definition in_error :: "board \<Rightarrow> u8 \<Rightarrow> fw \<Rightarrow> usbio_status option" where
  "in_error b code s =
     (case request_of code of
        Some USBIO_REQ_STREAM_STATUS \<Rightarrow> first_error [streaming_refusal b s]
      | Some req \<Rightarrow>
          if req \<in> {USBIO_REQ_GET_INFO, USBIO_REQ_GET_PIN_CAPS, USBIO_REQ_GET_STATUS,
            USBIO_REQ_GET_TIME, USBIO_REQ_DIO_READ, USBIO_REQ_AI_READ, USBIO_REQ_DIO_READ_ALL,
            USBIO_REQ_AI_READ_ALL, USBIO_REQ_EVENT_POP, USBIO_REQ_EVENT_COUNTS}
          then None else Some USBIO_BAD_CMD
      | None \<Rightarrow> Some USBIO_BAD_CMD)"

lemma handle_in_verdict:
  assumes "handle_in b A code i len s h = (reply, s', h')"
  shows "case in_error b code s of
      None \<Rightarrow> \<exists>bytes. reply = Some bytes
    | Some e \<Rightarrow> reply = None \<and> s' = s\<lparr>fw_last_error := e\<rparr> \<and> h' = h"
proof (cases "request_of code")
  case None
  then show ?thesis
    using assms by (simp add: in_error_def handle_in_def stall_def)
next
  case (Some req)
  then show ?thesis
    using assms
    by (cases req) (auto simp: in_error_def handle_in_def in_reply_def stall_def
        streaming_refusal_def split: prod.splits if_splits)
qed

lemma handle_in_length:
  assumes "pins_inv s" and "handle_in b A code i len s h = (Some reply, s', h')"
  shows "length reply \<le> unat len \<and> length reply \<le> USBIO_MAX_REPLY_LEN"
proof (cases "request_of code")
  case None
  then show ?thesis
    using assms(2) by (simp add: handle_in_def stall_def)
next
  case (Some req)
  obtain r s1 h1 where r: "in_reply b A req i len s h = (r, s1, h1)"
    by (metis prod.exhaust)
  then obtain full where "r = Some full" "reply = take (unat len) full"
    using assms(2) Some by (auto simp: handle_in_def)
  then show ?thesis
    using in_reply_length [OF assms(1)] r by (fastforce simp: min_le_iff_disj)
qed

text \<open>Only GET_STATUS and EVENT_POP read destructively.\<close>

lemma in_reply_state:
  assumes "in_reply b A req i len s h = (reply, s', h')"
  shows "s' = (case req of
      USBIO_REQ_GET_STATUS \<Rightarrow> s\<lparr>fw_last_error := USBIO_OK\<rparr>
    | USBIO_REQ_EVENT_POP \<Rightarrow> snd (reply_event_pop i s)
    | _ \<Rightarrow> (case reply of Some _ \<Rightarrow> s | None \<Rightarrow> s\<lparr>fw_last_error := fw_last_error s'\<rparr>))"
  using assms
  by (cases req) (auto simp: in_reply_def stall_def split: prod.splits if_splits)

end
