(* ===== verification/Loop.thy ===== *)
theory Loop
  imports Requests
begin

text \<open>
  The \<open>loop()\<close> side of \<open>src/src/UsbIo.cpp\<close>: \<open>poll\<close> applies pending resets, executes the queued
  commands of the current epoch, refreshes the shadow state, scans for edges and serves the
  stream.  Here \<open>poll\<close> runs without a SETUP packet arriving in its middle; \<open>Interleaving\<close> lets one.
\<close>

definition apply_mode :: "board \<Rightarrow> 'h arduino \<Rightarrow> u8 \<Rightarrow> usbio_pin_mode \<Rightarrow> fw \<Rightarrow> 'h \<Rightarrow> fw \<times> 'h" where
  "apply_mode b A pin m s h =
     (let configure = (\<lambda>dir.
            let (level, h1) = read_pin A pin (pinMode A pin dir h)
            in (s\<lparr>fw_dio := (fw_dio s)(pin := level)\<rparr>, h1))
      in case m of
        USBIO_MODE_INPUT \<Rightarrow> configure INPUT
      | USBIO_MODE_OUTPUT \<Rightarrow> configure OUTPUT
      | USBIO_MODE_INPUT_PULLUP \<Rightarrow> configure INPUT_PULLUP
      | USBIO_MODE_INPUT_PULLDOWN \<Rightarrow> configure (if HasPulldown b then INPUT_PULLDOWN else INPUT)
      | USBIO_MODE_ANALOG_IN \<Rightarrow>
          (let (v, h1) = read_analog A pin h in (s\<lparr>fw_ain := (fw_ain s)(pin := v)\<rparr>, h1))
      | USBIO_MODE_PWM \<Rightarrow> (s, analogWrite A pin 0 h)
      | USBIO_MODE_DAC \<Rightarrow> (s, analogWrite A pin 0 h))"

definition execute :: "board \<Rightarrow> 'h arduino \<Rightarrow> command \<Rightarrow> fw \<Rightarrow> 'h \<Rightarrow> fw \<times> 'h" where
  "execute b A c s h =
     (case cmd_request c of
        USBIO_REQ_PIN_MODE \<Rightarrow>
          (case mode_of (ucast (cmd_value c)) of
             Some m \<Rightarrow> apply_mode b A (cmd_pin c) m s h
           | None \<Rightarrow> (s, h))
      | USBIO_REQ_DIO_WRITE \<Rightarrow>
          (s\<lparr>fw_dio := (fw_dio s)(cmd_pin c := (if cmd_value c \<noteq> 0 then 1 else 0))\<rparr>,
           digitalWrite A (cmd_pin c) (cmd_value c \<noteq> 0) h)
      | USBIO_REQ_PWM_WRITE \<Rightarrow> (s, analogWrite A (cmd_pin c) (unat (cmd_value c)) h)
      | USBIO_REQ_DAC_WRITE \<Rightarrow>
          (s, analogWrite A (cmd_pin c)
                (unat (cmd_value c) * 2 ^ (unat (PwmBits b) - unat (DacBits b))) h)
      | _ \<Rightarrow> (s, h))"

definition reset_pin :: "'h arduino \<Rightarrow> u8 \<Rightarrow> fw \<times> 'h \<Rightarrow> fw \<times> 'h" where
  "reset_pin A p = (\<lambda>(s, h).
     let (level, h1) =
           (if fw_caps s p AND USBIO_CAP_DIO \<noteq> 0 then read_pin A p (pinMode A p INPUT h)
            else (0, h))
     in (s\<lparr>fw_dio := (fw_dio s)(p := level), fw_ain := (fw_ain s)(p := 0)\<rparr>, h1))"

definition apply_reset :: "'h arduino \<Rightarrow> fw \<Rightarrow> 'h \<Rightarrow> fw \<times> 'h" where
  "apply_reset A s h =
     (let (s1, h1) = fold (reset_pin A) (pins_below (fw_n_pins s)) (s, h)
      in (s1\<lparr>fw_ain_cursor := 0\<rparr>, h1))"

definition refresh_pin :: "'h arduino \<Rightarrow> u8 \<Rightarrow> fw \<times> 'h \<Rightarrow> fw \<times> 'h" where
  "refresh_pin A p = (\<lambda>(s, h).
     if mode_is_input (fw_mode s p)
     then let (level, h1) = read_pin A p h in (s\<lparr>fw_dio := (fw_dio s)(p := level)\<rparr>, h1)
     else (s, h))"

text \<open>The round-robin loop: at most \<open>k\<close> pins are visited, and it stops at the first analog one.\<close>

fun sample_next_analog :: "'h arduino \<Rightarrow> nat \<Rightarrow> fw \<Rightarrow> 'h \<Rightarrow> fw \<times> 'h" where
  "sample_next_analog A 0 s h = (s, h)"
| "sample_next_analog A (Suc k) s h =
     (let p = fw_ain_cursor s;
          s1 = s\<lparr>fw_ain_cursor := (fw_ain_cursor s + 1) mod fw_n_pins s\<rparr>
      in if fw_mode s1 p = Some USBIO_MODE_ANALOG_IN
         then let (v, h1) = read_analog A p h in (s1\<lparr>fw_ain := (fw_ain s1)(p := v)\<rparr>, h1)
         else sample_next_analog A k s1 h)"

definition refresh_shadow :: "'h arduino \<Rightarrow> fw \<Rightarrow> 'h \<Rightarrow> fw \<times> 'h" where
  "refresh_shadow A s h =
     (if fw_n_pins s = 0 then (s, h)
      else let (s1, h1) = fold (refresh_pin A) (pins_below (fw_n_pins s)) (s, h)
           in sample_next_analog A (unat (fw_n_pins s1)) s1 h1)"

section \<open>What the loop-side steps leave alone\<close>

text \<open>
  Configuring, executing and refreshing touch the shadow values, the cursor of the analog
  round robin and the outside world only.
\<close>

definition shadow_change :: "fw \<Rightarrow> fw \<Rightarrow> bool" where
  "shadow_change s s' \<longleftrightarrow>
     s'\<lparr>fw_dio := fw_dio s, fw_ain := fw_ain s, fw_ain_cursor := fw_ain_cursor s\<rparr> = s"

lemma shadow_change_updates [simp]:
  "shadow_change s s"
  "shadow_change s (s\<lparr>fw_dio := d\<rparr>)" "shadow_change s (s\<lparr>fw_ain := a\<rparr>)"
  "shadow_change s (s\<lparr>fw_ain_cursor := c\<rparr>)" "shadow_change s (s\<lparr>fw_dio := d, fw_ain := a\<rparr>)"
  "shadow_change s (s\<lparr>fw_ain_cursor := c, fw_ain := a\<rparr>)"
  by (simp_all add: shadow_change_def)

lemma shadow_change_fields:
  assumes "shadow_change s s'"
  shows "fw_n_pins s' = fw_n_pins s" "fw_mode s' = fw_mode s" "fw_caps s' = fw_caps s"
    "fw_queue s' = fw_queue s" "fw_epoch s' = fw_epoch s"
    "fw_reset_requests s' = fw_reset_requests s" "fw_reset_done s' = fw_reset_done s"
    "fw_running s' = fw_running s" "fw_flags s' = fw_flags s"
    "fw_last_error s' = fw_last_error s" "fw_events s' = fw_events s"
proof -
  note eq = assms [unfolded shadow_change_def]
  show "fw_n_pins s' = fw_n_pins s"
    using arg_cong [OF eq, of fw_n_pins] by simp
  show "fw_mode s' = fw_mode s"
    using arg_cong [OF eq, of fw_mode] by simp
  show "fw_caps s' = fw_caps s"
    using arg_cong [OF eq, of fw_caps] by simp
  show "fw_queue s' = fw_queue s"
    using arg_cong [OF eq, of fw_queue] by simp
  show "fw_epoch s' = fw_epoch s"
    using arg_cong [OF eq, of fw_epoch] by simp
  show "fw_reset_requests s' = fw_reset_requests s"
    using arg_cong [OF eq, of fw_reset_requests] by simp
  show "fw_reset_done s' = fw_reset_done s"
    using arg_cong [OF eq, of fw_reset_done] by simp
  show "fw_running s' = fw_running s"
    using arg_cong [OF eq, of fw_running] by simp
  show "fw_flags s' = fw_flags s"
    using arg_cong [OF eq, of fw_flags] by simp
  show "fw_last_error s' = fw_last_error s"
    using arg_cong [OF eq, of fw_last_error] by simp
  show "fw_events s' = fw_events s"
    using arg_cong [OF eq, of fw_events] by simp
qed

lemma shadow_change_trans [trans]:
  assumes "shadow_change s s'" and "shadow_change s' s''"
  shows "shadow_change s s''"
proof -
  have "s''\<lparr>fw_dio := fw_dio s, fw_ain := fw_ain s, fw_ain_cursor := fw_ain_cursor s\<rparr> =
      s''\<lparr>fw_dio := fw_dio s', fw_ain := fw_ain s', fw_ain_cursor := fw_ain_cursor s'\<rparr>
        \<lparr>fw_dio := fw_dio s, fw_ain := fw_ain s, fw_ain_cursor := fw_ain_cursor s\<rparr>"
    by simp
  also have "\<dots> = s"
    using assms by (simp only: shadow_change_def)
  finally show ?thesis
    by (simp only: shadow_change_def)
qed

lemma shadow_change_fold:
  "(\<And>p s h. shadow_change s (fst (f p (s, h)))) \<Longrightarrow> shadow_change s (fst (fold f ps (s, h)))"
  by (rule fold_keeps [where P = "\<lambda>r. shadow_change s (fst r)"])
    (auto intro: shadow_change_trans)

lemma apply_mode_shadow: "shadow_change s (fst (apply_mode b A pin m s h))"
  by (cases m) (simp_all add: apply_mode_def Let_def split: prod.split)

lemma execute_shadow: "shadow_change s (fst (execute b A c s h))"
  by (cases "cmd_request c") (simp_all add: execute_def apply_mode_shadow split: option.split)

lemma reset_pin_shadow: "shadow_change s (fst (reset_pin A p (s, h)))"
  by (simp add: reset_pin_def Let_def split: prod.split)

lemma apply_reset_shadow: "shadow_change s (fst (apply_reset A s h))"
  using shadow_change_fold [of "reset_pin A" s "pins_below (fw_n_pins s)" h]
  by (auto simp: apply_reset_def reset_pin_shadow split: prod.splits intro: shadow_change_trans)

lemma refresh_pin_shadow: "shadow_change s (fst (refresh_pin A p (s, h)))"
  by (simp add: refresh_pin_def split: prod.split)

lemma sample_next_analog_shadow: "shadow_change s (fst (sample_next_analog A k s h))"
proof (induction k arbitrary: s h)
  case 0
  then show ?case by simp
next
  case (Suc k)
  let ?s1 = "s\<lparr>fw_ain_cursor := (fw_ain_cursor s + 1) mod fw_n_pins s\<rparr>"
  have "shadow_change s (fst (sample_next_analog A k ?s1 h))"
    by (rule shadow_change_trans [OF _ Suc]) simp
  then show ?case
    by (simp add: Let_def split: prod.split)
qed

lemma refresh_shadow_shadow: "shadow_change s (fst (refresh_shadow A s h))"
proof (cases "fw_n_pins s = 0")
  case True
  then show ?thesis by (simp add: refresh_shadow_def)
next
  case False
  obtain s1 h1 where step: "fold (refresh_pin A) (pins_below (fw_n_pins s)) (s, h) = (s1, h1)"
    by fastforce
  then have "shadow_change s s1"
    using shadow_change_fold [of "refresh_pin A" s "pins_below (fw_n_pins s)" h]
    by (simp add: refresh_pin_shadow)
  then show ?thesis
    using False by (simp add: refresh_shadow_def step)
      (rule shadow_change_trans [OF _ sample_next_analog_shadow])
qed

section \<open>poll\<close>

text \<open>
  \<open>while (_reset_done != _reset_requests)\<close>.  No SETUP packet arrives inside a step of this model,
  so the loop's second test sees the requests it has just served.
\<close>

function reset_loop :: "'h arduino \<Rightarrow> fw \<Rightarrow> 'h \<Rightarrow> fw \<times> 'h" where
  "reset_loop A s h =
     (if fw_reset_done s \<noteq> fw_reset_requests s
      then let seen = fw_reset_requests s; (s1, h1) = apply_reset A s h
           in reset_loop A (s1\<lparr>fw_reset_done := seen\<rparr>) h1
      else (s, h))"
  by pat_completeness auto
termination
proof (relation "measure (\<lambda>(A, s, h). if fw_reset_done s \<noteq> fw_reset_requests s then 1 else 0)",
    goal_cases)
  case (2 A s h seen x s1 h1)
  have "fw_reset_requests s1 = fw_reset_requests s"
    using shadow_change_fields(6) [OF apply_reset_shadow [of s A h]]
    by (simp only: 2(3,4) [symmetric] fst_conv)
  then show ?case
    using 2(1) by (simp add: 2(2))
qed simp

declare reset_loop.simps [simp del]

text \<open>\<open>while (_tail != _head)\<close>: a command of an earlier epoch is dropped unexecuted.\<close>

function drain_loop :: "board \<Rightarrow> 'h arduino \<Rightarrow> fw \<Rightarrow> 'h \<Rightarrow> fw \<times> 'h" where
  "drain_loop b A s h =
     (if ring_tail (fw_queue s) \<noteq> ring_head (fw_queue s)
      then let c = ring_front USBIO_QUEUE_DEPTH (fw_queue s);
               s1 = s\<lparr>fw_queue := ring_drop (fw_queue s)\<rparr>;
               (s2, h2) = (if cmd_epoch c = fw_epoch s1 then execute b A c s1 h else (s1, h))
           in drain_loop b A s2 h2
      else (s, h))"
  by pat_completeness auto
termination
proof (relation "measure (\<lambda>(b, A, s, h). unat (ring_head (fw_queue s) - ring_tail (fw_queue s)))",
    goal_cases)
  case (2 b A s h c s1 x s2 h2)
  have "shadow_change s1 (fst (if cmd_epoch c = fw_epoch s1 then execute b A c s1 h else (s1, h)))"
    by (simp add: execute_shadow)
  then have "shadow_change s1 s2"
    by (simp only: 2(4,5) [symmetric] fst_conv)
  then have "fw_queue s2 = ring_drop (fw_queue s)"
    by (simp add: shadow_change_fields(4) 2(3))
  with 2(1) show ?case
    by (simp add: ring_drop_def ring_distance_decreases)
qed simp

declare drain_loop.simps [simp del]

text \<open>What is to be executed, in order: the abstract run of a list of commands.\<close>

definition run_commands :: "board \<Rightarrow> 'h arduino \<Rightarrow> command list \<Rightarrow> fw \<times> 'h \<Rightarrow> fw \<times> 'h" where
  "run_commands b A = fold (\<lambda>c (s, h). execute b A c s h)"

lemma reset_loop_eq:
  "reset_loop A s h =
     (if fw_reset_done s \<noteq> fw_reset_requests s
      then (case apply_reset A s h of (s1, h1) \<Rightarrow> (s1\<lparr>fw_reset_done := fw_reset_requests s\<rparr>, h1))
      else (s, h))"
proof -
  obtain s1 h1 where r: "apply_reset A s h = (s1, h1)"
    by fastforce
  have "fw_reset_requests s1 = fw_reset_requests s"
    using shadow_change_fields(6) [OF apply_reset_shadow [of s A h]] by (simp add: r)
  then show ?thesis
    by (simp add: reset_loop.simps [of A s h] reset_loop.simps [of A "s1\<lparr>fw_reset_done := _\<rparr>"]
        r Let_def)
qed

lemma reset_loop_done:
  "fw_reset_done (fst (reset_loop A s h)) = fw_reset_requests (fst (reset_loop A s h))"
  using shadow_change_fields(6) [OF apply_reset_shadow [of s A h]]
  by (cases "apply_reset A s h") (simp add: reset_loop_eq)

lemma reset_loop_shadow:
  "shadow_change (s\<lparr>fw_reset_done := fw_reset_requests s\<rparr>) (fst (reset_loop A s h))"
proof (cases "fw_reset_done s = fw_reset_requests s")
  case True
  then show ?thesis
    using True [symmetric] by (simp add: reset_loop_eq)
next
  case False
  obtain s1 h1 where r: "apply_reset A s h = (s1, h1)"
    by fastforce
  then have "s1\<lparr>fw_dio := fw_dio s, fw_ain := fw_ain s, fw_ain_cursor := fw_ain_cursor s\<rparr> = s"
    using apply_reset_shadow [of s A h] by (simp add: shadow_change_def)
  from arg_cong [OF this, of "\<lambda>t. t\<lparr>fw_reset_done := fw_reset_requests s\<rparr>"]
  have "s1\<lparr>fw_reset_done := fw_reset_requests s, fw_dio := fw_dio s, fw_ain := fw_ain s,
      fw_ain_cursor := fw_ain_cursor s\<rparr> = s\<lparr>fw_reset_done := fw_reset_requests s\<rparr>"
    by (cases s1) simp
  with False show ?thesis
    by (simp add: reset_loop_eq r shadow_change_def)
qed

lemma execute_queue:
  "execute b A c (s\<lparr>fw_queue := q\<rparr>) h =
     (case execute b A c s h of (s1, h1) \<Rightarrow> (s1\<lparr>fw_queue := q\<rparr>, h1))"
  by (cases "cmd_request c")
    (simp_all add: execute_def apply_mode_def Let_def split: prod.split option.split
      usbio_pin_mode.split)

lemma run_commands_queue:
  "run_commands b A cs (s\<lparr>fw_queue := q\<rparr>, h) =
     (case run_commands b A cs (s, h) of (s1, h1) \<Rightarrow> (s1\<lparr>fw_queue := q\<rparr>, h1))"
proof (induction cs arbitrary: s h)
  case Nil
  then show ?case by (simp add: run_commands_def)
next
  case (Cons c cs)
  then show ?case
    by (simp add: run_commands_def execute_queue split: prod.split)
qed

lemma run_commands_shadow: "shadow_change s (fst (run_commands b A cs (s, h)))"
  unfolding run_commands_def by (rule shadow_change_fold) (simp add: execute_shadow)

text \<open>The drain loop executes the queued commands of the current epoch, oldest first.\<close>

definition live_commands :: "fw \<Rightarrow> command list" where
  "live_commands s = filter (\<lambda>c. cmd_epoch c = fw_epoch s) (commands s)"

definition empty_queue :: "fw \<Rightarrow> fw" where
  "empty_queue s = s\<lparr>fw_queue := (fw_queue s)\<lparr>ring_tail := ring_head (fw_queue s)\<rparr>\<rparr>"

lemma drain_loop_eq:
  "drain_loop b A s h = run_commands b A (live_commands s) (empty_queue s, h)"
proof (induction b A s h rule: drain_loop.induct)
  case (1 b A s h)
  show ?case
  proof (cases "ring_tail (fw_queue s) = ring_head (fw_queue s)")
    case True
    then have "commands s = []"
      by (simp add: ring32.contents_empty_iff)
    moreover have "empty_queue s = s"
      using True [symmetric] by (simp add: empty_queue_def)
    ultimately show ?thesis
      using True by (simp add: drain_loop.simps [of b A s h] live_commands_def run_commands_def)
  next
    case False
    let ?c = "ring_front USBIO_QUEUE_DEPTH (fw_queue s)"
    let ?s1 = "s\<lparr>fw_queue := ring_drop (fw_queue s)\<rparr>"
    let ?r = "if cmd_epoch ?c = fw_epoch ?s1 then execute b A ?c ?s1 h else (?s1, h)"
    obtain s2 h2 where r: "?r = (s2, h2)"
      by fastforce
    have "shadow_change ?s1 (fst ?r)"
      by (simp add: execute_shadow)
    then have s2: "shadow_change ?s1 s2"
      by (simp only: r fst_conv)
    have live: "live_commands s =
        (if cmd_epoch ?c = fw_epoch s then [?c] else []) @ live_commands s2"
      using ring32.contents_front [OF False] shadow_change_fields(4,5) [OF s2]
      by (simp add: live_commands_def)
    have empty: "run_commands b A (if cmd_epoch ?c = fw_epoch s then [?c] else [])
        (empty_queue s, h) = (empty_queue s2, h2)"
    proof -
      have "empty_queue s = ?s1\<lparr>fw_queue := (fw_queue s)\<lparr>ring_tail := ring_head (fw_queue s)\<rparr>\<rparr>"
        by (simp add: empty_queue_def)
      moreover have "empty_queue s2 = s2\<lparr>fw_queue := (fw_queue s)\<lparr>ring_tail := ring_head (fw_queue s)\<rparr>\<rparr>"
        using shadow_change_fields(4) [OF s2] by (simp add: empty_queue_def ring_drop_def)
      ultimately show ?thesis
        using r by (cases "execute b A ?c s h") (auto simp: run_commands_def execute_queue split: if_splits)
    qed
    have "drain_loop b A s h = drain_loop b A s2 h2"
      using False r by (simp add: drain_loop.simps [of b A s h] Let_def)
    also have "\<dots> = run_commands b A (live_commands s2) (empty_queue s2, h2)"
      using 1 [OF False refl refl r [symmetric] refl] .
    also have "\<dots> = run_commands b A (live_commands s) (empty_queue s, h)"
      unfolding live empty [symmetric] by (simp add: run_commands_def)
    finally show ?thesis .
  qed
qed

lemma empty_queue_simps [simp]:
  "fw_reset_done (empty_queue s) = fw_reset_done s"
  "fw_reset_requests (empty_queue s) = fw_reset_requests s"
  "ring_tail (fw_queue (empty_queue s)) = ring_head (fw_queue (empty_queue s))"
  by (simp_all add: empty_queue_def)

lemma drain_loop_shadow: "shadow_change (empty_queue s) (fst (drain_loop b A s h))"
  by (simp add: drain_loop_eq run_commands_shadow)

lemma drain_after_reset:
  "(s1, h1) = reset_loop A s h \<Longrightarrow> (s2, h2) = drain_loop b A s1 h1 \<Longrightarrow>
   fw_reset_done s2 = fw_reset_requests s2"
  using shadow_change_fields(6,7) [OF drain_loop_shadow [of s1 b A h1]] reset_loop_done [of A s h]
  by (cases "reset_loop A s h"; cases "drain_loop b A s1 h1") simp

text \<open>The outer \<open>do \<dots> while (_reset_done != _reset_requests)\<close>.\<close>

function poll_loop :: "board \<Rightarrow> 'h arduino \<Rightarrow> fw \<Rightarrow> 'h \<Rightarrow> fw \<times> 'h" where
  "poll_loop b A s h =
     (let (s1, h1) = reset_loop A s h; (s2, h2) = drain_loop b A s1 h1
      in if fw_reset_done s2 \<noteq> fw_reset_requests s2 then poll_loop b A s2 h2 else (s2, h2))"
  by pat_completeness auto
termination
  by (relation "{}") (auto dest: drain_after_reset)

declare poll_loop.simps [simp del]

definition poll :: "board \<Rightarrow> 'h arduino \<Rightarrow> fw \<Rightarrow> 'h \<Rightarrow> fw \<times> 'h" where
  "poll b A s h =
     (let (s1, h1) = poll_loop b A s h;
          (s2, h2) = refresh_shadow A s1 h1;
          (s3, h3) = event_poll A s2 h2
      in if has_stream_transport b then stream_poll b A s3 h3 else (s3, h3))"

lemma poll_loop_eq:
  "poll_loop b A s h = (case reset_loop A s h of (s1, h1) \<Rightarrow> drain_loop b A s1 h1)"
proof -
  obtain s1 h1 where r: "reset_loop A s h = (s1, h1)"
    by fastforce
  obtain s2 h2 where d: "drain_loop b A s1 h1 = (s2, h2)"
    by fastforce
  have "fw_reset_done s2 = fw_reset_requests s2"
    by (rule drain_after_reset [OF r [symmetric] d [symmetric]])
  then show ?thesis
    by (simp add: poll_loop.simps [of b A s h] r d)
qed

end
