(* ===== verification/Device.thy ===== *)
theory Device
  imports Loop
begin

text \<open>
  The device as a whole (\<open>class UsbIoDevice\<close>): its invariant, the steps it can take (a SETUP
  packet, a \<open>poll()\<close>, a USB disconnect, the passing of time outside) and the states it can
  reach from \<open>begin()\<close>.  Lemmas: every operation keeps the invariant.
\<close>

section \<open>The invariant\<close>

text \<open>A pin never has a mode its capabilities exclude.\<close>

definition mode_inv :: "board \<Rightarrow> fw \<Rightarrow> bool" where
  "mode_inv b s \<longleftrightarrow>
     (\<forall>p m. fw_mode s p = Some m \<longrightarrow> p < fw_n_pins s \<and> mode_allowed b (fw_caps s p) m)"

text \<open>A queued command was validated: its pin can do what the command will ask of it.\<close>

definition command_ok :: "board \<Rightarrow> fw \<Rightarrow> command \<Rightarrow> bool" where
  "command_ok b s c \<longleftrightarrow> cmd_pin c < fw_n_pins s \<and>
     (case cmd_request c of
        USBIO_REQ_PIN_MODE \<Rightarrow> (case mode_of (ucast (cmd_value c)) of
            Some m \<Rightarrow> mode_allowed b (fw_caps s (cmd_pin c)) m | None \<Rightarrow> False)
      | USBIO_REQ_DIO_WRITE \<Rightarrow> mode_allowed b (fw_caps s (cmd_pin c)) USBIO_MODE_OUTPUT \<and>
          cmd_value c \<le> 1
      | USBIO_REQ_PWM_WRITE \<Rightarrow> mode_allowed b (fw_caps s (cmd_pin c)) USBIO_MODE_PWM \<and>
          cmd_value c \<le> full_scale (PwmBits b)
      | USBIO_REQ_DAC_WRITE \<Rightarrow> mode_allowed b (fw_caps s (cmd_pin c)) USBIO_MODE_DAC \<and>
          cmd_value c \<le> full_scale (DacBits b)
      | _ \<Rightarrow> False)"

definition queue_inv :: "board \<Rightarrow> fw \<Rightarrow> bool" where
  "queue_inv b s \<longleftrightarrow>
     ring_ok USBIO_QUEUE_DEPTH (fw_queue s) \<and> (\<forall>c \<in> set (commands s). command_ok b s c)"

definition event_inv :: "fw \<Rightarrow> bool" where
  "event_inv s \<longleftrightarrow> ring_ok USBIO_EVENT_QUEUE_DEPTH (fw_events s) \<and>
     (\<forall>e \<in> set (live_events s). ev_pin e < fw_n_pins s)"

definition fw_inv :: "board \<Rightarrow> fw \<Rightarrow> bool" where
  "fw_inv b s \<longleftrightarrow> pins_inv s \<and> mode_inv b s \<and> queue_inv b s \<and> watch_inv s \<and> event_inv s \<and>
     stream_inv b s \<and> (\<forall>p. fw_dio s p \<le> 1)"

lemmas fw_inv_parts = fw_inv_def pins_inv_def mode_inv_def queue_inv_def event_inv_def

section \<open>Fields the invariants do not read\<close>

lemma pins_inv_cong:
  "fw_n_pins s' = fw_n_pins s \<Longrightarrow> fw_n_ain s' = fw_n_ain s \<Longrightarrow> fw_caps s' = fw_caps s \<Longrightarrow>
   pins_inv s' = pins_inv s"
  by (simp add: pins_inv_def ain_pins_def)

lemma mode_inv_cong:
  "fw_n_pins s' = fw_n_pins s \<Longrightarrow> fw_caps s' = fw_caps s \<Longrightarrow> fw_mode s' = fw_mode s \<Longrightarrow>
   mode_inv b s' = mode_inv b s"
  by (simp add: mode_inv_def)

lemma command_ok_cong:
  assumes "fw_caps s' = fw_caps s" and "fw_n_pins s' = fw_n_pins s"
  shows "command_ok b s' c = command_ok b s c"
  unfolding command_ok_def assms ..

lemma queue_inv_cong:
  "fw_n_pins s' = fw_n_pins s \<Longrightarrow> fw_caps s' = fw_caps s \<Longrightarrow> fw_queue s' = fw_queue s \<Longrightarrow>
   queue_inv b s' = queue_inv b s"
  using command_ok_cong [of s' s b] by (simp add: queue_inv_def)

lemma watch_inv_cong:
  "fw_n_pins s' = fw_n_pins s \<Longrightarrow> fw_caps s' = fw_caps s \<Longrightarrow> fw_mode s' = fw_mode s \<Longrightarrow>
   fw_watch s' = fw_watch s \<Longrightarrow> fw_n_watched s' = fw_n_watched s \<Longrightarrow> watch_inv s' = watch_inv s"
  by (simp add: watch_inv_def active_slots_def)

lemma event_inv_cong:
  "fw_n_pins s' = fw_n_pins s \<Longrightarrow> fw_events s' = fw_events s \<Longrightarrow> event_inv s' = event_inv s"
  by (simp add: event_inv_def live_events_def)

lemma stream_inv_same:
  assumes "fw_n_channels s' = fw_n_channels s" "fw_channels s' = fw_channels s"
    "fw_n_pins s' = fw_n_pins s" "fw_running s' = fw_running s" "fw_records s' = fw_records s"
    "fw_packet s' = fw_packet s" "fw_packet_len s' = fw_packet_len s"
    "fw_packet_records s' = fw_packet_records s" "fw_tx_failures s' = fw_tx_failures s"
  shows "stream_inv b s' = stream_inv b s"
  using assms by (simp add: stream_inv_def stream_channels_def)

lemmas inv_congs = pins_inv_cong mode_inv_cong queue_inv_cong watch_inv_cong event_inv_cong
  stream_inv_same

text \<open>A step of the stream keeps every other part of the invariant.\<close>

lemma fw_inv_stream:
  assumes inv: "fw_inv b s" and same: "same_core s s'" and stream: "stream_inv b s'"
  shows "fw_inv b s'"
proof -
  have "pins_inv s'" "mode_inv b s'" "queue_inv b s'" "watch_inv s'" "event_inv s'"
    using inv same unfolding fw_inv_def same_core_def
    by (simp_all cong: inv_congs(1-5))
  then show ?thesis
    using inv same stream by (simp add: fw_inv_def same_core_def)
qed

text \<open>A change of the shadow values keeps it if the levels stay 0 or 1.\<close>

lemma shadow_change_more:
  assumes "shadow_change s s'"
  shows "fw_n_ain s' = fw_n_ain s" "fw_watch s' = fw_watch s" "fw_n_watched s' = fw_n_watched s"
    "fw_n_channels s' = fw_n_channels s" "fw_channels s' = fw_channels s"
    "fw_records s' = fw_records s" "fw_packet s' = fw_packet s"
    "fw_packet_len s' = fw_packet_len s" "fw_packet_records s' = fw_packet_records s"
    "fw_tx_failures s' = fw_tx_failures s" "fw_dropped s' = fw_dropped s"
proof -
  note eq = assms [unfolded shadow_change_def]
  show "fw_n_ain s' = fw_n_ain s"
    using arg_cong [OF eq, of fw_n_ain] by simp
  show "fw_watch s' = fw_watch s"
    using arg_cong [OF eq, of fw_watch] by simp
  show "fw_n_watched s' = fw_n_watched s"
    using arg_cong [OF eq, of fw_n_watched] by simp
  show "fw_n_channels s' = fw_n_channels s"
    using arg_cong [OF eq, of fw_n_channels] by simp
  show "fw_channels s' = fw_channels s"
    using arg_cong [OF eq, of fw_channels] by simp
  show "fw_records s' = fw_records s"
    using arg_cong [OF eq, of fw_records] by simp
  show "fw_packet s' = fw_packet s"
    using arg_cong [OF eq, of fw_packet] by simp
  show "fw_packet_len s' = fw_packet_len s"
    using arg_cong [OF eq, of fw_packet_len] by simp
  show "fw_packet_records s' = fw_packet_records s"
    using arg_cong [OF eq, of fw_packet_records] by simp
  show "fw_tx_failures s' = fw_tx_failures s"
    using arg_cong [OF eq, of fw_tx_failures] by simp
  show "fw_dropped s' = fw_dropped s"
    using arg_cong [OF eq, of fw_dropped] by simp
qed

lemma fw_inv_shadow:
  assumes inv: "fw_inv b s" and shadow: "shadow_change s s'" and levels: "\<forall>p. fw_dio s' p \<le> 1"
  shows "fw_inv b s'"
proof -
  note same = shadow_change_fields [OF shadow] shadow_change_more [OF shadow]
  have "pins_inv s' = pins_inv s" "mode_inv b s' = mode_inv b s" "queue_inv b s' = queue_inv b s"
    "watch_inv s' = watch_inv s" "event_inv s' = event_inv s" "stream_inv b s' = stream_inv b s"
    by (intro inv_congs same)+
  then show ?thesis
    using inv levels by (simp add: fw_inv_def)
qed

text \<open>Every pin read stores 0 or 1, so do DIO_WRITE and the resets.\<close>

definition levels :: "fw \<Rightarrow> bool" where
  "levels s \<longleftrightarrow> (\<forall>p. fw_dio s p \<le> 1)"

lemma read_pin_level: "fst (read_pin A p h) \<le> 1"
  by (simp add: read_pin_def split: prod.split)

lemma read_pin_levelE: "(level, h1) = read_pin A p h \<Longrightarrow> level \<le> 1"
  using read_pin_level [of A p h] by (metis fst_conv)

lemma levels_upd: "levels s \<Longrightarrow> v \<le> 1 \<Longrightarrow> levels (s\<lparr>fw_dio := (fw_dio s)(p := v)\<rparr>)"
  by (simp add: levels_def)

lemma levels_upd_more [simp]:
  "levels (s\<lparr>fw_ain := a\<rparr>) = levels s" "levels (s\<lparr>fw_ain_cursor := c\<rparr>) = levels s"
  "levels (s\<lparr>fw_reset_done := r\<rparr>) = levels s" "levels (s\<lparr>fw_queue := q\<rparr>) = levels s"
  by (simp_all add: levels_def)

lemma levels_fold:
  assumes "levels s" and "\<And>p s h. levels s \<Longrightarrow> levels (fst (f p (s, h)))"
  shows "levels (fst (fold f ps (s, h)))"
  by (rule fold_keeps [where P = "\<lambda>r. levels (fst r)"]) (use assms in auto)

lemma apply_mode_levels: "levels s \<Longrightarrow> levels (fst (apply_mode b A pin m s h))"
  by (cases m) (auto simp: apply_mode_def Let_def split: prod.split
      intro!: levels_upd dest: read_pin_levelE [OF sym])

lemma execute_levels: "levels s \<Longrightarrow> levels (fst (execute b A c s h))"
  by (cases "cmd_request c") (auto simp: execute_def apply_mode_levels levels_upd split: option.split)

lemma reset_pin_levels: "levels s \<Longrightarrow> levels (fst (reset_pin A p (s, h)))"
  by (auto simp: reset_pin_def Let_def levels_def split: prod.split dest: read_pin_levelE [OF sym])

lemma refresh_pin_levels: "levels s \<Longrightarrow> levels (fst (refresh_pin A p (s, h)))"
  by (auto simp: refresh_pin_def split: prod.split intro!: levels_upd dest: read_pin_levelE [OF sym])

lemma sample_next_analog_levels: "levels s \<Longrightarrow> levels (fst (sample_next_analog A k s h))"
  by (induction k arbitrary: s h) (auto simp: Let_def split: prod.split)

lemma reset_loop_levels:
  assumes "levels s"
  shows "levels (fst (reset_loop A s h))"
proof -
  obtain s1 h1 where r: "fold (reset_pin A) (pins_below (fw_n_pins s)) (s, h) = (s1, h1)"
    by fastforce
  have "levels s1"
    using levels_fold [OF assms, of "reset_pin A" "pins_below (fw_n_pins s)" h]
    by (simp add: reset_pin_levels r)
  with assms show ?thesis
    by (simp add: reset_loop_eq apply_reset_def r)
qed

lemma drain_loop_levels: "levels s \<Longrightarrow> levels (fst (drain_loop b A s h))"
  unfolding drain_loop_eq run_commands_def
  by (rule levels_fold) (simp_all add: execute_levels empty_queue_def)

lemma refresh_shadow_levels:
  assumes "levels s"
  shows "levels (fst (refresh_shadow A s h))"
proof -
  obtain s1 h1 where r: "fold (refresh_pin A) (pins_below (fw_n_pins s)) (s, h) = (s1, h1)"
    by fastforce
  have "levels s1"
    using levels_fold [OF assms, of "refresh_pin A" "pins_below (fw_n_pins s)" h]
    by (simp add: refresh_pin_levels r)
  with assms show ?thesis
    by (simp add: refresh_shadow_def r sample_next_analog_levels)
qed

section \<open>poll keeps the invariant\<close>

lemma fw_inv_reset_done [simp]: "fw_inv b (s\<lparr>fw_reset_done := r\<rparr>) = fw_inv b s"
proof -
  let ?t = "s\<lparr>fw_reset_done := r\<rparr>"
  have "pins_inv ?t = pins_inv s" "mode_inv b ?t = mode_inv b s" "queue_inv b ?t = queue_inv b s"
    "watch_inv ?t = watch_inv s" "event_inv ?t = event_inv s" "stream_inv b ?t = stream_inv b s"
    by (intro inv_congs; simp)+
  then show ?thesis
    by (simp add: fw_inv_def)
qed

lemma fw_inv_levels: "fw_inv b s \<Longrightarrow> levels s"
  by (simp add: fw_inv_def levels_def)

lemma reset_loop_inv:
  assumes "fw_inv b s"
  shows "fw_inv b (fst (reset_loop A s h))"
  using assms reset_loop_levels [OF fw_inv_levels [OF assms], of A h]
  by (intro fw_inv_shadow [OF _ reset_loop_shadow [of s A h]]) (simp_all add: levels_def)

lemma fw_inv_empty_queue:
  assumes "fw_inv b s"
  shows "fw_inv b (empty_queue s)"
proof -
  let ?t = "empty_queue s"
  have "pins_inv ?t = pins_inv s" "mode_inv b ?t = mode_inv b s" "watch_inv ?t = watch_inv s"
    "event_inv ?t = event_inv s" "stream_inv b ?t = stream_inv b s"
    by (intro inv_congs; simp add: empty_queue_def)+
  moreover have "queue_inv b ?t"
    by (simp add: queue_inv_def empty_queue_def ring_ok_def ring_pending_def)
  ultimately show ?thesis
    using assms by (simp add: fw_inv_def empty_queue_def)
qed

lemma drain_loop_inv:
  assumes "fw_inv b s"
  shows "fw_inv b (fst (drain_loop b' A s h))"
  using drain_loop_levels [OF fw_inv_levels [OF assms], of b' A h]
  by (intro fw_inv_shadow [OF fw_inv_empty_queue [OF assms] drain_loop_shadow]) (simp add: levels_def)

lemma poll_loop_inv:
  assumes "fw_inv b s"
  shows "fw_inv b (fst (poll_loop b A s h))"
  using drain_loop_inv [OF reset_loop_inv [OF assms, of A h]]
  by (cases "reset_loop A s h") (simp add: poll_loop_eq)

lemma refresh_shadow_inv:
  assumes "fw_inv b s"
  shows "fw_inv b (fst (refresh_shadow A s h))"
  using refresh_shadow_levels [OF fw_inv_levels [OF assms], of A h]
  by (intro fw_inv_shadow [OF assms refresh_shadow_shadow]) (simp add: levels_def)

lemma detect_keeps:
  "w_active (fst (detect now level w)) = w_active w" "w_pin (fst (detect now level w)) = w_pin w"
  "w_edge_mode (fst (detect now level w)) = w_edge_mode w"
  by (simp_all add: detect_def)

lemma scanned_keeps:
  "w_active (fw_watch (scanned now s) i) = w_active (fw_watch s i)"
  "w_pin (fw_watch (scanned now s) i) = w_pin (fw_watch s i)"
  "w_edge_mode (fw_watch (scanned now s) i) = w_edge_mode (fw_watch s i)"
  by (simp_all add: scanned_def detect_slot_def detect_keeps)

lemma watch_inv_scanned: "watch_inv (scanned now s) = watch_inv s"
proof -
  have "active_slots (scanned now s) = active_slots s"
    by (simp add: active_slots_def scanned_keeps)
  then show ?thesis
    by (simp add: watch_inv_def scanned_keeps) (simp add: scanned_def)
qed

lemma reported_pins:
  assumes "watch_inv s" and "e \<in> set (reported now s)"
  shows "ev_pin e < fw_n_pins s"
proof -
  obtain i where i: "i < 8" "snd (detect now (fw_dio s (w_pin (fw_watch s i))) (fw_watch s i)) = Some e"
    using assms(2) by (auto simp: reported_def List.map_filter_def detect_slot_def simp del: upt_Suc)
  then have "w_active (fw_watch s i)" "ev_pin e = w_pin (fw_watch s i)"
    by (auto simp: detect_def split: if_splits)
  with i assms(1) show ?thesis
    by (simp add: watch_inv_def active_slots_iff)
qed

lemma event_inv_puts:
  assumes "event_inv s" and "\<forall>e \<in> set es. ev_pin e < fw_n_pins s"
  shows "event_inv (fold put_event es s)"
proof -
  have pins: "fw_n_pins (fold put_event es s) = fw_n_pins s"
    by (rule fold_keeps [where P = "\<lambda>t. fw_n_pins t = fw_n_pins s"])
      (simp_all add: put_event_def push_event_def)
  have ok: "ring_ok USBIO_EVENT_QUEUE_DEPTH (fw_events s)"
    using assms(1) by (simp add: event_inv_def)
  have "queued_events (fold put_event es s) =
      queued_events s @ take (32 - length (queued_events s)) es"
    by (rule event_fifo.contents_puts [OF ok])
  then show ?thesis
    using assms event_fifo.inv_puts [OF ok, of es]
    by (auto simp: event_inv_def pins live_events_def dest: in_set_takeD)
qed

text \<open>\<open>event_poll\<close> writes the watch table and the event ring only.\<close>

definition event_change :: "fw \<Rightarrow> fw \<Rightarrow> bool" where
  "event_change s s' \<longleftrightarrow>
     s'\<lparr>fw_watch := fw_watch s, fw_events := fw_events s, fw_dropped := fw_dropped s\<rparr> = s"

lemma event_poll_change: "event_change s (fst (event_poll A s h))"
proof -
  have "event_change s (fold put_event es t)" if "event_change s t" for es t
    by (rule fold_keeps [where P = "event_change s", OF that])
      (simp add: event_change_def put_event_def push_event_def)
  moreover have "event_change s (scanned now s)" for now
    by (simp add: event_change_def scanned_def)
  ultimately show ?thesis
    by (simp add: event_poll_eq) (simp add: event_change_def)
qed

lemma event_change_fields:
  assumes "event_change s s'"
  shows "fw_n_pins s' = fw_n_pins s" "fw_n_ain s' = fw_n_ain s" "fw_caps s' = fw_caps s"
    "fw_mode s' = fw_mode s" "fw_dio s' = fw_dio s" "fw_ain s' = fw_ain s"
    "fw_queue s' = fw_queue s" "fw_epoch s' = fw_epoch s"
    "fw_reset_requests s' = fw_reset_requests s" "fw_reset_done s' = fw_reset_done s"
    "fw_n_watched s' = fw_n_watched s" "fw_n_channels s' = fw_n_channels s"
    "fw_channels s' = fw_channels s" "fw_running s' = fw_running s" "fw_records s' = fw_records s"
    "fw_packet s' = fw_packet s" "fw_packet_len s' = fw_packet_len s"
    "fw_packet_records s' = fw_packet_records s" "fw_tx_failures s' = fw_tx_failures s"
    "fw_flags s' = fw_flags s" "fw_last_error s' = fw_last_error s"
proof -
  note eq = assms [unfolded event_change_def]
  show "fw_n_pins s' = fw_n_pins s"
    using arg_cong [OF eq, of fw_n_pins] by simp
  show "fw_n_ain s' = fw_n_ain s"
    using arg_cong [OF eq, of fw_n_ain] by simp
  show "fw_caps s' = fw_caps s"
    using arg_cong [OF eq, of fw_caps] by simp
  show "fw_mode s' = fw_mode s"
    using arg_cong [OF eq, of fw_mode] by simp
  show "fw_dio s' = fw_dio s"
    using arg_cong [OF eq, of fw_dio] by simp
  show "fw_ain s' = fw_ain s"
    using arg_cong [OF eq, of fw_ain] by simp
  show "fw_queue s' = fw_queue s"
    using arg_cong [OF eq, of fw_queue] by simp
  show "fw_epoch s' = fw_epoch s"
    using arg_cong [OF eq, of fw_epoch] by simp
  show "fw_reset_requests s' = fw_reset_requests s"
    using arg_cong [OF eq, of fw_reset_requests] by simp
  show "fw_reset_done s' = fw_reset_done s"
    using arg_cong [OF eq, of fw_reset_done] by simp
  show "fw_n_watched s' = fw_n_watched s"
    using arg_cong [OF eq, of fw_n_watched] by simp
  show "fw_n_channels s' = fw_n_channels s"
    using arg_cong [OF eq, of fw_n_channels] by simp
  show "fw_channels s' = fw_channels s"
    using arg_cong [OF eq, of fw_channels] by simp
  show "fw_running s' = fw_running s"
    using arg_cong [OF eq, of fw_running] by simp
  show "fw_records s' = fw_records s"
    using arg_cong [OF eq, of fw_records] by simp
  show "fw_packet s' = fw_packet s"
    using arg_cong [OF eq, of fw_packet] by simp
  show "fw_packet_len s' = fw_packet_len s"
    using arg_cong [OF eq, of fw_packet_len] by simp
  show "fw_packet_records s' = fw_packet_records s"
    using arg_cong [OF eq, of fw_packet_records] by simp
  show "fw_tx_failures s' = fw_tx_failures s"
    using arg_cong [OF eq, of fw_tx_failures] by simp
  show "fw_flags s' = fw_flags s"
    using arg_cong [OF eq, of fw_flags] by simp
  show "fw_last_error s' = fw_last_error s"
    using arg_cong [OF eq, of fw_last_error] by simp
qed

lemma event_poll_inv:
  assumes inv: "fw_inv b s"
  shows "fw_inv b (fst (event_poll A s h))"
proof -
  let ?s' = "fst (event_poll A s h)"
  note same = event_change_fields [OF event_poll_change [of s A h]]
  have "pins_inv ?s' = pins_inv s" "mode_inv b ?s' = mode_inv b s" "queue_inv b ?s' = queue_inv b s"
    "stream_inv b ?s' = stream_inv b s"
    by (intro inv_congs same)+
  moreover have "watch_inv ?s'" "event_inv ?s'"
  proof -
    let ?now = "fst (millis A h)"
    have "event_inv (scanned ?now s)" "fw_n_pins (scanned ?now s) = fw_n_pins s"
      using inv by (simp_all add: fw_inv_def event_inv_def live_events_def scanned_def)
    moreover have "\<forall>e \<in> set (reported ?now s). ev_pin e < fw_n_pins s"
      using inv reported_pins [of s] by (simp add: fw_inv_def)
    ultimately have "event_inv (fold put_event (reported ?now s) (scanned ?now s))"
      by (intro event_inv_puts) simp_all
    then show "event_inv ?s'"
      using inv by (simp add: event_poll_eq fw_inv_def)
    have put: "watch_inv (put_event e t) = watch_inv t" for e t
      by (rule watch_inv_cong) (simp_all add: put_event_def push_event_def)
    have puts: "watch_inv (fold put_event es t) = watch_inv t" for es t
      by (rule fold_keeps [where P = "\<lambda>u. watch_inv u = watch_inv t"]) (simp_all add: put)
    show "watch_inv ?s'"
      using inv by (simp add: event_poll_eq fw_inv_def puts watch_inv_scanned)
  qed
  ultimately show ?thesis
    using inv same(5) by (simp add: fw_inv_def)
qed

lemma stream_poll_fw_inv:
  assumes "fw_inv b s" and "wf_board b"
  shows "fw_inv b (fst (stream_poll b A s h))"
  using assms by (intro fw_inv_stream [OF assms(1) stream_poll_core] stream_poll_inv)
    (simp_all add: fw_inv_def pins_inv_def)

lemma poll_inv:
  assumes "fw_inv b s" and "wf_board b"
  shows "fw_inv b (fst (poll b A s h))"
proof -
  obtain s1 h1 where 1: "poll_loop b A s h = (s1, h1)" by fastforce
  obtain s2 h2 where 2: "refresh_shadow A s1 h1 = (s2, h2)" by fastforce
  obtain s3 h3 where 3: "event_poll A s2 h2 = (s3, h3)" by fastforce
  have "fw_inv b s3"
    using poll_loop_inv [OF assms(1), of A h] refresh_shadow_inv [of b s1 A h1]
      event_poll_inv [of b s2 A h2] by (simp add: 1 2 3)
  then show ?thesis
    using stream_poll_fw_inv [OF _ assms(2), of s3 A h3] by (simp add: poll_def 1 2 3)
qed

section \<open>Requests keep the invariant\<close>

lemma fw_inv_error [simp]: "fw_inv b (s\<lparr>fw_last_error := e\<rparr>) = fw_inv b s"
proof -
  let ?t = "s\<lparr>fw_last_error := e\<rparr>"
  have "pins_inv ?t = pins_inv s" "mode_inv b ?t = mode_inv b s" "queue_inv b ?t = queue_inv b s"
    "watch_inv ?t = watch_inv s" "event_inv ?t = event_inv s" "stream_inv b ?t = stream_inv b s"
    by (intro inv_congs; simp)+
  then show ?thesis
    by (simp add: fw_inv_def)
qed

lemma stall_inv: "fw_inv b s \<Longrightarrow> fw_inv b (snd (stall e s))"
  by (simp add: stall_def)

lemma request_reset_inv:
  assumes "fw_inv b s"
  shows "fw_inv b (request_reset b s)"
proof -
  let ?t = "request_reset b s"
  have "pins_inv ?t = pins_inv s" "queue_inv b ?t = queue_inv b s"
    by (intro inv_congs; simp add: request_reset_eq)+
  moreover have "mode_inv b ?t"
  proof -
    have "\<not> p < fw_n_pins s \<Longrightarrow> fw_mode s p = None" for p
      using assms by (cases "fw_mode s p") (auto simp: fw_inv_def mode_inv_def)
    then show ?thesis
      by (auto simp: mode_inv_def request_reset_eq split: if_splits)
  qed
  moreover have "active_slots ?t = []"
    by (simp add: active_slots_def request_reset_eq filter_empty_conv)
  then have "watch_inv ?t"
    by (simp add: watch_inv_def request_reset_eq)
  moreover have "event_inv ?t"
    by (simp add: event_inv_def request_reset_eq live_events_def ring_ok_def ring_pending_def)
  moreover have "stream_inv b ?t"
    using assms by (auto simp: fw_inv_def stream_inv_def stream_channels_def request_reset_eq)
  ultimately show ?thesis
    using assms by (simp add: fw_inv_def request_reset_eq)
qed

lemma enqueue_frame:
  "snd (enqueue req pin v s) = s\<lparr>fw_queue := fw_queue (snd (enqueue req pin v s))\<rparr>"
  by (simp add: enqueue_def)

lemma enqueue_fields [simp]:
  "fw_n_pins (snd (enqueue req pin v s)) = fw_n_pins s"
  "fw_caps (snd (enqueue req pin v s)) = fw_caps s" "fw_mode (snd (enqueue req pin v s)) = fw_mode s"
  "fw_watch (snd (enqueue req pin v s)) = fw_watch s"
  "fw_n_watched (snd (enqueue req pin v s)) = fw_n_watched s"
  "fw_running (snd (enqueue req pin v s)) = fw_running s"
  "fw_channels (snd (enqueue req pin v s)) = fw_channels s"
  "fw_n_channels (snd (enqueue req pin v s)) = fw_n_channels s"
  by (simp_all add: enqueue_def)

lemma enqueue_inv:
  assumes inv: "fw_inv b s"
    and ok: "\<And>e. command_ok b s \<lparr>cmd_request = req, cmd_pin = pin, cmd_epoch = e, cmd_value = v\<rparr>"
  shows "fw_inv b (snd (enqueue req pin v s))"
proof -
  let ?t = "snd (enqueue req pin v s)"
  have "pins_inv ?t = pins_inv s" "mode_inv b ?t = mode_inv b s" "watch_inv ?t = watch_inv s"
    "event_inv ?t = event_inv s" "stream_inv b ?t = stream_inv b s"
    by (intro inv_congs; simp add: enqueue_def)+
  moreover have "queue_inv b ?t"
  proof -
    have "ring_ok USBIO_QUEUE_DEPTH (fw_queue ?t)"
      using inv cmd_fifo.inv_put [of s "(req, pin, v)"]
      by (simp add: fw_inv_def queue_inv_def put_command_def)
    moreover have "set (commands ?t) \<subseteq> set (commands s) \<union>
        {\<lparr>cmd_request = req, cmd_pin = pin, cmd_epoch = fw_epoch s, cmd_value = v\<rparr>}"
      using enqueue_commands [of req pin v s] by (auto simp: enqueue_def split: if_splits)
    ultimately show ?thesis
      using inv ok command_ok_cong [of ?t s b] by (fastforce simp: fw_inv_def queue_inv_def)
  qed
  moreover have "fw_dio ?t = fw_dio s"
    by (simp add: enqueue_def)
  ultimately show ?thesis
    using inv by (simp add: fw_inv_def)
qed

lemma enqueue_or_stall_inv:
  assumes "fw_inv b s"
    and "\<And>e. command_ok b s \<lparr>cmd_request = req, cmd_pin = pin, cmd_epoch = e, cmd_value = v\<rparr>"
  shows "fw_inv b (snd (enqueue_or_stall req pin v s))"
  using enqueue_inv [OF assms] by (simp add: enqueue_or_stall_def stall_inv split: prod.split)
    (metis snd_conv stall_inv)

text \<open>
  The tail of an accepted PIN_MODE: the mode is recorded, a stream over the pin stops, and a pin
  that leaves the INPUT modes is unwatched.
\<close>

definition record_mode :: "board \<Rightarrow> u8 \<Rightarrow> usbio_pin_mode \<Rightarrow> fw \<Rightarrow> fw" where
  "record_mode b pin m s =
     (let s2 = s\<lparr>fw_mode := (fw_mode s)(pin := Some m)\<rparr>;
          s3 = (if has_stream_transport b \<and> fw_running s2 \<and> stream_channel_index s2 pin \<noteq> None
                then s2\<lparr>fw_running := False\<rparr> else s2)
      in if mode_is_input (Some m) then s3
         else case event_watch_index s3 pin of Some i \<Rightarrow> unwatch i s3 | None \<Rightarrow> s3)"

lemma pin_mode_accepted:
  assumes "\<not> 7 \<le> unat v" and "mode_allowed b (fw_caps s pin) (the (mode_of (ucast v)))"
    and "\<not> 32 \<le> length (commands s)"
  shows "handle_pin_mode b pin v s =
    (True, record_mode b pin (the (mode_of (ucast v))) (snd (enqueue USBIO_REQ_PIN_MODE pin v s)))"
proof -
  obtain m where m: "mode_of (ucast v) = Some m"
    using mode_of_value [OF assms(1)] by simp
  obtain q s1 where e: "enqueue USBIO_REQ_PIN_MODE pin v s = (q, s1)"
    by fastforce
  then show ?thesis
    using assms enqueue_room [OF assms(3), of USBIO_REQ_PIN_MODE pin v]
    by (simp add: handle_pin_mode_def m mode_count_iff Let_def record_mode_def)
qed

lemma watch_inv_mode:
  assumes "watch_inv s" and "mode_is_input m \<or> event_watch_index s pin = None"
  shows "watch_inv (s\<lparr>fw_mode := (fw_mode s)(pin := m)\<rparr>)"
proof -
  let ?t = "s\<lparr>fw_mode := (fw_mode s)(pin := m)\<rparr>"
  have slots: "active_slots ?t = active_slots s"
    by (simp add: active_slots_def)
  have "mode_is_input (fw_mode ?t (w_pin (fw_watch s i)))" if "i \<in> set (active_slots s)" for i
    using assms that watch_index_None_iff [of s pin] by (auto simp: watch_inv_def)
  with assms(1) show ?thesis
    by (simp add: watch_inv_def slots)
qed

lemma record_mode_watch:
  assumes inv: "watch_inv s"
  shows "watch_inv (record_mode b pin m s)"
proof -
  let ?mode = "(fw_mode s)(pin := Some m)"
  let ?s2 = "s\<lparr>fw_mode := ?mode\<rparr>"
  let ?s3 = "if has_stream_transport b \<and> fw_running ?s2 \<and> stream_channel_index ?s2 pin \<noteq> None
    then ?s2\<lparr>fw_running := False\<rparr> else ?s2"
  have fields: "fw_watch ?s3 = fw_watch s" "fw_n_watched ?s3 = fw_n_watched s"
    "fw_n_pins ?s3 = fw_n_pins s" "fw_caps ?s3 = fw_caps s" "fw_mode ?s3 = ?mode"
    by simp_all
  have index: "event_watch_index ?s3 = event_watch_index s"
    unfolding event_watch_index_def fields ..
  have eq: "record_mode b pin m s =
      (if mode_is_input (Some m) then ?s3
       else case event_watch_index s pin of Some i \<Rightarrow> unwatch i ?s3 | None \<Rightarrow> ?s3)"
    unfolding index [symmetric] by (simp only: record_mode_def Let_def)
  have plain: "watch_inv ?s3" if "mode_is_input (Some m) \<or> event_watch_index s pin = None"
    using watch_inv_mode [OF inv that] watch_inv_cong [of ?s3 ?s2] fields by simp
  show ?thesis
  proof (cases "mode_is_input (Some m) \<or> event_watch_index s pin = None")
    case True
    then show ?thesis
      using plain by (auto simp: eq)
  next
    case False
    then obtain i where i: "event_watch_index s pin = Some i"
      by auto
    have "event_watch_index (unwatch i s) pin = None"
      using watching_unwatch [OF inv i] by (simp add: watching_None_iff [symmetric])
    then have "watch_inv (unwatch i s\<lparr>fw_mode := (fw_mode (unwatch i s))(pin := Some m)\<rparr>)"
      using watch_inv_unwatch [OF inv i] by (intro watch_inv_mode) simp_all
    then have "watch_inv (unwatch i ?s3)"
      by (subst watch_inv_cong [where s = "unwatch i s\<lparr>fw_mode := ?mode\<rparr>"])
        (simp_all only: fields unwatch_def, simp_all)
    with False show ?thesis
      by (simp add: eq i)
  qed
qed

lemma record_mode_fields [simp]:
  "fw_n_pins (record_mode b pin m s) = fw_n_pins s" "fw_n_ain (record_mode b pin m s) = fw_n_ain s"
  "fw_caps (record_mode b pin m s) = fw_caps s"
  "fw_mode (record_mode b pin m s) = (fw_mode s)(pin := Some m)"
  "fw_queue (record_mode b pin m s) = fw_queue s" "fw_events (record_mode b pin m s) = fw_events s"
  "fw_dio (record_mode b pin m s) = fw_dio s" "fw_epoch (record_mode b pin m s) = fw_epoch s"
  "fw_n_channels (record_mode b pin m s) = fw_n_channels s"
  "fw_channels (record_mode b pin m s) = fw_channels s"
  "fw_records (record_mode b pin m s) = fw_records s"
  "fw_packet (record_mode b pin m s) = fw_packet s"
  "fw_packet_len (record_mode b pin m s) = fw_packet_len s"
  "fw_packet_records (record_mode b pin m s) = fw_packet_records s"
  "fw_tx_failures (record_mode b pin m s) = fw_tx_failures s"
  by (simp_all add: record_mode_def Let_def unwatch_def split: option.split)

lemma record_mode_inv:
  assumes inv: "fw_inv b s" and pin: "pin < fw_n_pins s" and ok: "mode_allowed b (fw_caps s pin) m"
  shows "fw_inv b (record_mode b pin m s)"
proof -
  let ?t = "record_mode b pin m s"
  have "pins_inv ?t = pins_inv s" "queue_inv b ?t = queue_inv b s" "event_inv ?t = event_inv s"
    by (intro inv_congs; simp)+
  moreover have "mode_inv b ?t"
    using inv pin ok by (auto simp: fw_inv_def mode_inv_def)
  moreover have "stream_inv b ?t"
  proof -
    have "fw_running ?t = fw_running s \<or> \<not> fw_running ?t"
      by (simp add: record_mode_def Let_def unwatch_def split: option.split)
    with inv show ?thesis
      by (auto simp: fw_inv_def stream_inv_def stream_channels_def)
  qed
  moreover have "watch_inv ?t"
    using inv by (simp add: fw_inv_def record_mode_watch)
  ultimately show ?thesis
    using inv by (simp add: fw_inv_def)
qed

lemma pin_mode_inv:
  assumes inv: "fw_inv b s" and pin: "pin < fw_n_pins s"
  shows "fw_inv b (snd (handle_pin_mode b pin v s))"
proof (cases "7 \<le> unat v \<or> \<not> mode_allowed b (fw_caps s pin) (the (mode_of (ucast v)))
    \<or> 32 \<le> length (commands s)")
  case True
  show ?thesis
  proof (cases "7 \<le> unat v")
    case True
    then show ?thesis
      using inv by (simp add: handle_pin_mode_def mode_count_iff stall_inv)
  next
    case False
    with True inv show ?thesis
      by (subst pin_mode_split [OF False]) (auto simp: stall_inv)
  qed
next
  case False
  obtain m where m: "mode_of (ucast v) = Some m"
    using False mode_of_value [of v] by simp
  have "fw_inv b (snd (enqueue USBIO_REQ_PIN_MODE pin v s))"
    by (rule enqueue_inv [OF inv]) (use pin False m in \<open>simp add: command_ok_def\<close>)
  then have "fw_inv b (record_mode b pin m (snd (enqueue USBIO_REQ_PIN_MODE pin v s)))"
    using pin False m by (intro record_mode_inv) simp_all
  then show ?thesis
    using False m by (simp add: pin_mode_accepted)
qed

lemma event_config_inv:
  assumes inv: "fw_inv b s" and pin: "pin < fw_n_pins s"
  shows "fw_inv b (snd (handle_event_config pin v s))"
proof -
  let ?t = "snd (handle_event_config pin v s)"
  have fields: "fw_n_pins ?t = fw_n_pins s" "fw_n_ain ?t = fw_n_ain s" "fw_caps ?t = fw_caps s"
    "fw_mode ?t = fw_mode s" "fw_queue ?t = fw_queue s" "fw_dio ?t = fw_dio s"
    "fw_n_channels ?t = fw_n_channels s" "fw_channels ?t = fw_channels s"
    "fw_running ?t = fw_running s" "fw_records ?t = fw_records s" "fw_packet ?t = fw_packet s"
    "fw_packet_len ?t = fw_packet_len s" "fw_packet_records ?t = fw_packet_records s"
    "fw_tx_failures ?t = fw_tx_failures s"
    by (simp_all add: handle_event_config_def arm_event_def Let_def stall_def unwatch_def
        discard_events_for_pin_def split: option.split)
  have "pins_inv ?t = pins_inv s" "mode_inv b ?t = mode_inv b s" "queue_inv b ?t = queue_inv b s"
    "stream_inv b ?t = stream_inv b s"
    by (intro inv_congs fields)+
  moreover have "watch_inv ?t"
    using inv pin by (simp add: fw_inv_def watch_inv_event_config)
  moreover have "event_inv ?t"
  proof (cases "fw_events ?t = fw_events s")
    case True
    then show ?thesis
      using inv event_inv_cong [OF fields(1) True] by (simp add: fw_inv_def)
  next
    case False
    then obtain i where t: "?t = discard_events_for_pin pin (unwatch i s)"
      by (auto simp: handle_event_config_def arm_event_def Let_def stall_def split: option.splits if_splits)
    have ok: "ring_ok USBIO_EVENT_QUEUE_DEPTH (fw_events (unwatch i s))"
      using inv by (simp add: fw_inv_def event_inv_def)
    have "unat pin < 128"
      using inv pin by (simp add: fw_inv_def pins_inv_def word_less_nat_alt)
    then have "pin \<noteq> EventTombstone"
      by (auto simp: EventTombstone_def)
    then have "live_events ?t = filter (\<lambda>e. ev_pin e \<noteq> pin) (live_events (unwatch i s))"
      unfolding t by (rule live_events_discard [OF ok])
    moreover have "live_events (unwatch i s) = live_events s"
      by (simp add: live_events_def)
    moreover have "ring_ok USBIO_EVENT_QUEUE_DEPTH (fw_events ?t)"
      using ok unfolding t by (simp add: discard_events_for_pin_def Let_def ring_ok_def ring_pending_def)
    ultimately show ?thesis
      using inv fields(1) by (simp add: fw_inv_def event_inv_def)
  qed
  ultimately show ?thesis
    using inv fields(6) by (simp add: fw_inv_def)
qed

lemma pin_request_inv:
  assumes inv: "fw_inv b s" and pin: "pin < fw_n_pins s"
  shows "fw_inv b (snd (handle_pin_request b req pin v s))"
proof -
  have allowed: "mode_allowed b (fw_caps s pin) m" if "fw_mode s pin = Some m" for m
    using inv that by (simp add: fw_inv_def mode_inv_def)
  have queued: "fw_inv b (snd (enqueue_or_stall req' pin v' s))"
    if "\<And>e. command_ok b s \<lparr>cmd_request = req', cmd_pin = pin, cmd_epoch = e, cmd_value = v'\<rparr>"
    for req' v'
    by (rule enqueue_or_stall_inv [OF inv that])
  show ?thesis
  proof (cases req)
    case USBIO_REQ_PIN_MODE
    then show ?thesis
      by (simp add: handle_pin_request_def pin_mode_inv [OF inv pin])
  next
    case USBIO_REQ_EVENT_CONFIG
    then show ?thesis
      by (simp add: handle_pin_request_def event_config_inv [OF inv pin])
  next
    case USBIO_REQ_DIO_WRITE
    then show ?thesis
      using inv pin allowed [of USBIO_MODE_OUTPUT] queued
      by (simp add: handle_pin_request_def stall_inv command_ok_def)
  next
    case USBIO_REQ_PWM_WRITE
    then show ?thesis
      using inv pin allowed [of USBIO_MODE_PWM] queued
      by (simp add: handle_pin_request_def stall_inv command_ok_def not_less)
  next
    case USBIO_REQ_DAC_WRITE
    then show ?thesis
      using inv pin allowed [of USBIO_MODE_DAC] queued
      by (simp add: handle_pin_request_def stall_inv command_ok_def not_less)
  qed (use inv in \<open>simp_all add: handle_pin_request_def stall_inv\<close>)
qed

lemma select_core:
  "same_core s (s\<lparr>fw_channels := ch, fw_n_channels := n\<rparr>) \<longleftrightarrow>
     ch = fw_channels s \<and> n = fw_n_channels s"
  by (auto simp: same_core_def)

lemma fw_inv_stream_fields:
  assumes inv: "fw_inv b s" and stream: "stream_inv b s'"
    and eq: "fw_n_pins s' = fw_n_pins s" "fw_n_ain s' = fw_n_ain s" "fw_caps s' = fw_caps s"
      "fw_mode s' = fw_mode s" "fw_queue s' = fw_queue s" "fw_watch s' = fw_watch s"
      "fw_n_watched s' = fw_n_watched s" "fw_events s' = fw_events s" "fw_dio s' = fw_dio s"
  shows "fw_inv b s'"
proof -
  have "pins_inv s' = pins_inv s" "mode_inv b s' = mode_inv b s" "queue_inv b s' = queue_inv b s"
    "watch_inv s' = watch_inv s" "event_inv s' = event_inv s"
    by (intro inv_congs eq)+
  then show ?thesis
    using inv stream eq by (simp add: fw_inv_def)
qed

lemma stream_request_inv:
  assumes "fw_inv b s"
  shows "fw_inv b (snd (handle_stream_select v i s))" "fw_inv b (snd (handle_stream_start v i s))"
    "fw_inv b (snd (handle_stream_stop s))" "fw_inv b (handle_usb_disconnected b s)"
proof -
  have stream: "stream_inv b s"
    using assms by (simp add: fw_inv_def)
  show "fw_inv b (snd (handle_stream_select v i s))"
    by (rule fw_inv_stream_fields [OF assms select_inv [OF stream]]; subst select_frame; simp)
  show "fw_inv b (snd (handle_stream_start v i s))"
    by (rule fw_inv_stream_fields [OF assms start_inv [OF stream]])
      (simp_all add: handle_stream_start_def stall_def)
  show "fw_inv b (snd (handle_stream_stop s))"
    by (rule fw_inv_stream_fields [OF assms stop_inv [OF stream]])
      (simp_all add: handle_stream_stop_def stall_def)
  show "fw_inv b (handle_usb_disconnected b s)"
    by (rule fw_inv_stream_fields [OF assms disconnect_inv [OF stream]])
      (simp_all add: handle_usb_disconnected_def)
qed

lemma handle_out_inv:
  assumes inv: "fw_inv b s"
  shows "fw_inv b (snd (handle_out b code v i len s))"
proof -
  have "ucast i < fw_n_pins s" if "\<not> ucast (fw_n_pins s) \<le> i"
  proof -
    have "unat i < unat (fw_n_pins s)"
      using that by (simp add: word_le_nat_alt)
    then show ?thesis
      using order_less_trans [OF _ unat_lt_u8] by (simp add: word_less_nat_alt unat_ucast_u16_u8)
  qed
  with inv show ?thesis
    by (simp add: handle_out_def stall_inv request_reset_inv stream_request_inv pin_request_inv
        split: option.split)
qed

lemma event_pop_inv:
  assumes inv: "fw_inv b s"
  shows "fw_inv b (snd (reply_event_pop i s))"
proof -
  let ?t = "snd (reply_event_pop i s)"
  have fields: "fw_n_pins ?t = fw_n_pins s" "fw_n_ain ?t = fw_n_ain s" "fw_caps ?t = fw_caps s"
    "fw_mode ?t = fw_mode s" "fw_queue ?t = fw_queue s" "fw_watch ?t = fw_watch s"
    "fw_n_watched ?t = fw_n_watched s" "fw_dio ?t = fw_dio s"
    "fw_n_channels ?t = fw_n_channels s" "fw_channels ?t = fw_channels s"
    "fw_running ?t = fw_running s" "fw_records ?t = fw_records s" "fw_packet ?t = fw_packet s"
    "fw_packet_len ?t = fw_packet_len s" "fw_packet_records ?t = fw_packet_records s"
    "fw_tx_failures ?t = fw_tx_failures s"
    by (simp_all add: reply_event_pop_def Let_def split: prod.split)
  have "pins_inv ?t = pins_inv s" "mode_inv b ?t = mode_inv b s" "queue_inv b ?t = queue_inv b s"
    "watch_inv ?t = watch_inv s" "stream_inv b ?t = stream_inv b s"
    by (intro inv_congs fields)+
  moreover have "event_inv ?t"
    using inv event_pop_ok [of s i] event_pop_events [of i s] fields(1)
    by (auto simp: fw_inv_def event_inv_def dest: in_set_dropD)
  ultimately show ?thesis
    using inv fields(8) by (simp add: fw_inv_def)
qed

lemma in_reply_inv:
  assumes "fw_inv b s"
  shows "fw_inv b (fst (snd (in_reply b A req i len s h)))"
  using assms event_pop_inv [OF assms, of i]
  by (cases req) (auto simp: in_reply_def stall_inv split: prod.split)

lemma handle_in_inv:
  assumes "fw_inv b s"
  shows "fw_inv b (fst (snd (handle_in b A code i len s h)))"
proof (cases "request_of code")
  case None
  then show ?thesis
    using assms by (simp add: handle_in_def stall_inv)
next
  case (Some req)
  then show ?thesis
    using in_reply_inv [OF assms, of A req i len h]
    by (cases "in_reply b A req i len s h") (simp add: handle_in_def)
qed

lemma handle_setup_inv:
  assumes "fw_inv b s"
  shows "fw_inv b (fst (snd (handle_setup b A p s h)))"
proof -
  have out: "fw_inv b (fst (snd (case handle_out b c v i l s of
      (ok, s1) \<Rightarrow> (if ok then Some [] else (None :: bytes option), s1, h))))" for c v i l
    using handle_out_inv [OF assms, of c v i l] by (cases "handle_out b c v i l s") simp
  show ?thesis
    using assms out by (simp add: handle_setup_def Let_def handle_in_inv stall_inv)
qed

section \<open>begin()\<close>

text \<open>The bits \<open>begin()\<close> puts together are independent.\<close>

lemma caps_ain:
  "((if d then USBIO_CAP_DIO else 0) OR (if a then USBIO_CAP_AIN else 0) OR
    (if w then USBIO_CAP_PWM else 0) OR (if c then USBIO_CAP_DAC else (0 :: u8))) AND USBIO_CAP_AIN \<noteq> 0
   \<longleftrightarrow> a"
  by (cases d; cases a; cases w; cases c; simp)

lemma begin_pins:
  assumes "distinct ps" and "unat (fw_n_ain s) \<le> 32"
  shows "unat (fw_n_ain (fold (begin_pin b) ps s)) = unat (fw_n_ain s) +
        length (filter (\<lambda>p. fw_caps (fold (begin_pin b) ps s) p AND USBIO_CAP_AIN \<noteq> 0) ps)
      \<and> unat (fw_n_ain (fold (begin_pin b) ps s)) \<le> 32
      \<and> (\<forall>p. p \<notin> set ps \<longrightarrow> fw_caps (fold (begin_pin b) ps s) p = fw_caps s p)"
  using assms(1)
proof (induction ps rule: rev_induct)
  case Nil
  then show ?case using assms(2) by simp
next
  case (snoc p ps)
  let ?u = "fold (begin_pin b) ps s"
  let ?t = "begin_pin b p ?u"
  have IH: "unat (fw_n_ain ?u) = unat (fw_n_ain s) + length (filter (\<lambda>p. fw_caps ?u p AND 2 \<noteq> 0) ps)"
    "unat (fw_n_ain ?u) \<le> 32" "\<forall>p. p \<notin> set ps \<longrightarrow> fw_caps ?u p = fw_caps s p"
    using snoc by simp_all
  have take: "fw_caps ?t p AND 2 \<noteq> 0 \<longleftrightarrow> pin_has_ain b p \<and> unat (fw_n_ain ?u) < 32"
    unfolding begin_pin_def Let_def using caps_ain by simp
  have "unat (fw_n_ain ?u + 1) = Suc (unat (fw_n_ain ?u))"
    using IH(2) by (intro unat_succ_u8) simp
  then have n: "unat (fw_n_ain ?t) = unat (fw_n_ain ?u) + (if fw_caps ?t p AND 2 \<noteq> 0 then 1 else 0)"
    unfolding take by (simp add: begin_pin_def Let_def)
  moreover have "unat (fw_n_ain ?t) \<le> 32"
    unfolding n take using IH(2) by auto
  moreover have other: "fw_caps ?t q = fw_caps ?u q" if "q \<noteq> p" for q
    using that by (simp add: begin_pin_def Let_def)
  then have "filter (\<lambda>q. fw_caps ?t q AND 2 \<noteq> 0) ps = filter (\<lambda>q. fw_caps ?u q AND 2 \<noteq> 0) ps"
    using snoc.prems by (intro filter_cong refl) (subst other, auto)
  ultimately show ?case
    using IH other by simp
qed

text \<open>Discovery fills in the capabilities and changes nothing else of a fresh object.\<close>

definition blank :: "board \<Rightarrow> fw \<Rightarrow> bool" where
  "blank b t \<longleftrightarrow> t\<lparr>fw_n_pins := 0, fw_n_ain := 0, fw_flags := 0, fw_caps := (\<lambda>_. 0)\<rparr> = construct b"

lemma begin_pin_blank: "blank b t \<Longrightarrow> blank b (begin_pin b p t)"
proof -
  assume t: "blank b t"
  then have "fw_mode t = (\<lambda>_. None)" "fw_dio t = (\<lambda>_. 0)" "fw_ain t = (\<lambda>_. 0)"
    using arg_cong [OF t [unfolded blank_def], of fw_mode] arg_cong [OF t [unfolded blank_def], of fw_dio]
      arg_cong [OF t [unfolded blank_def], of fw_ain] by (simp_all add: construct_def)
  then have "(fw_mode t)(p := None) = fw_mode t" "(fw_dio t)(p := 0) = fw_dio t"
    "(fw_ain t)(p := 0) = fw_ain t"
    by auto
  with t show ?thesis
    by (simp add: blank_def begin_pin_def Let_def)
qed

lemma blank_fields:
  assumes "blank b t"
  shows "fw_mode t = fw_mode (construct b)" "fw_dio t = fw_dio (construct b)"
    "fw_queue t = fw_queue (construct b)" "fw_watch t = fw_watch (construct b)"
    "fw_n_watched t = fw_n_watched (construct b)" "fw_events t = fw_events (construct b)"
    "fw_n_channels t = fw_n_channels (construct b)" "fw_channels t = fw_channels (construct b)"
    "fw_running t = fw_running (construct b)" "fw_records t = fw_records (construct b)"
    "fw_packet t = fw_packet (construct b)" "fw_packet_len t = fw_packet_len (construct b)"
    "fw_packet_records t = fw_packet_records (construct b)"
    "fw_tx_failures t = fw_tx_failures (construct b)"
proof -
  note eq = assms [unfolded blank_def]
  show "fw_mode t = fw_mode (construct b)"
    using arg_cong [OF eq, of fw_mode] by simp
  show "fw_dio t = fw_dio (construct b)"
    using arg_cong [OF eq, of fw_dio] by simp
  show "fw_queue t = fw_queue (construct b)"
    using arg_cong [OF eq, of fw_queue] by simp
  show "fw_watch t = fw_watch (construct b)"
    using arg_cong [OF eq, of fw_watch] by simp
  show "fw_n_watched t = fw_n_watched (construct b)"
    using arg_cong [OF eq, of fw_n_watched] by simp
  show "fw_events t = fw_events (construct b)"
    using arg_cong [OF eq, of fw_events] by simp
  show "fw_n_channels t = fw_n_channels (construct b)"
    using arg_cong [OF eq, of fw_n_channels] by simp
  show "fw_channels t = fw_channels (construct b)"
    using arg_cong [OF eq, of fw_channels] by simp
  show "fw_running t = fw_running (construct b)"
    using arg_cong [OF eq, of fw_running] by simp
  show "fw_records t = fw_records (construct b)"
    using arg_cong [OF eq, of fw_records] by simp
  show "fw_packet t = fw_packet (construct b)"
    using arg_cong [OF eq, of fw_packet] by simp
  show "fw_packet_len t = fw_packet_len (construct b)"
    using arg_cong [OF eq, of fw_packet_len] by simp
  show "fw_packet_records t = fw_packet_records (construct b)"
    using arg_cong [OF eq, of fw_packet_records] by simp
  show "fw_tx_failures t = fw_tx_failures (construct b)"
    using arg_cong [OF eq, of fw_tx_failures] by simp
qed

lemma blank_inv:
  assumes blank: "blank b t" and pins: "pins_inv t"
  shows "fw_inv b t"
proof -
  note fields = blank_fields [OF blank]
  have "commands t = []" "queued_events t = []" "records t = []" "active_slots t = []"
    by (simp_all add: fields active_slots_def construct_def empty_watch_def filter_empty_conv)
  then show ?thesis
    using pins
    by (simp add: fw_inv_def mode_inv_def queue_inv_def watch_inv_def event_inv_def stream_inv_def
        live_events_def stream_channels_def ring_ok_def ring_pending_def fields construct_def
        StreamTxFailureLimit_def)
qed

lemma begin_inv:
  assumes "wf_board b"
  shows "fw_inv b (fst (begin_device b A (construct b) h))"
proof -
  let ?s1 = "construct b\<lparr>fw_n_pins := pin_count b, fw_n_ain := 0\<rparr>"
  let ?s2 = "fold (begin_pin b) (pins_below (pin_count b)) ?s1"
  let ?t = "fst (begin_device b A (construct b) h)"
  have "blank b ?s1"
    by (simp add: blank_def construct_def)
  then have "blank b ?s2"
    by (rule fold_keeps [where P = "blank b"]) (rule begin_pin_blank)
  moreover have n: "fw_n_pins ?s2 = pin_count b"
    by (rule fold_keeps [where P = "\<lambda>t. fw_n_pins t = pin_count b"])
      (simp_all add: begin_pin_def Let_def)
  moreover have "unat (fw_n_ain ?s2) = length (ain_pins ?s2) \<and> unat (fw_n_ain ?s2) \<le> 32"
    using begin_pins [of "pins_below (pin_count b)" ?s1 b] by (simp add: ain_pins_def n)
  ultimately have parts: "blank b (?s2\<lparr>fw_flags := f\<rparr>)" "pins_inv (?s2\<lparr>fw_flags := f\<rparr>)" for f
    using assms by (auto simp: blank_def pins_inv_def ain_pins_def wf_board_def)
  obtain f where "?t = ?s2\<lparr>fw_flags := f\<rparr>"
    by (simp add: begin_device_def Let_def)
  then show ?thesis
    using blank_inv [OF parts] by simp
qed

section \<open>Steps and reachable states\<close>

text \<open>
  What can happen to a running device: a SETUP packet arrives, the sketch calls \<open>poll()\<close>, the
  bus is disconnected, or the outside world moves on.  Each step runs to completion, which is
  how the interrupt and \<open>loop()\<close> share one core except for a packet inside \<open>poll()\<close>.
\<close>

inductive device_step :: "board \<Rightarrow> 'h arduino \<Rightarrow> fw \<times> 'h \<Rightarrow> fw \<times> 'h \<Rightarrow> bool"
  for b :: board and A :: "'h arduino"
where
  packet: "handle_setup b A p s h = (reply, s', h') \<Longrightarrow> device_step b A (s, h) (s', h')"
| polled: "poll b A s h = (s', h') \<Longrightarrow> device_step b A (s, h) (s', h')"
| unplugged: "device_step b A (s, h) (handle_usb_disconnected b s, h)"
| elapsed: "device_step b A (s, h) (s, h')"

inductive_cases device_stepE: "device_step b A c c'"

inductive reachable :: "board \<Rightarrow> 'h arduino \<Rightarrow> fw \<times> 'h \<Rightarrow> bool"
  for b :: board and A :: "'h arduino"
where
  start: "reachable b A (begin_device b A (construct b) h)"
| step: "reachable b A c \<Longrightarrow> device_step b A c c' \<Longrightarrow> reachable b A c'"

lemma step_inv:
  assumes "device_step b A c c'" and "wf_board b" and "fw_inv b (fst c)"
  shows "fw_inv b (fst c')"
  using assms
proof (cases rule: device_step.cases)
  case (packet p s h reply s' h')
  then show ?thesis
    using handle_setup_inv [of b s A p h] assms(3) by simp
next
  case (polled s h s' h')
  then show ?thesis
    using poll_inv [of b s A h] assms(2,3) by simp
next
  case (unplugged s h)
  then show ?thesis
    using stream_request_inv(4) [of b s] assms(3) by simp
next
  case (elapsed s h h')
  then show ?thesis
    using assms(3) by simp
qed

lemma reachable_inv:
  assumes "reachable b A c" and "wf_board b"
  shows "fw_inv b (fst c)"
  using assms(1)
  by induction (auto intro: begin_inv [OF assms(2)] step_inv [OF _ assms(2)])

section \<open>What poll leaves alone, and where it ends\<close>

lemma poll_stages:
  obtains s1 h1 s2 h2 s3 h3 where "poll_loop b A s h = (s1, h1)" "refresh_shadow A s1 h1 = (s2, h2)"
    "event_poll A s2 h2 = (s3, h3)" "shadow_change s1 s2" "event_change s2 s3"
    "same_core s3 (fst (poll b A s h))"
proof -
  obtain s1 h1 where 1: "poll_loop b A s h = (s1, h1)" by fastforce
  obtain s2 h2 where 2: "refresh_shadow A s1 h1 = (s2, h2)" by fastforce
  obtain s3 h3 where 3: "event_poll A s2 h2 = (s3, h3)" by fastforce
  have "fst (poll b A s h) = (if has_stream_transport b then fst (stream_poll b A s3 h3) else s3)"
    by (simp add: poll_def 1 2 3)
  then have "same_core s3 (fst (poll b A s h))"
    using stream_poll_core [of s3 b A h3] by simp
  then show thesis
    using that [OF 1 2 3] refresh_shadow_shadow [of s1 A h1] event_poll_change [of s2 A h2]
    by (simp add: 2 3)
qed

lemma shadow_change_empty:
  assumes "shadow_change s s'"
  shows "shadow_change (empty_queue s) (empty_queue s')"
proof -
  let ?q = "(fw_queue s)\<lparr>ring_tail := ring_head (fw_queue s)\<rparr>"
  have q: "fw_queue s' = fw_queue s"
    by (rule shadow_change_fields(4) [OF assms])
  have "s'\<lparr>fw_queue := ?q, fw_dio := fw_dio s, fw_ain := fw_ain s, fw_ain_cursor := fw_ain_cursor s\<rparr> =
      s'\<lparr>fw_dio := fw_dio s, fw_ain := fw_ain s, fw_ain_cursor := fw_ain_cursor s\<rparr>\<lparr>fw_queue := ?q\<rparr>"
    by (cases s') simp
  also have "\<dots> = s\<lparr>fw_queue := ?q\<rparr>"
    using assms by (simp only: shadow_change_def)
  finally show ?thesis
    by (simp add: empty_queue_def shadow_change_def q)
qed

lemma poll_loop_shadow:
  "shadow_change (empty_queue (s\<lparr>fw_reset_done := fw_reset_requests s\<rparr>)) (fst (poll_loop b A s h))"
proof -
  obtain s1 h1 where r: "reset_loop A s h = (s1, h1)" by fastforce
  have s1: "shadow_change (s\<lparr>fw_reset_done := fw_reset_requests s\<rparr>) s1"
    using reset_loop_shadow [of s A h] by (simp add: r)
  have "shadow_change (empty_queue (s\<lparr>fw_reset_done := fw_reset_requests s\<rparr>)) (empty_queue s1)"
    by (rule shadow_change_empty [OF s1])
  then show ?thesis
    using drain_loop_shadow [of s1 b A h1] by (simp add: poll_loop_eq r) (rule shadow_change_trans)
qed

lemma poll_fields:
  "fw_mode (fst (poll b A s h)) = fw_mode s" "fw_caps (fst (poll b A s h)) = fw_caps s"
  "fw_n_pins (fst (poll b A s h)) = fw_n_pins s" "fw_epoch (fst (poll b A s h)) = fw_epoch s"
  "fw_reset_done (fst (poll b A s h)) = fw_reset_requests (fst (poll b A s h))"
  "commands (fst (poll b A s h)) = []"
proof -
  obtain s1 h1 s2 h2 s3 h3 where stages: "poll_loop b A s h = (s1, h1)"
      "refresh_shadow A s1 h1 = (s2, h2)" "event_poll A s2 h2 = (s3, h3)"
    and steps: "shadow_change s1 s2" "event_change s2 s3" "same_core s3 (fst (poll b A s h))"
    by (rule poll_stages)
  have loop: "shadow_change (empty_queue (s\<lparr>fw_reset_done := fw_reset_requests s\<rparr>)) s1"
    using poll_loop_shadow [of s b A h] by (simp add: stages)
  note fields = shadow_change_fields [OF loop] shadow_change_fields [OF steps(1)]
    event_change_fields [OF steps(2)]
  show "fw_mode (fst (poll b A s h)) = fw_mode s" "fw_caps (fst (poll b A s h)) = fw_caps s"
    "fw_n_pins (fst (poll b A s h)) = fw_n_pins s" "fw_epoch (fst (poll b A s h)) = fw_epoch s"
    "fw_reset_done (fst (poll b A s h)) = fw_reset_requests (fst (poll b A s h))"
    "commands (fst (poll b A s h)) = []"
    using steps(3) fields by (simp_all add: same_core_def empty_queue_def)
qed

lemma poll_not_busy: "\<not> busy (fst (poll b A s h))"
  using ring32.length_contents [of "fw_queue (fst (poll b A s h))"]
  by (simp add: busy_def queue_pending_def poll_fields unat_eq_zero)

text \<open>The level of a pin the sketch drives survives the refresh.\<close>

lemma refresh_shadow_driven:
  assumes "\<not> mode_is_input (fw_mode s p)"
  shows "fw_dio (fst (refresh_shadow A s h)) p = fw_dio s p"
proof -
  have other: "fw_dio (fst (fold (refresh_pin A) ps (s, h))) p = fw_dio s p \<and>
      fw_mode (fst (fold (refresh_pin A) ps (s, h))) = fw_mode s" for ps
    by (rule fold_keeps [where P = "\<lambda>r. fw_dio (fst r) p = fw_dio s p \<and> fw_mode (fst r) = fw_mode s"])
      (use assms in \<open>auto simp: refresh_pin_def split: prod.split\<close>)
  have sample: "fw_dio (fst (sample_next_analog A k t h')) = fw_dio t" for k t h'
    by (induction k arbitrary: t h') (simp_all add: Let_def split: prod.split)
  show ?thesis
    using other [of "pins_below (fw_n_pins s)"] sample
    by (simp add: refresh_shadow_def split: prod.split) (metis fst_conv)
qed

lemma poll_driven_level:
  assumes "\<not> mode_is_input (fw_mode s p)"
  shows "fw_dio (fst (poll b A s h)) p = fw_dio (fst (poll_loop b A s h)) p"
proof -
  obtain s1 h1 s2 h2 s3 h3 where stages: "poll_loop b A s h = (s1, h1)"
      "refresh_shadow A s1 h1 = (s2, h2)" "event_poll A s2 h2 = (s3, h3)"
    and steps: "shadow_change s1 s2" "event_change s2 s3" "same_core s3 (fst (poll b A s h))"
    by (rule poll_stages)
  have "fw_mode s1 = fw_mode s"
    using shadow_change_fields(2) [OF poll_loop_shadow [of s b A h]] by (simp add: stages empty_queue_def)
  then have "fw_dio s2 p = fw_dio s1 p"
    using refresh_shadow_driven [of s1 p A h1] assms by (simp add: stages)
  then show ?thesis
    using steps(3) event_change_fields(5) [OF steps(2)] by (simp add: same_core_def stages)
qed

end
