(* ===== verification/Boards.thy ===== *)
theory Boards
  imports Device
begin

text \<open>
  Capability discovery (\<open>src/src/UsbIoBoard.h\<close>): the number of addressable pins computed from a
  variant's macros, the per-architecture constants, and the pin predicates over the core's pin
  tables.  A variant's macros and the core's tables are external: they are the records
  \<open>variant\<close>, \<open>mbed_core\<close>, \<open>renesas_core\<close>, \<open>samd_core\<close>, \<open>rp2040_core\<close> and \<open>esp32_core\<close>, an
  option standing for a macro that may be undefined.  Each architecture's board is well formed.
\<close>

section \<open>Pin count\<close>

record variant =
  NUM_DIGITAL_PINS :: u32
  NUM_ANALOG_INPUTS :: u32
  PIN_A0 :: "u32 option"
  LED_BUILTIN :: "u32 option"
  LEDR :: "u32 option"
  LEDG :: "u32 option"
  LEDB :: "u32 option"
  LED_PWR :: "u32 option"
  PINS_COUNT :: "u32 option"
  DAC :: "u8 option"
  macro :: "string \<Rightarrow> bool"

text \<open>\<open>if (bound > n) n = bound;\<close> and \<open>if (n > bound) n = bound;\<close>\<close>

definition raise_to :: "u32 \<Rightarrow> u32 \<Rightarrow> u32" where
  "raise_to bound n = (if bound > n then bound else n)"

definition clamp_to :: "u32 \<Rightarrow> u32 \<Rightarrow> u32" where
  "clamp_to bound n = (if n > bound then bound else n)"

definition raise_led :: "u32 option \<Rightarrow> u32 \<Rightarrow> u32" where
  "raise_led led n = (case led of Some l \<Rightarrow> raise_to (l + 1) n | None \<Rightarrow> n)"

definition named_pin_count :: "variant \<Rightarrow> u8" where
  "named_pin_count v =
     (let n0 = NUM_DIGITAL_PINS v;
          n1 = (case PIN_A0 v of Some a0 \<Rightarrow> raise_to (a0 + NUM_ANALOG_INPUTS v) n0 | None \<Rightarrow> n0);
          n2 = raise_led (LED_BUILTIN v) n1;
          n3 = raise_led (LEDR v) n2;
          n4 = raise_led (LEDG v) n3;
          n5 = raise_led (LEDB v) n4;
          n6 = raise_led (LED_PWR v) n5;
          n7 = (case PINS_COUNT v of Some c \<Rightarrow> clamp_to c n6 | None \<Rightarrow> n6)
      in ucast (clamp_to (of_nat USBIO_MAX_PINS) n7))"

definition analog_header_pin :: "variant \<Rightarrow> u8 \<Rightarrow> bool" where
  "analog_header_pin v p =
     (case PIN_A0 v of
        Some a0 \<Rightarrow> a0 \<le> ucast p \<and> ucast p < a0 + NUM_ANALOG_INPUTS v
      | None \<Rightarrow> False)"

text \<open>\<open>(unsigned)p < (unsigned)PINS_COUNT\<close>; the architectures that test it always define it.\<close>

definition below_pins_count :: "variant \<Rightarrow> u8 \<Rightarrow> bool" where
  "below_pins_count v p = (case PINS_COUNT v of Some c \<Rightarrow> ucast p < c | None \<Rightarrow> False)"

section \<open>Boards\<close>

text \<open>
  mbed: \<open>pin_name\<close> is \<open>digitalPinToPinName\<close> (\<open>None\<close> for \<open>NC\<close>), \<open>DUAL_PAD\<close> the bit of an
  ADC-only STM32H7 pad, \<open>pwm_pinmap\<close> the lookup in \<open>PinMap_PWM\<close> where
  \<open>USBIO_MBED_PWM_PINMAP\<close> is set, \<open>high_speed\<close> the condition that selects 512 byte packets.
\<close>

record mbed_core =
  pin_name :: "u8 \<Rightarrow> u32 option"
  DUAL_PAD :: "u32 option"
  pwm_pinmap :: "(u32 \<Rightarrow> bool) option"
  DAC_0 :: "u8 option"
  DAC_1 :: "u8 option"
  high_speed :: bool

definition mbed_board_id :: "variant \<Rightarrow> usbio_board_id" where
  "mbed_board_id v =
     (if macro v ''ARDUINO_PORTENTA_H7_M7'' then USBIO_BOARD_PORTENTA_H7
      else if macro v ''ARDUINO_GIGA'' then USBIO_BOARD_GIGA_R1
      else if macro v ''ARDUINO_ARDUINO_NANO33BLE'' then USBIO_BOARD_NANO_33_BLE
      else if macro v ''ARDUINO_NANO_RP2040_CONNECT'' then USBIO_BOARD_NANO_RP2040_CONNECT
      else USBIO_BOARD_MBED_GENERIC)"

definition mbed_pin_has_dio :: "mbed_core \<Rightarrow> u8 \<Rightarrow> bool" where
  "mbed_pin_has_dio c p =
     (case pin_name c p of
        None \<Rightarrow> False
      | Some name \<Rightarrow> (case DUAL_PAD c of Some bits \<Rightarrow> name AND bits = 0 | None \<Rightarrow> True))"

definition mbed_pin_has_pwm :: "mbed_core \<Rightarrow> u8 \<Rightarrow> bool" where
  "mbed_pin_has_pwm c p =
     (if \<not> mbed_pin_has_dio c p then False
      else case pwm_pinmap c of
        Some found \<Rightarrow> (case pin_name c p of Some name \<Rightarrow> found name | None \<Rightarrow> False)
      | None \<Rightarrow> True)"

definition mbed_pin_has_dac :: "variant \<Rightarrow> mbed_core \<Rightarrow> u8 \<Rightarrow> bool" where
  "mbed_pin_has_dac v c p \<longleftrightarrow> DAC v = Some p \<or> DAC_0 c = Some p \<or> DAC_1 c = Some p"

definition mbed_board :: "variant \<Rightarrow> mbed_core \<Rightarrow> board" where
  "mbed_board v c = \<lparr>pin_count = named_pin_count v, pin_has_dio = mbed_pin_has_dio c,
     pin_has_ain = analog_header_pin v, pin_has_pwm = mbed_pin_has_pwm c,
     pin_has_dac = mbed_pin_has_dac v c, BoardId = board_id_code (mbed_board_id v),
     AdcBits = 16, PwmBits = 12, DacBits = (if DAC v \<noteq> None then 12 else 0),
     VrefMv = 3300, IoMv = 3300, HasPulldown = True, has_stream_transport = True,
     transport_flags = USBIO_FLAG_VENDOR_INTERFACE OR USBIO_FLAG_STREAMING,
     stream_packet_max = (if high_speed c then 512 else USBIO_STREAM_EP_SIZE) - 1,
     packet_buffer_len = 511\<rparr>"

text \<open>Renesas: \<open>renesas_has_pwm\<close> is \<open>digitalPinHasPWM\<close>.\<close>

record renesas_core =
  renesas_has_pwm :: "u8 \<Rightarrow> bool"
  IS_DAC :: "(u8 \<Rightarrow> bool) option"

definition renesas_board_id :: "variant \<Rightarrow> usbio_board_id" where
  "renesas_board_id v =
     (if macro v ''ARDUINO_NANO_R4'' then USBIO_BOARD_NANO_R4
      else if macro v ''ARDUINO_UNOR4_MINIMA'' then USBIO_BOARD_UNO_R4_MINIMA
      else USBIO_BOARD_RENESAS_GENERIC)"

definition renesas_pin_has_dac :: "variant \<Rightarrow> renesas_core \<Rightarrow> u8 \<Rightarrow> bool" where
  "renesas_pin_has_dac v c p = (case IS_DAC c of Some f \<Rightarrow> f p | None \<Rightarrow> DAC v = Some p)"

definition renesas_board :: "variant \<Rightarrow> renesas_core \<Rightarrow> board" where
  "renesas_board v c = \<lparr>pin_count = named_pin_count v, pin_has_dio = below_pins_count v,
     pin_has_ain = analog_header_pin v,
     pin_has_pwm = (\<lambda>p. below_pins_count v p \<and> renesas_has_pwm c p),
     pin_has_dac = renesas_pin_has_dac v c, BoardId = board_id_code (renesas_board_id v),
     AdcBits = 14, PwmBits = 12, DacBits = (if DAC v \<noteq> None then 12 else 0),
     VrefMv = 5000, IoMv = 5000, HasPulldown = False, has_stream_transport = False,
     transport_flags = 0, stream_packet_max = USBIO_STREAM_EP_SIZE - 1, packet_buffer_len = 63\<rparr>"

text \<open>SAMD: the fields of \<open>g_APinDescription[p]\<close> and the core's constants they are compared with.\<close>

record samd_core =
  samd_has_pwm :: "u8 \<Rightarrow> bool"
  ulPinType :: "u8 \<Rightarrow> u32"
  ulPinAttribute :: "u8 \<Rightarrow> u32"
  ulADCChannelNumber :: "u8 \<Rightarrow> int"
  PIO_NOT_A_PIN :: u32
  PIO_COM :: u32
  PIN_ATTR_ANALOG :: u32
  ADC_Channel0 :: int
  DAC_Channel0 :: int

definition samd_board_id :: "variant \<Rightarrow> usbio_board_id" where
  "samd_board_id v =
     (if macro v ''ARDUINO_SAMD_ZERO'' then USBIO_BOARD_ZERO
      else if macro v ''ARDUINO_SAMD_NANO_33_IOT'' then USBIO_BOARD_NANO_33_IOT
      else if macro v ''USE_ARDUINO_MKR_PIN_LAYOUT'' \<or> macro v ''ARDUINO_SAMD_MKRVIDOR4000''
      then USBIO_BOARD_MKR
      else USBIO_BOARD_SAMD_GENERIC)"

definition samd_pin_has_dio :: "variant \<Rightarrow> samd_core \<Rightarrow> u8 \<Rightarrow> bool" where
  "samd_pin_has_dio v c p =
     (if \<not> below_pins_count v p then False
      else ulPinType c p \<noteq> PIO_NOT_A_PIN c \<and> ulPinType c p \<noteq> PIO_COM c)"

definition samd_pin_has_dac :: "variant \<Rightarrow> samd_core \<Rightarrow> u8 \<Rightarrow> bool" where
  "samd_pin_has_dac v c p =
     (if \<not> below_pins_count v p then False
      else ulPinAttribute c p AND PIN_ATTR_ANALOG c \<noteq> 0 \<and>
        (ulADCChannelNumber c p = ADC_Channel0 c \<or> ulADCChannelNumber c p = DAC_Channel0 c))"

definition samd_board :: "variant \<Rightarrow> samd_core \<Rightarrow> board" where
  "samd_board v c = \<lparr>pin_count = named_pin_count v, pin_has_dio = samd_pin_has_dio v c,
     pin_has_ain = analog_header_pin v,
     pin_has_pwm = (\<lambda>p. samd_pin_has_dio v c p \<and> samd_has_pwm c p),
     pin_has_dac = samd_pin_has_dac v c, BoardId = board_id_code (samd_board_id v),
     AdcBits = 12, PwmBits = 10, DacBits = 10, VrefMv = 3300, IoMv = 3300, HasPulldown = True,
     has_stream_transport = True,
     transport_flags = USBIO_FLAG_VENDOR_INTERFACE OR USBIO_FLAG_STREAMING,
     stream_packet_max = USBIO_STREAM_EP_SIZE - 1, packet_buffer_len = 63\<rparr>"

text \<open>arduino-pico.\<close>

definition below_digital_pins :: "variant \<Rightarrow> u8 \<Rightarrow> bool" where
  "below_digital_pins v p \<longleftrightarrow> ucast p < NUM_DIGITAL_PINS v"

definition rp2040_board :: "variant \<Rightarrow> board" where
  "rp2040_board v = \<lparr>pin_count = named_pin_count v, pin_has_dio = below_digital_pins v,
     pin_has_ain = analog_header_pin v, pin_has_pwm = below_digital_pins v,
     pin_has_dac = (\<lambda>_. False),
     BoardId = board_id_code (if macro v ''ARDUINO_NANO_RP2040_CONNECT''
       then USBIO_BOARD_NANO_RP2040_CONNECT else USBIO_BOARD_RP2040_GENERIC),
     AdcBits = 12, PwmBits = 12, DacBits = 0, VrefMv = 3300, IoMv = 3300, HasPulldown = True,
     has_stream_transport = False, transport_flags = 0,
     stream_packet_max = USBIO_STREAM_EP_SIZE - 1, packet_buffer_len = 63\<rparr>"

text \<open>arduino-esp32: \<open>analog_channel\<close> is \<open>digitalPinToAnalogChannel\<close>, negative for none.\<close>

record esp32_core =
  analog_channel :: "u8 \<Rightarrow> int"
  DAC1 :: "u8 option"
  DAC2 :: "u8 option"

definition esp32_pin_has_dac :: "esp32_core \<Rightarrow> u8 \<Rightarrow> bool" where
  "esp32_pin_has_dac c p =
     (case (DAC1 c, DAC2 c) of (Some d1, Some d2) \<Rightarrow> p = d1 \<or> p = d2 | _ \<Rightarrow> False)"

definition esp32_board :: "variant \<Rightarrow> esp32_core \<Rightarrow> board" where
  "esp32_board v c = \<lparr>pin_count = named_pin_count v, pin_has_dio = below_digital_pins v,
     pin_has_ain = (\<lambda>p. 0 \<le> analog_channel c p), pin_has_pwm = below_digital_pins v,
     pin_has_dac = esp32_pin_has_dac c,
     BoardId = board_id_code (if macro v ''ARDUINO_NANO_ESP32''
       then USBIO_BOARD_NANO_ESP32 else USBIO_BOARD_ESP32_GENERIC),
     AdcBits = 12, PwmBits = 8, DacBits = (if DAC1 c \<noteq> None then 8 else 0), VrefMv = 3300,
     IoMv = 3300, HasPulldown = True, has_stream_transport = False, transport_flags = 0,
     stream_packet_max = USBIO_STREAM_EP_SIZE - 1, packet_buffer_len = 63\<rparr>"

section \<open>Every board is well formed\<close>

lemma named_pin_count_eq:
  "\<exists>n. named_pin_count v = ucast (clamp_to 128 (case PINS_COUNT v of Some c \<Rightarrow> clamp_to c n | None \<Rightarrow> n))"
  by (auto simp: named_pin_count_def Let_def)

lemma unat_clamp_to: "unat (clamp_to c n) = min (unat c) (unat n)"
  by (simp add: clamp_to_def word_less_nat_alt)

lemma unat_raise_to: "unat (raise_to c n) = max (unat c) (unat n)"
  by (simp add: raise_to_def word_less_nat_alt)

lemma unat_clamped_u8: "unat (ucast (clamp_to 128 n) :: u8) = min 128 (unat n)"
  by (simp add: unat_clamp_to unsigned_ucast_eq take_bit_nat_eq_self)

lemma named_pin_count_bounds:
  "unat (named_pin_count v) \<le> USBIO_MAX_PINS"
  "PINS_COUNT v = Some c \<Longrightarrow> unat (named_pin_count v) \<le> unat c"
  using named_pin_count_eq [of v] by (auto simp: unat_clamped_u8 unat_clamp_to)

lemma wf_boards:
  "wf_board (mbed_board v mc)" "wf_board (renesas_board v rc)" "wf_board (samd_board v sc)"
  "wf_board (rp2040_board v)" "wf_board (esp32_board v ec)"
  by (simp_all add: wf_board_def mbed_board_def renesas_board_def samd_board_def rp2040_board_def
      esp32_board_def named_pin_count_bounds)

text \<open>The pins a variant names: one past the last of each group, where the macro is defined.\<close>

definition named_ends :: "variant \<Rightarrow> nat list" where
  "named_ends v = unat (NUM_DIGITAL_PINS v)
     # (case PIN_A0 v of Some a0 \<Rightarrow> [unat a0 + unat (NUM_ANALOG_INPUTS v)] | None \<Rightarrow> [])
     @ concat (map (\<lambda>led. case led of Some l \<Rightarrow> [unat l + 1] | None \<Rightarrow> [])
         [LED_BUILTIN v, LEDR v, LEDG v, LEDB v, LED_PWR v])"

lemma unat_raise_led:
  "(\<And>l. led = Some l \<Longrightarrow> unat l + 1 < 2 ^ 32) \<Longrightarrow> unat (raise_led led n) =
     Max (insert (unat n) (set (case led of Some l \<Rightarrow> [unat l + 1] | None \<Rightarrow> [])))"
  by (auto simp: raise_led_def unat_raise_to unat_plus_if' max.commute split: option.split)

lemma Max_insert_Un:
  "finite (S :: nat set) \<Longrightarrow> finite T \<Longrightarrow> Max (insert (Max (insert n S)) T) = Max (insert n (S \<union> T))"
proof -
  assume fin: "finite S" "finite T"
  have "Max (insert n (S \<union> T)) = Max (insert n S \<union> insert n T)"
    by (simp add: insert_commute)
  also have "\<dots> = max (Max (insert n S)) (Max (insert n T))"
    using fin by (intro Max_Un) auto
  also have "\<dots> = Max (insert (Max (insert n S)) T)"
    using fin by (cases "T = {}"; cases "S = {}") (auto simp: max.assoc max.left_commute max.commute)
  finally show ?thesis ..
qed

lemma named_pin_count_max:
  assumes "\<forall>e \<in> set (named_ends v). e < 2 ^ 32"
  shows "unat (named_pin_count v) = min 128
    (case PINS_COUNT v of Some c \<Rightarrow> min (unat c) (Max (set (named_ends v)))
     | None \<Rightarrow> Max (set (named_ends v)))"
proof -
  let ?ends = "\<lambda>led. case led of Some l \<Rightarrow> [unat (l :: u32) + 1] | None \<Rightarrow> []"
  let ?a = "case PIN_A0 v of Some a0 \<Rightarrow> [unat a0 + unat (NUM_ANALOG_INPUTS v)] | None \<Rightarrow> []"
  let ?n1 = "case PIN_A0 v of Some a0 \<Rightarrow> raise_to (a0 + NUM_ANALOG_INPUTS v) (NUM_DIGITAL_PINS v)
    | None \<Rightarrow> NUM_DIGITAL_PINS v"
  let ?n6 = "raise_led (LED_PWR v) (raise_led (LEDB v) (raise_led (LEDG v)
    (raise_led (LEDR v) (raise_led (LED_BUILTIN v) ?n1))))"
  have n1: "unat ?n1 = Max (insert (unat (NUM_DIGITAL_PINS v)) (set ?a))"
    using assms by (auto simp: named_ends_def unat_raise_to unat_plus_if' max.commute split: option.split)
  have leds: "unat l + 1 < 2 ^ 32"
    if "led \<in> {LED_BUILTIN v, LEDR v, LEDG v, LEDB v, LED_PWR v}" "led = Some l" for led l
  proof -
    have "unat l + 1 \<in> set (named_ends v)"
      using that by (elim insertE emptyE; simp add: named_ends_def)
    with assms show ?thesis by blast
  qed
  have raise: "unat (raise_led led n) = Max (insert (unat n) (set (?ends led)))"
    if "led \<in> {LED_BUILTIN v, LEDR v, LEDG v, LEDB v, LED_PWR v}" for led n
    by (rule unat_raise_led) (rule leds [OF that])
  have "unat ?n6 = Max (insert (unat (NUM_DIGITAL_PINS v)) (set ?a \<union> set (?ends (LED_BUILTIN v))
      \<union> set (?ends (LEDR v)) \<union> set (?ends (LEDG v)) \<union> set (?ends (LEDB v)) \<union> set (?ends (LED_PWR v))))"
    by (simp only: raise n1 Max_insert_Un finite_set finite_Un insert_iff simp_thms)
  also have "\<dots> = Max (set (named_ends v))"
    by (rule arg_cong [where f = Max]) (auto simp: named_ends_def)
  finally have n6: "unat ?n6 = Max (set (named_ends v))" .
  have "named_pin_count v =
      ucast (clamp_to 128 (case PINS_COUNT v of Some c \<Rightarrow> clamp_to c ?n6 | None \<Rightarrow> ?n6))"
    by (simp add: named_pin_count_def Let_def)
  then show ?thesis
    unfolding n6 [symmetric] by (simp add: unat_clamped_u8 unat_clamp_to split: option.split)
qed

end
