(* ===== verification/Bench.thy ===== *)
theory Bench
  imports Boards
begin

text \<open>
  A simulated bench: an outside world with pads, converters, a clock and a bulk endpoint, and the
  Arduino core acting on it.  It makes the model runnable: the concrete runs that accompany the
  guarantees are evaluated on it, on the Nano 33 IoT layout of the SAMD core.
\<close>

record bench =
  pads :: "u8 \<Rightarrow> bool"
  adc :: "u8 \<Rightarrow> int"
  pwm :: "u8 \<Rightarrow> nat"
  clock_us :: nat
  taken :: "bytes list"
  answer :: write_result

definition bench_arduino :: "bench arduino" where
  "bench_arduino = \<lparr>
     pinMode = (\<lambda>p dir w. w),
     digitalWrite = (\<lambda>p v w. w\<lparr>pads := (pads w)(p := v)\<rparr>),
     digitalRead = (\<lambda>p w. (pads w p, w)),
     analogRead = (\<lambda>p w. (adc w p, w)),
     analogWrite = (\<lambda>p v w. w\<lparr>pwm := (pwm w)(p := v)\<rparr>),
     analogReadResolution = (\<lambda>_ w. w),
     analogWriteResolution = (\<lambda>_ w. w),
     millis = (\<lambda>w. (of_nat (clock_us w div 1000), w)),
     micros = (\<lambda>w. (of_nat (clock_us w), w)),
     stream_write = (\<lambda>bs w. (answer w,
       if answer w = USBIO_STREAM_WRITE_SENT then w\<lparr>taken := taken w @ [bs]\<rparr> else w))\<rparr>"

lemma bench_logs_packets: "logs_packets bench_arduino taken"
  by (simp add: logs_packets_def bench_arduino_def)

definition quiet_bench :: bench where
  "quiet_bench = \<lparr>pads = (\<lambda>_. False), adc = (\<lambda>_. 512), pwm = (\<lambda>_. 0), clock_us = 0, taken = [],
     answer = USBIO_STREAM_WRITE_SENT\<rparr>"

text \<open>A small SAMD variant: eight digital pins, of which pins 4 to 7 are analog inputs too.\<close>

definition bench_variant :: variant where
  "bench_variant = \<lparr>NUM_DIGITAL_PINS = 4, NUM_ANALOG_INPUTS = 4, PIN_A0 = Some 4,
     LED_BUILTIN = Some 3, LEDR = None, LEDG = None, LEDB = None, LED_PWR = None,
     PINS_COUNT = Some 8, DAC = None, macro = (\<lambda>m. m = ''ARDUINO_SAMD_NANO_33_IOT'')\<rparr>"

definition bench_core :: samd_core where
  "bench_core = \<lparr>samd_has_pwm = (\<lambda>p. p < 4), ulPinType = (\<lambda>_. 1), ulPinAttribute = (\<lambda>_. 4),
     ulADCChannelNumber = (\<lambda>p. int (unat p) - 4), PIO_NOT_A_PIN = 0, PIO_COM = 9,
     PIN_ATTR_ANALOG = 4, ADC_Channel0 = 0, DAC_Channel0 = 0\<rparr>"

definition bench_board :: board where
  "bench_board = samd_board bench_variant bench_core"

lemma wf_bench_board: "wf_board bench_board"
  by (simp add: bench_board_def wf_boards)

text \<open>The device after \<open>begin()\<close>, and after some SETUP packets.\<close>

definition started :: "fw \<times> bench" where
  "started = begin_device bench_board bench_arduino (construct bench_board) quiet_bench"

definition out_packet :: "usbio_request \<Rightarrow> u16 \<Rightarrow> u16 \<Rightarrow> setup_packet" where
  "out_packet req value index = \<lparr>bmRequestType = 0x40, bRequest = request_code req,
     wValue = value, wIndex = index, wLength = 0\<rparr>"

definition in_packet :: "usbio_request \<Rightarrow> u16 \<Rightarrow> u16 \<Rightarrow> setup_packet" where
  "in_packet req index len = \<lparr>bmRequestType = 0xC0, bRequest = request_code req,
     wValue = 0, wIndex = index, wLength = len\<rparr>"

definition send :: "setup_packet \<Rightarrow> fw \<times> bench \<Rightarrow> fw \<times> bench" where
  "send p c = (case c of (s, w) \<Rightarrow> snd (handle_setup bench_board bench_arduino p s w))"

definition sketch_poll :: "fw \<times> bench \<Rightarrow> fw \<times> bench" where
  "sketch_poll c = (case c of (s, w) \<Rightarrow> poll bench_board bench_arduino s w)"

text \<open>The stages of \<open>poll\<close> one after the other, the form in which the runs are evaluated.\<close>

lemma sketch_poll_stages [code]:
  "sketch_poll c =
     (case (case (case (case c of
          (s, w) \<Rightarrow> poll_loop bench_board bench_arduino s w) of
          (s, w) \<Rightarrow> refresh_shadow bench_arduino s w) of
          (s, w) \<Rightarrow> event_poll bench_arduino s w) of
          (s, w) \<Rightarrow> stream_poll bench_board bench_arduino s w)"
  by (simp add: sketch_poll_def poll_def bench_board_def samd_board_def case_prod_beta)

lemma bench_reachable:
  "reachable bench_board bench_arduino started"
  "reachable bench_board bench_arduino c \<Longrightarrow> reachable bench_board bench_arduino (send p c)"
  "reachable bench_board bench_arduino c \<Longrightarrow> reachable bench_board bench_arduino (sketch_poll c)"
proof -
  show "reachable bench_board bench_arduino started"
    unfolding started_def by (rule reachable.start)
  show "reachable bench_board bench_arduino (send p c)" if c: "reachable bench_board bench_arduino c"
    by (rule reachable.step [OF c], cases c,
        cases "handle_setup bench_board bench_arduino p (fst c) (snd c)")
      (auto simp: send_def case_prod_beta intro: device_step.packet)
  show "reachable bench_board bench_arduino (sketch_poll c)" if c: "reachable bench_board bench_arduino c"
    by (rule reachable.step [OF c], cases c,
        cases "poll bench_board bench_arduino (fst c) (snd c)")
      (auto simp: sketch_poll_def case_prod_beta intro: device_step.polled)
qed

end
