(* ===== verification/Effects.thy ===== *)
theory Effects
  imports Device
begin

text \<open>
  What the firmware may do to the outside world.  \<open>monitored\<close> says that a property \<open>P\<close> of the
  world survives every call the pins' capabilities permit; \<open>poll_effects\<close> shows that it then
  survives a whole \<open>poll()\<close>, so \<open>poll()\<close> makes no other call: it configures and drives digital
  pins only, samples analog pins only, writes in-range duties to PWM and DAC pins only, and
  sends no bulk packet longer than the transport takes.
\<close>

section \<open>The permitted calls\<close>

definition may_drive :: "board \<Rightarrow> fw \<Rightarrow> u8 \<Rightarrow> nat \<Rightarrow> bool" where
  "may_drive b s p v \<longleftrightarrow>
     (fw_caps s p AND USBIO_CAP_PWM \<noteq> 0 \<or> fw_caps s p AND USBIO_CAP_DAC \<noteq> 0) \<and>
     v < 2 ^ unat (PwmBits b)"

definition monitored :: "board \<Rightarrow> 'h arduino \<Rightarrow> fw \<Rightarrow> ('h \<Rightarrow> bool) \<Rightarrow> bool" where
  "monitored b A s P \<longleftrightarrow> (\<forall>h. P h \<longrightarrow>
     (\<forall>p dir. fw_caps s p AND USBIO_CAP_DIO \<noteq> 0 \<longrightarrow>
        (dir = INPUT_PULLDOWN \<longrightarrow> HasPulldown b) \<longrightarrow> P (pinMode A p dir h)) \<and>
     (\<forall>p v. fw_caps s p AND USBIO_CAP_DIO \<noteq> 0 \<longrightarrow> P (digitalWrite A p v h)) \<and>
     (\<forall>p v. may_drive b s p v \<longrightarrow> P (analogWrite A p v h)) \<and>
     (\<forall>p. fw_caps s p AND USBIO_CAP_AIN \<noteq> 0 \<longrightarrow> P (snd (analogRead A p h))) \<and>
     (\<forall>p. P (snd (digitalRead A p h))) \<and> P (snd (millis A h)) \<and> P (snd (micros A h)) \<and>
     (\<forall>bs. length bs \<le> unat (stream_packet_max b) \<longrightarrow> P (snd (stream_write A bs h))))"

lemma monitored_caps: "fw_caps s' = fw_caps s \<Longrightarrow> monitored b A s' P = monitored b A s P"
  by (simp add: monitored_def may_drive_def)

lemma monitoredD:
  assumes "monitored b A s P" and "P h"
  shows "fw_caps s p AND USBIO_CAP_DIO \<noteq> 0 \<Longrightarrow> (dir = INPUT_PULLDOWN \<Longrightarrow> HasPulldown b) \<Longrightarrow>
      P (pinMode A p dir h)"
    and "fw_caps s p AND USBIO_CAP_DIO \<noteq> 0 \<Longrightarrow> P (digitalWrite A p v h)"
    and "may_drive b s p n \<Longrightarrow> P (analogWrite A p n h)"
    and "fw_caps s p AND USBIO_CAP_AIN \<noteq> 0 \<Longrightarrow> analogRead A p h = (x, h1) \<Longrightarrow> P h1"
    and "digitalRead A p h = (y, h1) \<Longrightarrow> P h1"
    and "millis A h = (us, h1) \<Longrightarrow> P h1" and "micros A h = (us, h1) \<Longrightarrow> P h1"
    and "length bs \<le> unat (stream_packet_max b) \<Longrightarrow> stream_write A bs h = (r, h1) \<Longrightarrow> P h1"
  using assms unfolding monitored_def by (metis snd_conv)+

lemma reads_monitored:
  assumes "monitored b A s P" and "P h"
  shows "P (snd (read_pin A p h))"
    and "fw_caps s p AND USBIO_CAP_AIN \<noteq> 0 \<Longrightarrow> P (snd (read_analog A p h))"
  using monitoredD(4,5) [OF assms] by (auto simp: read_pin_def read_analog_def split: prod.split)

section \<open>Commands\<close>

text \<open>A mode's capability, and the full scale a written value stays below.\<close>

lemma mode_allowed_caps:
  "mode_allowed b caps USBIO_MODE_ANALOG_IN \<Longrightarrow> caps AND USBIO_CAP_AIN \<noteq> 0"
  "mode_allowed b caps USBIO_MODE_PWM \<Longrightarrow> caps AND USBIO_CAP_PWM \<noteq> 0"
  "mode_allowed b caps USBIO_MODE_DAC \<Longrightarrow> caps AND USBIO_CAP_DAC \<noteq> 0"
  "mode_allowed b caps USBIO_MODE_INPUT_PULLDOWN \<Longrightarrow> HasPulldown b"
  "m \<noteq> USBIO_MODE_ANALOG_IN \<Longrightarrow> m \<noteq> USBIO_MODE_PWM \<Longrightarrow> m \<noteq> USBIO_MODE_DAC \<Longrightarrow>
     mode_allowed b caps m \<Longrightarrow> caps AND USBIO_CAP_DIO \<noteq> 0"
  by (cases m; simp)+

lemma unat_full_scale: "unat bits \<le> 16 \<Longrightarrow> unat (full_scale bits) = 2 ^ unat bits - 1"
proof -
  assume bits: "unat bits \<le> 16"
  show ?thesis
  proof (cases "unat bits = 16")
    case True
    then show ?thesis
      by (simp add: full_scale_def word_le_nat_alt)
  next
    case False
    with bits have small: "(2 :: nat) ^ unat bits < 2 ^ 16"
      by (intro power_strict_increasing) auto
    then have exp: "unat (push_bit (unat bits) (1 :: u16)) = 2 ^ unat bits"
      using bits False unfolding unsigned_push_bit_eq
      by (simp add: take_bit_nat_eq_self push_bit_eq_mult)
    then have "push_bit (unat bits) (1 :: u16) \<noteq> 0"
      by (metis power_not_zero unat_0 zero_neq_numeral)
    with exp bits False show ?thesis
      by (simp add: full_scale_def word_le_nat_alt unat_minus_one)
  qed
qed

lemma apply_mode_effects:
  assumes mon: "monitored b A s P" and P: "P h" and ok: "mode_allowed b (fw_caps s p) m"
  shows "P (snd (apply_mode b A p m s h))"
proof -
  have digital: "P (snd (read_pin A p (pinMode A p dir h)))"
    if "fw_caps s p AND USBIO_CAP_DIO \<noteq> 0" "dir = INPUT_PULLDOWN \<Longrightarrow> HasPulldown b" for dir
    by (rule reads_monitored(1) [OF mon monitoredD(1) [OF mon P that]])
  have drive: "P (analogWrite A p 0 h)" if "m = USBIO_MODE_PWM \<or> m = USBIO_MODE_DAC"
    using that ok by (intro monitoredD(3) [OF mon P]) (auto simp: may_drive_def)
  show ?thesis
    using ok digital drive reads_monitored(2) [OF mon P]
    by (cases m) (auto simp: apply_mode_def Let_def case_prod_beta)
qed

text \<open>A DAC value is shifted up to the write resolution without leaving it.\<close>

lemma dac_shift_bound:
  assumes "v < 2 ^ d" and "d \<le> (w :: nat)"
  shows "v * 2 ^ (w - d) < (2 :: nat) ^ w"
proof -
  have "v * 2 ^ (w - d) < 2 ^ d * 2 ^ (w - d)"
    using assms(1) by simp
  also have "\<dots> = 2 ^ w"
    using assms(2) by (simp flip: power_add)
  finally show ?thesis .
qed

lemma execute_effects:
  assumes mon: "monitored b A s P" and P: "P h" and ok: "command_ok b s c" and wf: "wf_board b"
  shows "P (snd (execute b A c s h))"
proof -
  have bits: "unat (DacBits b) \<le> unat (PwmBits b)" "unat (PwmBits b) \<le> 16"
    using wf by (simp_all add: wf_board_def word_le_nat_alt)
  have below: "v \<le> full_scale k \<Longrightarrow> unat k \<le> 16 \<Longrightarrow> unat v < 2 ^ unat k" for v k
    by (simp add: word_le_nat_alt unat_full_scale)
      (metis One_nat_def Suc_pred le_imp_less_Suc zero_less_numeral zero_less_power)
  let ?p = "cmd_pin c" and ?v = "cmd_value c"
  have pwm: "may_drive b s ?p (unat ?v)"
    if "fw_caps s ?p AND USBIO_CAP_PWM \<noteq> 0" "?v \<le> full_scale (PwmBits b)"
    using that below bits by (simp add: may_drive_def)
  have dac: "may_drive b s ?p (unat ?v * 2 ^ (unat (PwmBits b) - unat (DacBits b)))"
    if "fw_caps s ?p AND USBIO_CAP_DAC \<noteq> 0" "?v \<le> full_scale (DacBits b)"
    using that below bits by (simp add: may_drive_def dac_shift_bound)
  show ?thesis
    using ok apply_mode_effects [OF mon P] monitoredD(2,3) [OF mon P] pwm dac
    by (cases "cmd_request c") (auto simp: execute_def command_ok_def P split: option.splits)
qed

section \<open>The stages of poll\<close>

lemma fold_effects:
  assumes "\<And>x s h. x \<in> set xs \<Longrightarrow> Q s \<Longrightarrow> P h \<Longrightarrow> Q (fst (f x (s, h))) \<and> P (snd (f x (s, h)))"
    and "Q s" and "P h"
  shows "Q (fst (fold f xs (s, h))) \<and> P (snd (fold f xs (s, h)))"
  using assms
proof (induction xs arbitrary: s h)
  case Nil
  then show ?case by simp
next
  case (Cons x xs)
  obtain s1 h1 where f: "f x (s, h) = (s1, h1)" by fastforce
  then have "Q s1 \<and> P h1"
    using Cons.prems(1) [of x s h] Cons.prems(2,3) by simp
  then show ?case
    using Cons.IH [of s1 h1] Cons.prems(1) by (simp add: f)
qed

lemma apply_reset_effects:
  assumes mon: "monitored b A s P" and P: "P h"
  shows "P (snd (apply_reset A s h))"
proof -
  let ?Q = "\<lambda>t. shadow_change s t"
  have "?Q (fst (fold (reset_pin A) (pins_below (fw_n_pins s)) (s, h))) \<and>
      P (snd (fold (reset_pin A) (pins_below (fw_n_pins s)) (s, h)))"
  proof (rule fold_effects [where Q = ?Q])
    fix p t g
    assume t: "?Q t" and g: "P g"
    have mon_t: "monitored b A t P"
      using mon shadow_change_fields(3) [OF t] by (simp add: monitored_def may_drive_def)
    have "P (snd (read_pin A p (pinMode A p INPUT g)))" if "fw_caps t p AND USBIO_CAP_DIO \<noteq> 0"
      by (rule reads_monitored(1) [OF mon_t monitoredD(1) [OF mon_t g that]]) simp
    then have "P (snd (reset_pin A p (t, g)))"
      using g by (simp add: reset_pin_def case_prod_beta Let_def)
    with shadow_change_trans [OF t reset_pin_shadow [of t A p g]]
    show "?Q (fst (reset_pin A p (t, g))) \<and> P (snd (reset_pin A p (t, g)))" ..
  qed (use P in simp_all)
  then show ?thesis
    by (simp add: apply_reset_def case_prod_beta)
qed

lemma run_commands_effects:
  assumes mon: "monitored b A s P" and P: "P h" and wf: "wf_board b"
    and ok: "\<forall>c \<in> set cs. command_ok b s c"
  shows "P (snd (run_commands b A cs (s, h)))"
proof -
  let ?Q = "\<lambda>t. shadow_change s t" and ?f = "\<lambda>c (t, g). execute b A c t g"
  have "?Q (fst (fold ?f cs (s, h))) \<and> P (snd (fold ?f cs (s, h)))"
  proof (rule fold_effects [where Q = ?Q])
    fix c t g
    assume c: "c \<in> set cs" and t: "?Q t" and g: "P g"
    have "monitored b A t P"
      using mon shadow_change_fields(3) [OF t] by (simp add: monitored_def may_drive_def)
    moreover have "command_ok b t c = command_ok b s c"
      by (rule command_ok_cong) (rule shadow_change_fields [OF t])+
    ultimately have "P (snd (execute b A c t g))"
      using ok c g wf execute_effects [where P = P and s = t and h = g] by blast
    with shadow_change_trans [OF t execute_shadow [of t b A c g]]
    show "?Q (fst (case (t, g) of (t, g) \<Rightarrow> execute b A c t g)) \<and>
        P (snd (case (t, g) of (t, g) \<Rightarrow> execute b A c t g))"
      by simp
  qed (use P in simp_all)
  then show ?thesis
    by (simp add: run_commands_def)
qed

lemma poll_loop_effects:
  assumes mon: "monitored b A s P" and P: "P h" and inv: "queue_inv b s" and wf: "wf_board b"
  shows "P (snd (poll_loop b A s h))"
proof -
  obtain s1 h1 where r: "reset_loop A s h = (s1, h1)" by fastforce
  have sh: "shadow_change (s\<lparr>fw_reset_done := fw_reset_requests s\<rparr>) s1"
    using reset_loop_shadow [of s A h] by (simp add: r)
  note f = shadow_change_fields(1,3,4) [OF sh]
  have "P h1"
    using apply_reset_effects [OF mon P] P arg_cong [OF r, of snd]
    by (cases "apply_reset A s h") (auto simp: reset_loop_eq split: if_splits)
  moreover have "monitored b A (empty_queue s1) P"
    using mon f by (simp add: monitored_def may_drive_def empty_queue_def)
  moreover have "\<forall>c \<in> set (live_commands s1). command_ok b (empty_queue s1) c"
  proof
    fix c
    assume "c \<in> set (live_commands s1)"
    then have "command_ok b s c"
      using inv f(3) by (simp add: live_commands_def queue_inv_def)
    moreover have "command_ok b (empty_queue s1) c = command_ok b s c"
      by (rule command_ok_cong) (use f in \<open>simp_all add: empty_queue_def\<close>)
    ultimately show "command_ok b (empty_queue s1) c"
      by blast
  qed
  ultimately have "P (snd (run_commands b A (live_commands s1) (empty_queue s1, h1)))"
    using wf run_commands_effects [where P = P and s = "empty_queue s1" and h = h1] by blast
  then show ?thesis
    by (simp add: poll_loop_eq r drain_loop_eq)
qed

text \<open>A pin in ANALOG_IN mode can be sampled.\<close>

lemma analog_pin:
  "mode_inv b s \<Longrightarrow> fw_mode s p = Some USBIO_MODE_ANALOG_IN \<Longrightarrow> fw_caps s p AND USBIO_CAP_AIN \<noteq> 0"
  unfolding mode_inv_def by (metis mode_allowed_caps(1))

lemma sample_next_analog_effects:
  assumes "monitored b A s P" and "P h" and "mode_inv b s"
  shows "P (snd (sample_next_analog A k s h))"
  using assms
proof (induction k arbitrary: s)
  case 0
  then show ?case by simp
next
  case (Suc k)
  let ?s1 = "s\<lparr>fw_ain_cursor := (fw_ain_cursor s + 1) mod fw_n_pins s\<rparr>"
  have "monitored b A ?s1 P" "mode_inv b ?s1"
    using Suc.prems by (simp_all add: monitored_def may_drive_def mode_inv_def)
  then show ?case
    using Suc.IH [of ?s1] Suc.prems reads_monitored(2) [OF Suc.prems(1,2)] analog_pin [OF Suc.prems(3)]
    by (simp add: Let_def case_prod_beta)
qed

lemma refresh_shadow_effects:
  assumes mon: "monitored b A s P" and P: "P h" and modes: "mode_inv b s"
  shows "P (snd (refresh_shadow A s h))"
proof -
  let ?Q = "\<lambda>t. shadow_change s t" and ?pins = "pins_below (fw_n_pins s)"
  have fold: "?Q (fst (fold (refresh_pin A) ?pins (s, h))) \<and> P (snd (fold (refresh_pin A) ?pins (s, h)))"
  proof (rule fold_effects [where Q = ?Q])
    fix p t g
    assume t: "?Q t" and g: "P g"
    have "monitored b A t P"
      using mon shadow_change_fields(3) [OF t] by (simp add: monitored_def may_drive_def)
    then have "P (snd (refresh_pin A p (t, g)))"
      using g reads_monitored(1) [of b A t P g p] by (simp add: refresh_pin_def case_prod_beta)
    with shadow_change_trans [OF t refresh_pin_shadow [of t A p g]]
    show "?Q (fst (refresh_pin A p (t, g))) \<and> P (snd (refresh_pin A p (t, g)))" ..
  qed (use P in simp_all)
  obtain s1 h1 where r: "fold (refresh_pin A) ?pins (s, h) = (s1, h1)" by fastforce
  then have sh: "shadow_change s s1" and h1: "P h1"
    using fold by simp_all
  have "monitored b A s1 P" "mode_inv b s1"
    using mon modes shadow_change_fields(1-3) [OF sh]
    by (simp_all add: monitored_def may_drive_def mode_inv_def)
  then have "P (snd (sample_next_analog A (unat (fw_n_pins s1)) s1 h1))"
    using h1 sample_next_analog_effects [where P = P and s = s1 and h = h1] by blast
  then show ?thesis
    using P by (simp add: refresh_shadow_def r)
qed

lemma event_poll_effects:
  assumes "monitored b A s P" and "P h"
  shows "P (snd (event_poll A s h))"
  using assms monitoredD(6) [OF assms] by (simp add: event_poll_def case_prod_beta) (metis surjective_pairing)

section \<open>Streaming\<close>

lemma sample_channels_effects:
  assumes mon: "monitored b A s P" and modes: "mode_inv b s"
  shows "P h \<Longrightarrow> P (snd (sample_channels A s ps h))"
proof (induction ps arbitrary: h)
  case Nil
  then show ?case by simp
next
  case (Cons p ps)
  show ?case
    using Cons.IH reads_monitored [OF mon Cons.prems, of p] analog_pin [OF modes, of p]
    by (simp add: Let_def case_prod_beta)
qed

lemma stream_start_effects:
  assumes mon: "monitored b A s P" and P: "P h"
  shows "P (snd (apply_start A s h))"
  using P monitoredD(7) [OF mon P] by (simp add: apply_start_def case_prod_beta) (metis surjective_pairing)

lemma take_due_sample_effects:
  assumes mon: "monitored b A s P" and P: "P h" and modes: "mode_inv b s"
  shows "P (snd (take_due_sample A s h))"
proof -
  obtain now h1 where m: "micros A h = (now, h1)" by fastforce
  have h1: "P h1"
    by (rule monitoredD(7) [OF mon P m])
  have "P (snd (stream_sample A now s h1))"
    using sample_channels_effects [OF mon modes h1]
    by (simp add: stream_sample_def case_prod_beta Let_def)
  then show ?thesis
    using P h1 by (simp add: take_due_sample_def m case_prod_beta)
qed

lemma pack_records_effects:
  "monitored b A s P \<Longrightarrow> P h \<Longrightarrow> P (snd (pack_records b A s h))"
proof (induction b A s h rule: pack_records.induct)
  case (1 b A s h)
  obtain us h1 where m: "micros A h = (us, h1)" by fastforce
  have h1: "P h1"
    by (rule monitoredD(7) [OF 1(3,4) m])
  have mon: "monitored b A (pack_record x s) P" for x
    using 1(3) by (simp add: monitored_def may_drive_def pack_record_def Let_def)
  show ?case
    using 1(1) [OF _ _ _ m [symmetric] refl mon h1] 1(2) [OF _ _ _ mon 1(4)] 1(4)
    by (subst pack_records.simps) (simp add: m)
qed

lemma send_packet_effects:
  assumes mon: "monitored b A s P" and P: "P h" and inv: "stream_inv b s"
  shows "P (snd (send_packet b A s h))"
proof -
  have "length (packet s) \<le> unat (stream_packet_max b)"
    using inv by (simp add: packet_def stream_inv_def min.coboundedI2)
  then have flush: "P (snd (flush_packet b A s g))" if "P g" for g
    using monitoredD(8) [OF mon that, of "packet s"]
    by (cases "stream_write A (packet s) g"; cases "fst (stream_write A (packet s) g)")
      (auto simp: flush_packet_cases)
  obtain us h1 where m: "micros A h = (us, h1)" by fastforce
  have "P h1"
    by (rule monitoredD(7) [OF mon P m])
  then show ?thesis
    using P flush by (simp add: send_packet_def m)
qed

lemma stream_poll_effects:
  assumes mon: "monitored b A s P" and P: "P h" and modes: "mode_inv b s"
    and inv: "stream_inv b s" and wf: "wf_board b" and pins: "unat (fw_n_pins s) \<le> 128"
  shows "P (snd (stream_poll b A s h))"
proof -
  obtain s1 h1 where r1: "apply_start A s h = (s1, h1)" by fastforce
  obtain s2 h2 where r2: "take_due_sample A s1 h1 = (s2, h2)" by fastforce
  obtain s3 h3 where r3: "pack_records b A s2 h2 = (s3, h3)" by fastforce
  have c1: "same_core s s1" and c2: "same_core s1 s2" and c3: "same_core s2 s3"
    using apply_start_core [of s A h] take_due_sample_core [of s1 A h1]
      pack_records_core [of s2 b A h2] by (simp_all add: r1 r2 r3)
  have core: "monitored b A t P \<and> mode_inv b t \<and> fw_n_pins t = fw_n_pins s" if "same_core s t" for t
    using that mon modes by (auto simp: same_core_def monitored_def may_drive_def mode_inv_def)
  note k1 = core [OF c1] and k2 = core [OF same_core_trans [OF c1 c2]]
    and k3 = core [OF same_core_trans [OF same_core_trans [OF c1 c2] c3]]
  have i1: "stream_inv b s1"
    using apply_start_inv [OF inv, of A h] by (simp add: r1)
  have i2: "stream_inv b s2"
    using take_due_sample_inv [OF i1, of A h1] k1 pins by (simp add: r2)
  have i3: "stream_inv b s3"
    using pack_records_inv [OF i2 wf, of A h2] by (simp add: r3)
  have "P h1"
    using stream_start_effects [OF mon P] by (simp add: r1)
  then have "P h2"
    using take_due_sample_effects [of b A s1 P h1] k1 by (simp add: r2)
  then have "P h3"
    using pack_records_effects [of b A s2 P h2] k2 by (simp add: r3)
  then show ?thesis
    using send_packet_effects [of b A s3 P h3] k3 i3
    by (simp add: stream_poll_def r1 r2 r3)
qed

section \<open>The whole poll\<close>

lemma poll_effects:
  assumes mon: "monitored b A s P" and P: "P h" and inv: "fw_inv b s" and wf: "wf_board b"
  shows "P (snd (poll b A s h))"
proof -
  obtain s1 h1 where r1: "poll_loop b A s h = (s1, h1)" by fastforce
  obtain s2 h2 where r2: "refresh_shadow A s1 h1 = (s2, h2)" by fastforce
  obtain s3 h3 where r3: "event_poll A s2 h2 = (s3, h3)" by fastforce
  have i1: "fw_inv b s1"
    using poll_loop_inv [OF inv, of A h] by (simp add: r1)
  have i2: "fw_inv b s2"
    using refresh_shadow_inv [OF i1, of A h1] by (simp add: r2)
  have i3: "fw_inv b s3"
    using event_poll_inv [OF i2, of A h2] by (simp add: r3)
  have c1: "fw_caps s1 = fw_caps s"
    using shadow_change_fields(3) [OF poll_loop_shadow [of s b A h]]
    by (simp add: r1 empty_queue_def)
  have c2: "fw_caps s2 = fw_caps s"
    using shadow_change_fields(3) [OF refresh_shadow_shadow [of s1 A h1]] c1 by (simp add: r2)
  have c3: "fw_caps s3 = fw_caps s"
    using event_change_fields(3) [OF event_poll_change [of s2 A h2]] c2 by (simp add: r3)
  have mons: "monitored b A s1 P" "monitored b A s2 P" "monitored b A s3 P"
    using mon c1 c2 c3 by (simp_all add: monitored_def may_drive_def)
  have "P h1"
    using poll_loop_effects [OF mon P _ wf] inv by (simp add: r1 fw_inv_def)
  then have "P h2"
    using refresh_shadow_effects [of b A s1 P h1] mons(1) i1
    by (simp add: r2 fw_inv_def)
  then have h3: "P h3"
    using event_poll_effects [of b A s2 P h2] mons(2) by (simp add: r3)
  moreover have "P (snd (stream_poll b A s3 h3))"
    using h3 stream_poll_effects [of b A s3 P h3] mons(3) i3 wf
    by (simp add: fw_inv_def pins_inv_def)
  ultimately show ?thesis
    by (simp add: poll_def r1 r2 r3)
qed

end
