(* ===== verification/Guarantees.thy ===== *)
theory Guarantees
  imports Bench Effects
begin

text \<open>
  What the firmware guarantees, each statement followed by a concrete run on the bench where it
  has hypotheses.  The proofs are applications of the component theories.
\<close>

section \<open>Reachable states\<close>

text \<open>Every state the device can reach from \<open>begin()\<close> by SETUP packets, \<open>poll()\<close> calls and
  disconnects satisfies the invariant: pin and analog counts within the protocol limits, no pin in
  a mode its capabilities exclude, queued commands validated for their pins, the rings within
  their depth, at most eight distinct watched pins (all existing, digital and in an INPUT mode),
  queued events of existing pins, distinct existing stream channels, records of even length that
  fit a slot and a packet within the transport's limit.\<close>

theorem reachable_states_keep_invariant:
  assumes "reachable b A c" and "wf_board b"
  shows "fw_inv b (fst c)"
  by (rule reachable_inv [OF assms])

definition armed_run :: "fw \<times> bench" where
  "armed_run = sketch_poll (send (out_packet USBIO_REQ_EVENT_CONFIG 0x0A03 2)
     (send (out_packet USBIO_REQ_PIN_MODE 2 2) started))"

lemma armed_run_reachable: "reachable bench_board bench_arduino armed_run"
  unfolding armed_run_def by (intro bench_reachable)

theorem reachable_states_witness:
  "fw_inv bench_board (fst armed_run) \<and> fw_n_watched (fst armed_run) = 1"
  by (rule conjI, rule reachable_states_keep_invariant [OF armed_run_reachable wf_bench_board]) code_simp

section \<open>Requests\<close>

text \<open>C2. In every reachable state an OUT request is refused exactly when one of the refusals the
  protocol lists for it applies, with the first one as the reason; a refused request changes
  nothing but the last-error register.\<close>

theorem out_requests_follow_their_refusals:
  assumes "reachable b A c" and "wf_board b"
  shows "case out_error b code v i len (fst c) of
      None \<Rightarrow> fst (handle_out b code v i len (fst c))
    | Some e \<Rightarrow> handle_out b code v i len (fst c) = (False, (fst c)\<lparr>fw_last_error := e\<rparr>)"
  using reachable_inv [OF assms] by (intro handle_out_spec) (simp add: fw_inv_def stream_inv_def)

theorem out_requests_witness:
  "out_error bench_board 0x04 1 2 0 (fst armed_run) = Some USBIO_BAD_MODE \<and>
   handle_out bench_board 0x04 1 2 0 (fst armed_run) =
     (False, (fst armed_run)\<lparr>fw_last_error := USBIO_BAD_MODE\<rparr>)"
proof -
  have verdict: "out_error bench_board 0x04 1 2 0 (fst armed_run) = Some USBIO_BAD_MODE"
    by code_simp
  show ?thesis
    using out_requests_follow_their_refusals [OF armed_run_reachable wf_bench_board,
      where code = "0x04" and v = 1 and i = 2 and len = 0]
    by (simp add: verdict)
qed

text \<open>An IN request stalls only when it is unknown, is an OUT request, or asks for the stream
  status of a device without a stream; then it changes nothing but the last-error register.\<close>

theorem in_requests_stall_only_when_unsupported:
  "case in_error b code s of
     None \<Rightarrow> fst (handle_in b A code i len s h) \<noteq> None
   | Some e \<Rightarrow> handle_in b A code i len s h = (None, s\<lparr>fw_last_error := e\<rparr>, h)"
  using handle_in_verdict [of b A code i len s h]
  by (cases "handle_in b A code i len s h") (auto split: option.splits)

text \<open>C4. In every reachable state a reply fits the 128 byte reply buffer and the length the host
  asked for, whatever the request.\<close>

theorem replies_fit:
  assumes "reachable b A c" and "wf_board b"
    and "fst (handle_in b A code i len (fst c) h) = Some reply"
  shows "length reply \<le> unat len \<and> length reply \<le> USBIO_MAX_REPLY_LEN"
  using reachable_inv [OF assms(1,2)] handle_in_length [of "fst c" b A code i len h reply] assms(3)
  by (cases "handle_in b A code i len (fst c) h") (simp add: fw_inv_def)

theorem replies_fit_witness:
  "length (the (fst (handle_in bench_board bench_arduino 0x00 0 10 (fst armed_run) (snd armed_run)))) \<le> 10"
proof -
  have "fst (handle_in bench_board bench_arduino 0x00 0 10 (fst armed_run) (snd armed_run)) \<noteq> None"
    by code_simp
  then obtain reply where
    "fst (handle_in bench_board bench_arduino 0x00 0 10 (fst armed_run) (snd armed_run)) = Some reply"
    by auto
  then show ?thesis
    using replies_fit [OF armed_run_reachable wf_bench_board, where code = 0 and i = 0 and len = 10
        and h = "snd armed_run" and reply = reply] by simp
qed

section \<open>Commands\<close>

text \<open>C5. A burst of accepted requests is queued in order behind what is already queued, up to the
  queue depth of 32; the rest is refused and disturbs nothing.  The one that finds the queue full
  is told so: \<open>enqueue\<close> returns true exactly for those that are queued.\<close>

theorem command_bursts_queue_in_order:
  assumes "reachable b A c" and "wf_board b"
  shows "queued_requests (fold put_command rs (fst c)) =
      queued_requests (fst c) @ take (32 - length (queued_requests (fst c))) rs \<and>
    (\<forall>k < length rs. case rs ! k of (req, pin, val) \<Rightarrow>
      fst (enqueue req pin val (fold put_command (take k rs) (fst c))) \<longleftrightarrow>
        length (queued_requests (fst c)) + k < 32)"
proof (intro conjI allI impI)
  have queued: "queued_requests (fold put_command xs (fst c)) =
      queued_requests (fst c) @ take (32 - length (queued_requests (fst c))) xs" for xs
    using reachable_inv [OF assms]
    by (intro cmd_fifo.contents_puts) (simp add: fw_inv_def queue_inv_def)
  then show "queued_requests (fold put_command rs (fst c)) =
      queued_requests (fst c) @ take (32 - length (queued_requests (fst c))) rs" .
  fix k
  assume "k < length rs"
  then have "length (commands (fold put_command (take k rs) (fst c))) =
      length (queued_requests (fst c)) + min k (32 - length (queued_requests (fst c)))"
    using arg_cong [OF queued [of "take k rs"], of length] by (simp add: queued_requests_def min.commute)
  then show "case rs ! k of (req, pin, val) \<Rightarrow>
      fst (enqueue req pin val (fold put_command (take k rs) (fst c))) \<longleftrightarrow>
        length (queued_requests (fst c)) + k < 32"
    by (auto simp: enqueue_iff split: prod.split)
qed

theorem command_bursts_witness:
  "length (queued_requests (fold put_command (replicate 40 (USBIO_REQ_DIO_WRITE, 3, 1)) (fst armed_run))) = 32"
proof -
  have "queued_requests (fst armed_run) = []"
    by code_simp
  then show ?thesis
    unfolding command_bursts_queue_in_order [OF armed_run_reachable wf_bench_board, THEN conjunct1] by simp
qed

text \<open>C6. One \<open>poll()\<close> serves a pending RESET first, then executes exactly the queued commands of the
  current epoch, oldest first, and leaves the queue empty.\<close>

theorem poll_executes_live_commands_in_order:
  "poll_loop b A s h =
     (let (s1, h1) =
        (if fw_reset_done s = fw_reset_requests s then (s, h)
         else case apply_reset A s h of (t, g) \<Rightarrow> (t\<lparr>fw_reset_done := fw_reset_requests s\<rparr>, g))
      in run_commands b A (filter (\<lambda>c. cmd_epoch c = fw_epoch s) (commands s)) (empty_queue s1, h1))"
proof -
  obtain s1 h1 where r: "reset_loop A s h = (s1, h1)" by fastforce
  then have sh: "shadow_change (s\<lparr>fw_reset_done := fw_reset_requests s\<rparr>) s1"
    using reset_loop_shadow [of s A h] by simp
  have live: "live_commands s1 = filter (\<lambda>c. cmd_epoch c = fw_epoch s) (commands s)"
    using shadow_change_fields(4,5) [OF sh] by (simp add: live_commands_def)
  have reset: "(if fw_reset_done s = fw_reset_requests s then (s, h)
      else case apply_reset A s h of (t, g) \<Rightarrow> (t\<lparr>fw_reset_done := fw_reset_requests s\<rparr>, g)) = (s1, h1)"
    unfolding r [symmetric] by (simp add: reset_loop_eq)
  show ?thesis
    unfolding reset by (simp add: poll_loop_eq r drain_loop_eq live)
qed

text \<open>After any \<open>poll()\<close> the device has no work pending: the queue is empty, every RESET is
  served, so reads answer OK rather than BUSY, and no mode or capability has changed.\<close>

theorem poll_leaves_nothing_pending:
  "commands (fst (poll b A s h)) = [] \<and> \<not> busy (fst (poll b A s h)) \<and>
   fw_mode (fst (poll b A s h)) = fw_mode s \<and> fw_caps (fst (poll b A s h)) = fw_caps s"
  using poll_fields [of b A s h] poll_not_busy [of b A s h] by simp

lemma resets_epoch:
  "fw_epoch ((request_reset b ^^ n) s) = fw_epoch s + of_nat n"
  "fw_reset_requests ((request_reset b ^^ n) s) = fw_reset_requests s + of_nat n"
  "fw_reset_done ((request_reset b ^^ n) s) = fw_reset_done s"
  "fw_queue ((request_reset b ^^ n) s) = fw_queue s"
  by (induction n) (simp_all add: request_reset_eq)

lemma of_nat_u8_neq_0: "0 < n \<Longrightarrow> n < 256 \<Longrightarrow> (of_nat n :: u8) \<noteq> 0"
  by (simp add: word_of_nat_eq_0_iff nat_dvd_not_less)

text \<open>C8. Between two polls, fewer than 256 RESETs make every command queued before them dead, and
  leave the reset pending for \<open>poll()\<close>.\<close>

theorem resets_kill_queued_commands:
  assumes "0 < n" and "n < 256" and "fw_reset_done s = fw_reset_requests s"
    and "\<forall>c \<in> set (commands s). cmd_epoch c = fw_epoch s"
  shows "live_commands ((request_reset b ^^ n) s) = [] \<and> busy ((request_reset b ^^ n) s)"
  using assms of_nat_u8_neq_0 [of n]
  by (auto simp: live_commands_def resets_epoch busy_def filter_empty_conv)

lemma send_out:
  "fst (send (out_packet req v i) c) = snd (handle_out bench_board (request_code req) v i 0 (fst c))"
  by (simp add: send_def handle_setup_def out_packet_def case_prod_beta)

definition queued_run :: "fw \<times> bench" where
  "queued_run = send (out_packet USBIO_REQ_DIO_WRITE 1 3)
     (send (out_packet USBIO_REQ_PIN_MODE 1 3) started)"

lemma queued_run_reachable: "reachable bench_board bench_arduino queued_run"
  unfolding queued_run_def by (intro bench_reachable)

theorem resets_kill_witness:
  "length (live_commands (fst queued_run)) = 2 \<and>
   live_commands ((request_reset bench_board ^^ 3) (fst queued_run)) = []"
proof
  show "length (live_commands (fst queued_run)) = 2"
    by code_simp
  have "fw_reset_done (fst queued_run) = fw_reset_requests (fst queued_run)"
    and "\<forall>c \<in> set (commands (fst queued_run)). cmd_epoch c = fw_epoch (fst queued_run)"
    by code_simp+
  then show "live_commands ((request_reset bench_board ^^ 3) (fst queued_run)) = []"
    using resets_kill_queued_commands [where n = 3 and b = bench_board and s = "fst queued_run"] by simp
qed

text \<open>RESET is counted in 8 bits: 256 RESETs between two polls leave the request count and the
  epoch where they were, so the reset is not served and the commands queued before it run after all.\<close>

theorem two_hundred_fifty_six_resets_are_lost:
  "live_commands ((request_reset b ^^ 256) s) = live_commands s \<and>
   (busy ((request_reset b ^^ 256) s) \<longleftrightarrow> busy s)"
proof -
  have "(of_nat 256 :: u8) = 0"
    by simp
  then show ?thesis
    by (simp only: live_commands_def busy_def queue_pending_def resets_epoch add_0_right)
qed

text \<open>RESET takes effect at once on everything the host can read back: every digital pin is an
  INPUT and every other pin unconfigured, no pin is watched, no event is queued, no channel is
  selected and no stream runs.\<close>

theorem reset_returns_to_the_start:
  assumes "p < fw_n_pins s"
  shows "fw_mode (request_reset b s) p =
      (if fw_caps s p AND USBIO_CAP_DIO \<noteq> 0 then Some USBIO_MODE_INPUT else None) \<and>
    watching (request_reset b s) q = None \<and> queued_events (request_reset b s) = [] \<and>
    (has_stream_transport b \<longrightarrow>
       stream_channels (request_reset b s) = [] \<and> \<not> fw_running (request_reset b s))"
  using assms
  by (simp add: request_reset_eq watching_None_iff event_watch_index_def first_slot_None_iff
      stream_channels_def)

theorem reset_returns_witness:
  "fw_mode (request_reset bench_board (fst queued_run)) 3 = Some USBIO_MODE_INPUT"
proof -
  have "3 < fw_n_pins (fst queued_run)" "fw_caps (fst queued_run) 3 AND USBIO_CAP_DIO \<noteq> 0"
    by code_simp+
  then show ?thesis
    using reset_returns_to_the_start [of 3 "fst queued_run" bench_board] by simp
qed

section \<open>Effects on the outside world\<close>

text \<open>In every reachable state a \<open>poll()\<close> preserves whatever is preserved by configuring and
  driving digital pins, sampling analog pins, writing in-range duties to PWM and DAC pins and
  sending packets the transport takes: it makes no other call on the board.\<close>

theorem poll_respects_pin_capabilities:
  assumes "reachable b A c" and "wf_board b" and "monitored b A (fst c) P" and "P (snd c)"
  shows "P (snd (poll b A (fst c) (snd c)))"
  using poll_effects [OF assms(3,4) reachable_inv [OF assms(1,2)] assms(2)] .

theorem poll_respects_witness:
  "pwm (snd (poll bench_board bench_arduino (fst queued_run) (snd queued_run))) 6 = 0"
proof -
  have "fw_caps (fst queued_run) 6 AND USBIO_CAP_PWM = 0" "fw_caps (fst queued_run) 6 AND USBIO_CAP_DAC = 0"
    by code_simp+
  then have "monitored bench_board bench_arduino (fst queued_run) (\<lambda>w. pwm w 6 = 0)"
    by (auto simp: monitored_def may_drive_def bench_arduino_def)
  moreover have "pwm (snd queued_run) 6 = 0"
    by code_simp
  ultimately show ?thesis
    by (rule poll_respects_pin_capabilities [OF queued_run_reachable wf_bench_board])
qed

section \<open>Reading back what was written\<close>

text \<open>An accepted write is the last live command, so the drain loop runs it last.\<close>

lemma last_command_level:
  assumes "fst (enqueue USBIO_REQ_DIO_WRITE p v s)"
  shows "fw_dio (fst (poll_loop b A (snd (enqueue USBIO_REQ_DIO_WRITE p v s)) h)) p =
    (if v \<noteq> 0 then 1 else 0)"
proof -
  let ?s1 = "snd (enqueue USBIO_REQ_DIO_WRITE p v s)"
  let ?c = "\<lparr>cmd_request = USBIO_REQ_DIO_WRITE, cmd_pin = p, cmd_epoch = fw_epoch s, cmd_value = v\<rparr>"
  obtain t g where r: "reset_loop A ?s1 h = (t, g)" by fastforce
  then have sh: "shadow_change (?s1\<lparr>fw_reset_done := fw_reset_requests ?s1\<rparr>) t"
    using reset_loop_shadow [of ?s1 A h] by simp
  have "fw_epoch ?s1 = fw_epoch s"
    by (simp add: enqueue_def)
  then have "live_commands t = live_commands s @ [?c]"
    using shadow_change_fields(4,5) [OF sh] enqueue_commands [OF assms]
    by (simp add: live_commands_def)
  then have "poll_loop b A ?s1 h =
      (case run_commands b A (live_commands s) (empty_queue t, g) of (u, k) \<Rightarrow> execute b A ?c u k)"
    by (simp add: poll_loop_eq r drain_loop_eq run_commands_def)
  then show ?thesis
    by (simp add: execute_def case_prod_beta)
qed

text \<open>Once a DIO_WRITE is accepted, the next \<open>poll()\<close> applies it and a DIO_READ of the pin then
  answers OK with the level written, whatever was queued before it and whatever the pins read.\<close>

theorem written_level_reads_back:
  assumes "handle_out b (request_code USBIO_REQ_DIO_WRITE) v i 0 s = (True, s1)"
  shows "reply_dio_read i (fst (poll b A s1 h)) =
    dio_reply_bytes USBIO_OK (if v \<noteq> 0 then 1 else 0)"
proof -
  let ?p = "ucast i :: u8" and ?v = "(if v \<noteq> 0 then 1 else 0) :: u16"
  have req: "request_of 4 = Some USBIO_REQ_DIO_WRITE"
    using request_of_code [of USBIO_REQ_DIO_WRITE] by simp
  have i: "\<not> ucast (fw_n_pins s) \<le> i" and mode: "fw_mode s ?p = Some USBIO_MODE_OUTPUT"
    and ok: "fst (enqueue USBIO_REQ_DIO_WRITE ?p ?v s)"
    and s1: "s1 = snd (enqueue USBIO_REQ_DIO_WRITE ?p ?v s)"
    using assms by (auto simp: req handle_out_def handle_pin_request_def stall_def
        enqueue_or_stall_def case_prod_beta split: if_splits)
  have mode1: "fw_mode s1 ?p = Some USBIO_MODE_OUTPUT"
    by (simp add: s1 mode)
  then have "fw_dio (fst (poll b A s1 h)) ?p = (if v \<noteq> 0 then 1 else 0)"
    using last_command_level [OF ok] poll_driven_level [of s1 ?p b A h]
    by (cases "v = 0") (simp_all add: s1 mode_is_input_def)
  moreover have "fw_n_pins s1 = fw_n_pins s"
    by (simp add: s1)
  ultimately show ?thesis
    using i mode1 poll_fields(1,3) [of b A s1 h] poll_not_busy [of b A s1 h]
    by (simp add: reply_dio_read_def mode_is_digital_def)
qed

theorem written_level_witness:
  "reply_dio_read 3 (fst (sketch_poll queued_run)) = dio_reply_bytes USBIO_OK 1"
proof -
  let ?before = "send (out_packet USBIO_REQ_PIN_MODE 1 3) started"
  let ?out = "handle_out bench_board (request_code USBIO_REQ_DIO_WRITE) 1 3 0 (fst ?before)"
  have "fst ?out"
    by code_simp
  moreover have "snd ?out = fst queued_run"
    unfolding queued_run_def by (rule send_out [symmetric])
  ultimately have "?out = (True, fst queued_run)"
    by (metis prod.collapse)
  then show ?thesis
    using written_level_reads_back [of bench_board 1 3 "fst ?before" "fst queued_run" bench_arduino
        "snd queued_run"]
    by (simp add: sketch_poll_def case_prod_beta)
qed

end
