(* ===== verification/EventGuarantees.thy ===== *)
theory EventGuarantees
  imports Guarantees
begin

text \<open>
  What the firmware guarantees of pin events: the watch list, edge detection and debouncing, the
  bounded event queue, and the EVENT_POP and EVENT_COUNTS replies.  Two of the statements are
  about the 8-bit arming stamp and show where it misleads the code.
\<close>

section \<open>The watch list\<close>

lemma event_config_watching:
  assumes watch: "watch_inv s" and pin: "pin < fw_n_pins s"
    and ok: "fst (handle_event_config pin v s)"
  shows "watching (snd (handle_event_config pin v s)) = (watching s)(pin :=
      (let edge = ucast (v AND 0xFF) :: u8 in
       if edge = 0 then None else Some (the (edge_of edge), ucast (drop_bit 8 v))))"
proof (cases "ucast (v AND 0xFF) = (0 :: u8)")
  case True
  then have off: "edge_code USBIO_EDGE_OFF = ucast (v AND 0xFF)"
    by simp
  show ?thesis
    using True watching_unwatch [OF watch]
    by (cases "event_watch_index s pin")
      (simp_all add: event_off_eq [OF off] watching_no_pin)
next
  case False
  then have on: "edge_code USBIO_EDGE_OFF \<noteq> ucast (v AND 0xFF)"
    by simp
  have arm: "armable pin (ucast (v AND 0xFF)) s"
    using ok by (simp add: event_arm_eq [OF on] arm_event_eq stall_def split: if_splits)
  obtain e where e: "edge_of (ucast (v AND 0xFF)) = Some e" "e \<noteq> USBIO_EDGE_OFF"
    using edge_of_armable [OF arm False] by blast
  show ?thesis
    using False arm e watching_armed [OF watch arm pin e(2)]
    by (simp add: event_arm_eq [OF on] arm_event_eq)
qed

lemma event_config_live:
  assumes ring: "ring_ok USBIO_EVENT_QUEUE_DEPTH (fw_events s)" and pin: "pin \<noteq> EventTombstone"
    and ok: "fst (handle_event_config pin v s)"
  shows "live_events (snd (handle_event_config pin v s)) =
    (if (ucast (v AND 0xFF) :: u8) = 0 \<and> watching s pin \<noteq> None
     then filter (\<lambda>e. ev_pin e \<noteq> pin) (live_events s) else live_events s)"
proof (cases "ucast (v AND 0xFF) = (0 :: u8)")
  case True
  then have off: "edge_code USBIO_EDGE_OFF = ucast (v AND 0xFF)"
    by simp
  have same: "live_events (unwatch i s) = live_events s" for i
    by (simp add: live_events_def)
  show ?thesis
    using True live_events_discard [of "unwatch i s" pin for i] ring pin
    by (auto simp: event_off_eq [OF off] watching_None_iff same live_events_discard
        split: option.split)
next
  case False
  then have on: "edge_code USBIO_EDGE_OFF \<noteq> ucast (v AND 0xFF)"
    by simp
  have "armable pin (ucast (v AND 0xFF)) s"
    using ok by (simp add: event_arm_eq [OF on] arm_event_eq stall_def split: if_splits)
  moreover have "live_events (armed pin e d s) = live_events s" for e d
    by (simp add: live_events_def armed_def Let_def)
  ultimately show ?thesis
    using False by (simp add: event_arm_eq [OF on] arm_event_eq)
qed

text \<open>C12. In every reachable state an accepted EVENT_CONFIG edits exactly the entry of its pin: OFF
  unwatches the pin and discards its queued events, keeping the others in order; any other edge
  watches it with that edge and debounce time, and leaves the queued events alone.\<close>

theorem event_config_edits_the_watch_list:
  assumes "reachable b A c" and "wf_board b" and "pin < fw_n_pins (fst c)"
    and "fst (handle_event_config pin v (fst c))"
  shows "let s = fst c; s' = snd (handle_event_config pin v s); edge = ucast (v AND 0xFF) :: u8 in
    watching s' = (watching s)(pin :=
      (if edge = 0 then None else Some (the (edge_of edge), ucast (drop_bit 8 v)))) \<and>
    live_events s' = (if edge = 0 \<and> watching s pin \<noteq> None
      then filter (\<lambda>e. ev_pin e \<noteq> pin) (live_events s) else live_events s)"
proof -
  have inv: "fw_inv b (fst c)"
    by (rule reachable_inv [OF assms(1,2)])
  then have pin: "pin \<noteq> EventTombstone"
    using assms(3) by (auto simp: fw_inv_parts EventTombstone_def word_less_nat_alt)
  show ?thesis
    using event_config_watching [OF _ assms(3,4)] event_config_live [OF _ pin assms(4)] inv
    by (simp add: fw_inv_parts Let_def)
qed

theorem event_config_witness:
  "watching (snd (handle_event_config 2 0x0503 (fst armed_run))) 2 = Some (USBIO_EDGE_CHANGE, 5)"
proof -
  have "2 < fw_n_pins (fst armed_run)" "fst (handle_event_config 2 0x0503 (fst armed_run))"
    by code_simp+
  moreover have "ucast (0x0503 AND 0xFF :: u16) = (3 :: u8)" "the (edge_of 3) = USBIO_EDGE_CHANGE"
    "ucast (drop_bit 8 0x0503 :: u16) = (5 :: u8)"
    by (simp_all add: edge_of_def all_edges_def)
  ultimately show ?thesis
    using event_config_edits_the_watch_list [OF armed_run_reachable wf_bench_board, of 2 "0x0503"]
    by (simp add: Let_def)
qed

section \<open>Edge detection\<close>

text \<open>C13. In every reachable state one scan runs the edge detector on each watch, puts the edges it
  reports into the queue in slot order while there is room, and counts the rest as dropped,
  saturating at 255; a watch counts an edge whether or not its event found room.\<close>

theorem scan_counts_every_edge:
  assumes "reachable b A c" and "wf_board b" and "fw_n_pins (fst c) \<noteq> 0"
  shows "let s = fst c; now = fst (millis A (snd c)); s' = fst (event_poll A s (snd c));
      room = 32 - length (queued_events s) in
    queued_events s' = queued_events s @ take room (reported now s) \<and>
    unat (fw_dropped s') = min 255 (unat (fw_dropped s) + (length (reported now s) - room)) \<and>
    (\<forall>i. fw_watch s' i = (if i < USBIO_MAX_EVENT_PINS
      then fst (detect now (fw_dio s (w_pin (fw_watch s i))) (fw_watch s i)) else fw_watch s i))"
proof -
  let ?now = "fst (millis A (snd c))"
  have ring: "ring_ok USBIO_EVENT_QUEUE_DEPTH (fw_events (scanned ?now (fst c)))"
    using reachable_inv [OF assms(1,2)] by (simp add: fw_inv_def event_inv_def)
  show ?thesis
    using assms(3) event_fifo.contents_puts [OF ring, of "reported ?now (fst c)"]
      puts_dropped [of "reported ?now (fst c)" "scanned ?now (fst c)"]
    by (simp add: event_poll_eq Let_def) (simp add: scanned_def detect_slot_def)
qed

text \<open>A bench whose pin 2 is watched with a 5 ms debounce and has gone high.\<close>

definition set_pad :: "u8 \<Rightarrow> bool \<Rightarrow> fw \<times> bench \<Rightarrow> fw \<times> bench" where
  "set_pad p v c = (case c of (s, w) \<Rightarrow> (s, w\<lparr>pads := (pads w)(p := v)\<rparr>))"

definition edge_run :: "fw \<times> bench" where
  "edge_run = set_pad 2 True (sketch_poll (send (out_packet USBIO_REQ_EVENT_CONFIG 0x0503 2) armed_run))"

lemma set_pad_reachable:
  "reachable bench_board bench_arduino c \<Longrightarrow> reachable bench_board bench_arduino (set_pad p v c)"
  by (cases c) (auto simp: set_pad_def intro: reachable.step device_step.elapsed)

lemma edge_run_reachable: "reachable bench_board bench_arduino edge_run"
  unfolding edge_run_def by (intro set_pad_reachable bench_reachable armed_run_reachable)

definition refreshed_edge_run :: "fw \<times> bench" where
  "refreshed_edge_run = sketch_poll edge_run"

lemma refreshed_edge_run_reachable: "reachable bench_board bench_arduino refreshed_edge_run"
  unfolding refreshed_edge_run_def by (intro bench_reachable edge_run_reachable)

theorem scan_counts_witness:
  "queued_events (fst (event_poll bench_arduino (fst refreshed_edge_run) (snd refreshed_edge_run))) =
     [\<lparr>ev_pin = 2, ev_edge = 1, ev_seq = 1, ev_t_ms = 0\<rparr>]"
proof -
  have "fw_n_pins (fst refreshed_edge_run) \<noteq> 0"
    by code_simp
  moreover have "queued_events (fst refreshed_edge_run) = [\<lparr>ev_pin = 2, ev_edge = 1, ev_seq = 1, ev_t_ms = 0\<rparr>]"
    and "reported (fst (millis bench_arduino (snd refreshed_edge_run))) (fst refreshed_edge_run) = []"
    by code_simp+
  ultimately show ?thesis
    using scan_counts_every_edge [OF refreshed_edge_run_reachable wf_bench_board]
    by (simp add: Let_def)
qed

lemma watch_run_fields:
  assumes "settled w" and "w_debounce_until w = t0 + ucast (w_debounce_ms w)"
    and "\<forall>(t, level) \<in> set samples. unat (t - t0) < unat (w_debounce_ms w)"
  shows "settled (watch_run samples w)" "w_debounce_until (watch_run samples w) = w_debounce_until w"
    "w_debounce_ms (watch_run samples w) = w_debounce_ms w" "w_count (watch_run samples w) = w_count w"
  using run_window [OF assms] assms(1) by (simp_all add: settled_def)

text \<open>The first edge wins: once the detector accepts an edge at time \<open>t0\<close>, every later scan
  before the debounce time has passed is absorbed, whatever levels it sees: the watch counts no
  edge and no scan reports one.\<close>

theorem first_edge_wins:
  assumes "detect t0 level0 w = (w1, Some e)"
    and "\<forall>(t, level) \<in> set (samples @ [(t1, level1)]). unat (t - t0) < unat (w_debounce_ms w)"
  shows "w_count (watch_run samples w1) = w_count w + 1 \<and>
    snd (detect t1 level1 (watch_run samples w1)) = None"
proof -
  have w1: "settled w1" "w_debounce_until w1 = t0 + ucast (w_debounce_ms w1)"
    "w_debounce_ms w1 = w_debounce_ms w" "w_count w1 = w_count w + 1"
    using assms(1) by (auto simp: detect_def settled_def split: if_splits)
  have window: "\<forall>(t, level) \<in> set samples. unat (t - t0) < unat (w_debounce_ms w1)"
    using assms(2) w1(3) by simp
  note run = watch_run_fields [OF w1(1,2) window]
  have "detect t1 level1 (watch_run samples w1) = ((watch_run samples w1)\<lparr>w_prev_level := level1\<rparr>, None)"
    using assms(2) by (intro detect_window [where ?t0.0 = t0]) (simp_all add: run w1(2,3))
  then show ?thesis
    by (simp add: run w1(4))
qed

definition sample_watch :: event_watch where
  "sample_watch = \<lparr>w_pin = 2, w_active = True, w_edge_mode = USBIO_EDGE_CHANGE, w_debounce_ms = 5,
     w_arm_seq = 1, w_seen_seq = 1, w_prev_level = 0, w_debounce_until = 90, w_count = 7\<rparr>"

theorem first_edge_witness:
  "w_count (watch_run [(101, 0), (102, 1), (103, 0)] (fst (detect 100 1 sample_watch))) = 8"
proof -
  have "detect 100 1 sample_watch = (fst (detect 100 1 sample_watch), Some \<lparr>ev_pin = 2, ev_edge = 1,
      ev_seq = 8, ev_t_ms = 100\<rparr>)"
    by (simp add: sample_watch_def detect_def edge_due_def edge_level_def)
  from first_edge_wins [OF this, of "[(101, 0), (102, 1), (103, 0)]" 104 1]
  show ?thesis
    by (simp add: sample_watch_def)
qed

section \<open>EVENT_POP and EVENT_COUNTS\<close>

text \<open>C15. EVENT_POP hands over the oldest live events in order, at most the seven that fit or the
  number asked for, with a header that counts them, the events still queued and the events
  dropped since the last pop; exactly those events leave the queue and the drop count restarts.\<close>

theorem event_pop_hands_over_the_oldest:
  "let n = (if i = 0 \<or> 7 < unat i then 7 else unat i);
       es = take n (live_events s) in
   reply_event_pop i s =
     (event_header_bytes \<lparr>eh_status = status_code USBIO_OK, eh_count = of_nat (length es),
        eh_dropped = fw_dropped s, eh_pending = of_nat (length (live_events s) - length es)\<rparr>
      @ concat (map event_bytes es), snd (reply_event_pop i s)) \<and>
   live_events (snd (reply_event_pop i s)) = drop n (live_events s) \<and>
   fw_dropped (snd (reply_event_pop i s)) = 0"
  using event_pop_reply [of i s] event_pop_events [of i s]
    arg_cong [OF event_pop_frame [of i s], of fw_dropped]
  by (simp add: Let_def popped_def pop_cap_def prod_eq_iff)

text \<open>C16. EVENT_COUNTS lists every watched pin once with its edge mode and count, the longest-armed
  pin first, provided no watched pin was armed more than 127 armings ago.\<close>

theorem event_counts_in_arming_order:
  assumes "\<forall>i \<in> set (active_slots s). arm_age s i < 128"
  shows "\<exists>order. mset order = mset (active_slots s) \<and>
    sorted_wrt (\<lambda>i j. arm_age s j \<le> arm_age s i) order \<and>
    reply_event_counts s =
      event_header_bytes \<lparr>eh_status = status_code USBIO_OK,
        eh_count = of_nat (length (active_slots s)), eh_dropped = 0, eh_pending = 0\<rparr>
      @ concat (map (\<lambda>i. event_count_bytes \<lparr>ec_pin = w_pin (fw_watch s i),
          ec_mode = edge_code (w_edge_mode (fw_watch s i)), ec_count = w_count (fw_watch s i)\<rparr>) order)"
proof (intro exI conjI)
  show mset: "mset (count_order s) = mset (active_slots s)"
    by (simp add: count_order_def mset_insertion_sort)
  have recent: "set (active_slots s) \<subseteq> recent_slots s"
    using assms by (auto simp: recent_slots_def)
  have "arm_order.in_order s (count_order s)"
    unfolding count_order_def by (rule arm_order.in_order_sort [OF recent])
  moreover have "set (count_order s) = set (active_slots s)"
    by (metis mset set_mset_mset)
  ultimately show "sorted_wrt (\<lambda>i j. arm_age s j \<le> arm_age s i) (count_order s)"
    using recent unfolding arm_order.in_order_def
    by (auto elim!: sorted_wrt_mono_rel [rotated] simp: armed_later_recent subset_iff not_less)
  show "reply_event_counts s =
      event_header_bytes \<lparr>eh_status = status_code USBIO_OK,
        eh_count = of_nat (length (active_slots s)), eh_dropped = 0, eh_pending = 0\<rparr>
      @ concat (map (\<lambda>i. event_count_bytes \<lparr>ec_pin = w_pin (fw_watch s i),
          ec_mode = edge_code (w_edge_mode (fw_watch s i)), ec_count = w_count (fw_watch s i)\<rparr>)
          (count_order s))"
    by (simp add: reply_event_counts_eq count_entry_def)
qed

text \<open>Two pins armed in the order 3, 2.\<close>

definition two_armed :: "fw \<times> bench" where
  "two_armed = send (out_packet USBIO_REQ_EVENT_CONFIG 3 2)
     (send (out_packet USBIO_REQ_EVENT_CONFIG 3 3)
        (send (out_packet USBIO_REQ_PIN_MODE 0 3) (send (out_packet USBIO_REQ_PIN_MODE 0 2) started)))"

theorem event_counts_witness:
  "\<exists>order. mset order = {#0, 1#} \<and> reply_event_counts (fst two_armed) =
     [0, 2, 0, 0] @ concat (map (\<lambda>i. event_count_bytes (count_entry (fst two_armed) i)) order)"
proof -
  have slots: "active_slots (fst two_armed) = [0, 1]"
    and "\<forall>i \<in> set (active_slots (fst two_armed)). arm_age (fst two_armed) i < 128"
    by code_simp+
  then show ?thesis
    using event_counts_in_arming_order [of "fst two_armed"]
    by (auto simp: count_entry_def event_header_bytes_def)
qed

section \<open>Where the arming stamp misleads\<close>

lemma stamp_difference:
  "unat (x :: u8) = unat y + k \<Longrightarrow> 0 < k \<Longrightarrow> unat (y - x) = 256 - k"
  using unat_lt_u8 [of x] by (simp add: unat_sub_if_size word_size)

text \<open>The arming stamp has 8 bits: a pin armed more than 128 armings before the other watched
  pin is listed after it, against the order EVENT_COUNTS promises.\<close>

theorem event_counts_order_after_128_armings:
  assumes "active_slots s = [i, j]" and "arm_age s i = arm_age s j + k" and "128 < k"
  shows "reply_event_counts s =
    event_header_bytes \<lparr>eh_status = status_code USBIO_OK, eh_count = 2, eh_dropped = 0, eh_pending = 0\<rparr>
    @ event_count_bytes (count_entry s j) @ event_count_bytes (count_entry s i)"
proof -
  let ?d = "w_arm_seq (fw_watch s i) - w_arm_seq (fw_watch s j)"
  let ?ai = "fw_arm_seq s - w_arm_seq (fw_watch s i)" and ?aj = "fw_arm_seq s - w_arm_seq (fw_watch s j)"
  have k: "unat ?ai = unat ?aj + k"
    using assms(2) by (simp only: arm_age_def)
  have "?d = ?aj - ?ai"
    by simp
  then have d: "unat ?d = 256 - k"
    using stamp_difference [OF k] assms(3) by simp
  moreover have "k < 256"
    using k unat_lt_u8 [of ?ai] by linarith
  ultimately have "0 < sint ?d"
    using assms(3) by (subst sint_pos_u8) auto
  then have "count_order s = [j, i]"
    by (simp add: count_order_def insertion_sort_def assms(1) armed_later_def numeral_2_eq_2)
  then show ?thesis
    using assms(1) by (simp add: reply_event_counts_eq)
qed

text \<open>Arming one watched pin again and again: only its own slot and the stamp counter change.\<close>

definition rearm :: "u8 \<Rightarrow> fw \<Rightarrow> fw" where
  "rearm pin s = snd (arm_event pin 3 0 s)"

lemma rearm_eq:
  assumes "armable pin 3 s" and "event_watch_index s pin = Some i"
  shows "rearm pin s = s\<lparr>fw_watch := (fw_watch s)(i := (fw_watch s i)\<lparr>w_pin := pin,
      w_edge_mode := the (edge_of 3), w_debounce_ms := 0, w_arm_seq := fw_arm_seq s + 1,
      w_active := True\<rparr>), fw_arm_seq := fw_arm_seq s + 1\<rparr>"
  using assms by (simp add: rearm_def arm_event_eq armed_def arm_slot_def)

lemma rearm_many:
  assumes "armable pin 3 s" and "event_watch_index s pin = Some i"
  shows "(\<forall>q. armable q 3 ((rearm pin ^^ n) s) = armable q 3 s) \<and> event_watch_index ((rearm pin ^^ n) s) = event_watch_index s \<and>
    active_slots ((rearm pin ^^ n) s) = active_slots s \<and>
    fw_arm_seq ((rearm pin ^^ n) s) = fw_arm_seq s + of_nat n \<and>
    (\<forall>j. j \<noteq> i \<longrightarrow> fw_watch ((rearm pin ^^ n) s) j = fw_watch s j) \<and>
    (n \<noteq> 0 \<longrightarrow> w_arm_seq (fw_watch ((rearm pin ^^ n) s) i) = fw_arm_seq s + of_nat n)"
proof (induction n)
  case 0
  then show ?case using assms by simp
next
  case (Suc n)
  let ?t = "(rearm pin ^^ n) s"
  have arm: "armable pin 3 ?t" and idx: "event_watch_index ?t pin = Some i"
    using Suc assms by simp_all
  have slot: "w_active (fw_watch ?t i)" "w_pin (fw_watch ?t i) = pin"
    using watch_index_SomeD [OF idx] by (simp_all add: active_slots_iff)
  have same: "(\<lambda>j. w_active (fw_watch (rearm pin ?t) j)) = (\<lambda>j. w_active (fw_watch ?t j))"
    "(\<lambda>j. w_pin (fw_watch (rearm pin ?t) j)) = (\<lambda>j. w_pin (fw_watch ?t j))"
    using slot by (auto simp: rearm_eq [OF arm idx] fun_eq_iff)
  have index: "event_watch_index (rearm pin ?t) = event_watch_index ?t"
    using fun_cong [OF same(1)] fun_cong [OF same(2)] by (simp add: event_watch_index_def fun_eq_iff)
  have "armable q 3 (rearm pin ?t) = armable q 3 ?t" for q
    using index by (simp add: armable_def) (simp add: rearm_eq [OF arm idx])
  moreover have "active_slots (rearm pin ?t) = active_slots ?t"
    using fun_cong [OF same(1)] by (simp add: active_slots_def)
  ultimately show ?case
    using Suc index by (simp add: rearm_eq [OF arm idx])
qed

definition stale_order :: fw where
  "stale_order = (rearm 2 ^^ 128) (fst two_armed)"

theorem event_counts_order_witness:
  "reply_event_counts stale_order = [0, 2, 0, 0] @
     event_count_bytes (count_entry stale_order 1) @ event_count_bytes (count_entry stale_order 0) \<and>
   w_pin (fw_watch stale_order 0) = 3"
proof -
  have start: "armable 2 3 (fst two_armed)" "event_watch_index (fst two_armed) 2 = Some 1"
    "active_slots (fst two_armed) = [0, 1]" "fw_arm_seq (fst two_armed) = 2"
    "w_arm_seq (fw_watch (fst two_armed) 0) = 1" "w_pin (fw_watch (fst two_armed) 0) = 3"
    by code_simp+
  note many = rearm_many [OF start(1,2), of 128, folded stale_order_def]
  have "active_slots stale_order = [0, 1]" "arm_age stale_order 0 = 129" "arm_age stale_order 1 = 0"
    using many start by (simp_all add: arm_age_def)
  then show ?thesis
    using event_counts_order_after_128_armings [of stale_order 0 1 129] many start(6)
    by (simp add: event_header_bytes_def)
qed

text \<open>Likewise a watch armed again exactly 256 armings after the last time carries the stamp the
  scanner has already seen, so the count EVENT_CONFIG should restart goes on from where it was.\<close>

theorem rearm_256_armings_later_keeps_the_count:
  assumes "armable pin edge s" and "event_watch_index s pin = Some i"
    and "settled (fw_watch s i)" and "fw_arm_seq s = w_arm_seq (fw_watch s i) + of_nat 255"
  shows "let w = fw_watch (snd (arm_event pin edge d s)) i in
    w_count (fst (detect now level w)) = w_count (fw_watch s i) + (if edge_due now level w then 1 else 0)"
proof -
  have "fw_arm_seq s + 1 = w_arm_seq (fw_watch s i)"
    using assms(4) by simp
  then show ?thesis
    using assms(1-3) by (simp add: arm_event_eq armed_def arm_slot_def settled_def detect_def)
qed

text \<open>Pins 3 and 2 watched, an edge on pin 2 counted, then pin 3 armed again 255 times.\<close>

definition counted_run :: "fw \<times> bench" where
  "counted_run = sketch_poll (set_pad 2 True (sketch_poll two_armed))"

theorem rearm_256_witness:
  "w_count (fst (detect 0 1 (fw_watch (snd (arm_event 2 3 0 ((rearm 3 ^^ 255) (fst counted_run)))) 1))) = 1"
proof -
  let ?s = "(rearm 3 ^^ 255) (fst counted_run)"
  have start: "armable 3 3 (fst counted_run)" "event_watch_index (fst counted_run) 3 = Some 0"
    and arm: "armable 2 3 (fst counted_run)" "event_watch_index (fst counted_run) 2 = Some 1"
    and seq: "fw_arm_seq (fst counted_run) = 2" "w_arm_seq (fw_watch (fst counted_run) 1) = 2"
    and watch: "settled (fw_watch (fst counted_run) 1)"
    and level: "w_count (fw_watch (fst counted_run) 1) = 1" "w_prev_level (fw_watch (fst counted_run) 1) = 1"
    by code_simp+
  note many = rearm_many [OF start, of 255]
  have same: "fw_watch ?s 1 = fw_watch (fst counted_run) 1"
    using many by simp
  have "fw_arm_seq ?s = w_arm_seq (fw_watch ?s 1) + of_nat 255"
    using many seq unfolding same by simp
  then have "w_count (fst (detect 0 1 (fw_watch (snd (arm_event 2 3 0 ?s)) 1))) =
      1 + (if edge_due 0 1 (fw_watch (snd (arm_event 2 3 0 ?s)) 1) then 1 else 0)"
    using rearm_256_armings_later_keeps_the_count [of 2 3 ?s 1 0 0 1] many arm watch level(1)
    unfolding same by (simp add: Let_def)
  moreover have "w_prev_level (fw_watch (snd (arm_event 2 3 0 ?s)) 1) = 1"
    using many arm level(2) same by (simp add: arm_event_eq armed_def arm_slot_def)
  ultimately show ?thesis
    by (simp add: edge_due_def)
qed

end
