(* ===== verification/StreamGuarantees.thy ===== *)
theory StreamGuarantees
  imports EventGuarantees
begin

text \<open>
  What the firmware guarantees of streaming (no record is lost, reordered or torn on its way to
  the transport; every sample is accounted for; the schedule does not fall behind), of the
  digital bitmap and the channel list, and of the pins it claims on a board.
\<close>

section \<open>The pipeline\<close>

text \<open>A bench that streams analog pin 4 and the digital bitmap, free running.\<close>

definition stream_run :: "fw \<times> bench" where
  "stream_run = sketch_poll (send (out_packet USBIO_REQ_STREAM_START 0 1)
     (send (out_packet USBIO_REQ_STREAM_SELECT 1 4) (send (out_packet USBIO_REQ_PIN_MODE 4 4) started)))"

lemma stream_run_reachable: "reachable bench_board bench_arduino stream_run"
  unfolding stream_run_def by (intro bench_reachable)

text \<open>C18. In every reachable state with no START pending and at least one send failure left before
  giving up, a \<open>stream_poll\<close> conserves the stream byte for byte and in order: what the transport
  has taken followed by what still waits grows by exactly the new record, if one is due and the
  ring has room; at most one packet is handed over, non-empty and no longer than the transport's
  maximum.\<close>

theorem stream_poll_loses_nothing:
  assumes "reachable b A (s, h)" and "wf_board b" and "logs_packets A sent"
    and "fw_start_done s = fw_start_requests s" and "fw_tx_failures s < 2"
    and "stream_poll b A s h = (s', h')"
  shows "concat (sent h') @ pipeline s' = concat (sent h) @ pipeline s @ new_record A s h \<and>
    (\<exists>ps. sent h' = sent h @ ps \<and> length ps \<le> 1 \<and>
      (\<forall>p \<in> set ps. p \<noteq> [] \<and> length p \<le> unat (stream_packet_max b)))"
proof -
  have "stream_inv b s" "unat (fw_n_pins s) \<le> 128"
    using reachable_inv [OF assms(1,2)] by (simp_all add: fw_inv_parts)
  with stream_poll_conserves [OF assms(3) _ assms(2) _ assms(4-6)] show ?thesis
    by blast
qed

theorem stream_poll_witness:
  "length (pipeline (fst (stream_poll bench_board bench_arduino (fst stream_run) (snd stream_run)))) +
   length (concat (taken (snd (stream_poll bench_board bench_arduino (fst stream_run) (snd stream_run))))) = 32"
proof -
  let ?s = "fst stream_run" and ?h = "snd stream_run"
  obtain s' h' where run: "stream_poll bench_board bench_arduino ?s ?h = (s', h')" by fastforce
  have r: "reachable bench_board bench_arduino (?s, ?h)"
    using stream_run_reachable by simp
  have "fw_start_done ?s = fw_start_requests ?s" "fw_tx_failures ?s < 2"
    and len: "length (pipeline ?s) = 16" "taken ?h = []" "length (new_record bench_arduino ?s ?h) = 16"
    by code_simp+
  with stream_poll_loses_nothing [OF r wf_bench_board bench_logs_packets _ _ run]
  have "concat (taken h') @ pipeline s' = pipeline ?s @ new_record bench_arduino ?s ?h"
    by simp
  from arg_cong [OF this, of length] show ?thesis
    using len by (simp add: run)
qed

text \<open>The ring once a due sample is in it, and the sample that found the ring full.\<close>

definition sampled_ring :: "'h arduino \<Rightarrow> fw \<Rightarrow> 'h \<Rightarrow> bytes list" where
  "sampled_ring A s h = records s @ (if new_record A s h = [] then [] else [new_record A s h])"

definition samples_now :: "'h arduino \<Rightarrow> fw \<Rightarrow> 'h \<Rightarrow> bool" where
  "samples_now A s h = due (fst (micros A h)) s"

definition overruns_now :: "'h arduino \<Rightarrow> fw \<Rightarrow> 'h \<Rightarrow> bool" where
  "overruns_now A s h \<longleftrightarrow> samples_now A s h \<and> \<not> length (records s) < 32"

lemma reschedule_books:
  "records (reschedule now s) = records s" "packet (reschedule now s) = packet s"
  "fw_packet_records (reschedule now s) = fw_packet_records s" "fw_seq (reschedule now s) = fw_seq s"
  "fw_overruns (reschedule now s) = fw_overruns s"
  by (simp_all add: reschedule_def packet_def Let_def)

lemma take_due_sample_books:
  assumes "stream_inv b s" and "unat (fw_n_pins s) \<le> 128" and "take_due_sample A s h = (s', h')"
  shows "records s' = sampled_ring A s h" "packet s' = packet s"
    "fw_packet_records s' = fw_packet_records s"
    "fw_seq s' = fw_seq s + (if samples_now A s h then 1 else 0)"
    "fw_overruns s' = fw_overruns s + (if overruns_now A s h then 1 else 0)"
proof -
  obtain now h1 where m: "micros A h = (now, h1)" by fastforce
  obtain s1 h2 where r: "stream_sample A now s h1 = (s1, h2)" by fastforce
  have ne: "sampled_record A now s h1 \<noteq> []"
    using sampled_record_ok(1) [OF assms(1,2), of A now h1] by (auto simp: record_ok_def)
  have s': "s' = (if due now s then reschedule now s1 else s)"
    using assms(3) by (auto simp: take_due_sample_def due_def m r split: if_splits)
  have "records s' = sampled_ring A s h \<and> packet s' = packet s \<and>
    fw_packet_records s' = fw_packet_records s \<and>
    fw_seq s' = fw_seq s + (if samples_now A s h then 1 else 0) \<and>
    fw_overruns s' = fw_overruns s + (if overruns_now A s h then 1 else 0)"
  proof (cases "length (records s) < 32")
    case True
    moreover from this have "packet s1 = packet s"
      using sample_room(1) [OF True, of A now h1] by (simp add: r packet_def)
    ultimately show ?thesis
      using sample_room [OF True, of A now h1] ne
      by (simp add: s' r reschedule_books sampled_ring_def new_record_def samples_now_def
          overruns_now_def m)
  next
    case False
    moreover from this have "packet s1 = packet s"
      using sample_overrun [OF False, of A now h1] by (simp add: r packet_def)
    ultimately show ?thesis
      using sample_overrun [OF False, of A now h1]
      by (simp add: s' r reschedule_books sampled_ring_def new_record_def samples_now_def
          overruns_now_def m)
  qed
  then show "records s' = sampled_ring A s h" "packet s' = packet s"
    "fw_packet_records s' = fw_packet_records s"
    "fw_seq s' = fw_seq s + (if samples_now A s h then 1 else 0)"
    "fw_overruns s' = fw_overruns s + (if overruns_now A s h then 1 else 0)"
    by simp_all
qed

text \<open>Packing moves the oldest \<open>k\<close> records from the ring to the end of the packet.\<close>

definition packs :: "nat \<Rightarrow> fw \<Rightarrow> fw \<Rightarrow> bool" where
  "packs k s t \<longleftrightarrow> k \<le> length (records s) \<and> records t = drop k (records s) \<and>
     packet t = packet s @ concat (take k (records s)) \<and>
     unat (fw_packet_records t) = unat (fw_packet_records s) + k \<and>
     fw_seq t = fw_seq s \<and> fw_overruns t = fw_overruns s"

lemma packs_one:
  assumes "packs k s t" and inv: "stream_inv b t" and wf: "wf_board b" and fits: "next_fits b t"
  shows "packs (Suc k) s (pack_record us t)"
proof -
  let ?rec = "ring_front StreamRingDepth (fw_records t)" and ?t = "pack_record us t"
  note front = next_fits_front [OF inv wf fits]
  have drop: "drop k (records s) = ?rec # records ?t"
    using front(1) assms(1) by (simp add: packs_def)
  then have k: "k < length (records s)"
    by (metis drop_eq_Nil2 linorder_not_less list.distinct(1))
  then have "records s ! k = ?rec" "records ?t = drop (Suc k) (records s)"
    using drop by (metis Cons_nth_drop_Suc list.inject)+
  moreover have "packet ?t = packet t @ ?rec"
    using inv wf front(3)
    by (auto simp: packet_def front(4) take_memcpy_at stream_inv_def wf_board_def)
  moreover have "unat (fw_packet_records ?t) = Suc (unat (fw_packet_records t))"
    using inv wf by (auto simp: stream_inv_def wf_board_def intro!: unat_succ_u8)
  ultimately show ?thesis
    using assms(1) k by (simp add: packs_def take_Suc_conv_app_nth pack_record_def Let_def)
qed

lemma pack_records_books:
  assumes "stream_inv b s" and "wf_board b"
  obtains k where "packs k s (fst (pack_records b A s h))"
proof -
  have "stream_inv b (fst (pack_records b A s h)) \<and> (\<exists>k. packs k s (fst (pack_records b A s h)))"
  proof (rule pack_records_keeps [where P = "\<lambda>t. stream_inv b t \<and> (\<exists>k. packs k s t)"])
    have "packs 0 s s"
      by (simp add: packs_def)
    then show "stream_inv b s \<and> (\<exists>k. packs k s s)"
      using assms(1) by blast
  qed (use pack_record_inv packs_one assms(2) in blast)
  then show ?thesis
    using that by blast
qed

lemma packet_nothing: "fw_packet_len s = 0 \<Longrightarrow> packet s = []"
  by (simp add: packet_def)

text \<open>What became of the packet: taken by the transport, kept, or given up with the whole ring.\<close>

datatype packet_fate = Delivered | Kept | Given_up

fun fares :: "('h \<Rightarrow> bytes list) \<Rightarrow> packet_fate \<Rightarrow> fw \<Rightarrow> 'h \<Rightarrow> fw \<Rightarrow> 'h \<Rightarrow> bool" where
  "fares sent Delivered s h s' h' \<longleftrightarrow> sent h' = sent h @ [packet s] \<and> packet s' = [] \<and>
     fw_packet_records s' = 0 \<and> records s' = records s \<and> fw_overruns s' = fw_overruns s"
| "fares sent Kept s h s' h' \<longleftrightarrow> sent h' = sent h \<and> packet s' = packet s \<and>
     fw_packet_records s' = fw_packet_records s \<and> records s' = records s \<and>
     fw_overruns s' = fw_overruns s"
| "fares sent Given_up s h s' h' \<longleftrightarrow> sent h' = sent h \<and> packet s' = [] \<and>
     fw_packet_records s' = 0 \<and> records s' = [] \<and> \<not> fw_running s' \<and>
     fw_overruns s' = fw_overruns s + of_nat (unat (fw_packet_records s) + length (records s))"

lemma send_packet_books:
  assumes log: "logs_packets A sent" and run: "send_packet b A s h = (s', h')"
  shows "fw_seq s' = fw_seq s \<and> (\<exists>f. fares sent f s h s' h')"
proof -
  have flush: "fw_seq s' = fw_seq s \<and> (\<exists>f. fares sent f s g s' h')"
    if f: "flush_packet b A s g = (s', h')" for g
  proof -
    obtain r g1 where w: "stream_write A (packet s) g = (r, g1)" by fastforce
    show ?thesis
    proof (cases r)
      case USBIO_STREAM_WRITE_SENT
      then have "s' = s\<lparr>fw_tx_failures := 0, fw_packet_len := 0, fw_packet_records := 0\<rparr>" "h' = g1"
        using f by (simp_all add: flush_packet_cases w)
      then show ?thesis
        using logs_packetsD(1) [OF log w] USBIO_STREAM_WRITE_SENT by (auto intro!: exI [of _ Delivered])
    next
      case USBIO_STREAM_WRITE_BUSY
      then show ?thesis
        using f logs_packetsD(1) [OF log w]
        by (auto simp: flush_packet_cases w intro!: exI [of _ Kept])
    next
      case USBIO_STREAM_WRITE_FAILED
      then show ?thesis
        using f logs_packetsD(1) [OF log w]
      proof (cases "fw_tx_failures s + 1 < StreamTxFailureLimit")
        case True
        with USBIO_STREAM_WRITE_FAILED show ?thesis
          using f logs_packetsD(1) [OF log w]
          by (auto simp: flush_packet_cases w intro!: exI [of _ Kept])
      next
        case False
        with USBIO_STREAM_WRITE_FAILED have "fares sent Given_up s g s' h'"
          using f logs_packetsD(1) [OF log w] by (auto simp: flush_packet_cases w packet_nothing)
        with False USBIO_STREAM_WRITE_FAILED show ?thesis
          using f by (auto simp: flush_packet_cases w intro!: exI [of _ Given_up])
      qed
    qed
  qed
  obtain us h1 where m: "micros A h = (us, h1)" by fastforce
  have clock: "sent h1 = sent h"
    by (rule logs_packetsD(2) [OF log m])
  have same: "fares sent f s h1 s' h' \<longleftrightarrow> fares sent f s h s' h'" for f
    by (cases f) (simp_all add: clock)
  consider "s' = s" "sent h' = sent h" | g where "flush_packet b A s g = (s', h')" "g = h \<or> g = h1"
    using run clock by (auto simp: send_packet_def m split: if_splits)
  then show ?thesis
  proof cases
    case 1
    then show ?thesis
      by (auto intro!: exI [of _ Kept])
  next
    case 2
    then show ?thesis
      using flush [OF 2(1)] same by auto
  qed
qed

lemma length_sampled_ring:
  assumes "stream_inv b s" and "unat (fw_n_pins s) \<le> 128"
  shows "(of_nat (length (sampled_ring A s h)) :: u32) + (if overruns_now A s h then 1 else 0) =
    of_nat (length (records s)) + (if samples_now A s h then 1 else 0)"
proof -
  have "sampled_record A now s h1 \<noteq> []" for now h1
    using sampled_record_ok(1) [OF assms, of A now h1] by (auto simp: record_ok_def)
  then show ?thesis
    by (auto simp: sampled_ring_def new_record_def samples_now_def overruns_now_def case_prod_beta Let_def)
qed

text \<open>C19. Every sample taken is accounted for.  A \<open>stream_poll\<close> without a pending START takes a sample
  when one is due, and counts it as an overrun when the ring is full.  It then moves the oldest \<open>k\<close>
  records from the ring to the end of the packet, and one of three things happens: the transport takes
  the packet, record for record; packet and ring are kept; or the firmware gives up on the host and
  counts every waiting record as an overrun.  So the samples taken, less those counted as overruns,
  waiting in the ring or in the packet, grow by exactly the \<open>n\<close> records of the packet handed over, and by
  nothing if none was.\<close>

theorem every_sample_is_accounted_for:
  assumes "reachable b A (s, h)" and "wf_board b" and "logs_packets A sent"
    and "fw_start_done s = fw_start_requests s" and "stream_poll b A s h = (s', h')"
  shows "\<exists>k n. fw_seq s' - accounted s' = fw_seq s - accounted s + of_nat n \<and>
    k \<le> length (sampled_ring A s h) \<and>
    fw_seq s' = fw_seq s + (if samples_now A s h then 1 else 0) \<and>
    (let ring = sampled_ring A s h; waiting = packet s @ concat (take k ring);
         missed = fw_overruns s + (if overruns_now A s h then 1 else 0)
     in n = unat (fw_packet_records s) + k \<and> sent h' = sent h @ [waiting] \<and> packet s' = [] \<and>
          fw_packet_records s' = 0 \<and> records s' = drop k ring \<and> fw_overruns s' = missed \<or>
        n = 0 \<and> sent h' = sent h \<and> packet s' = waiting \<and>
          unat (fw_packet_records s') = unat (fw_packet_records s) + k \<and> records s' = drop k ring \<and>
          fw_overruns s' = missed \<or>
        n = 0 \<and> sent h' = sent h \<and> packet s' = [] \<and> fw_packet_records s' = 0 \<and> records s' = [] \<and>
          \<not> fw_running s' \<and>
          fw_overruns s' = missed + of_nat (unat (fw_packet_records s) + length ring))"
proof -
  have inv: "stream_inv b s" "unat (fw_n_pins s) \<le> 128"
    using reachable_inv [OF assms(1,2)] by (simp_all add: fw_inv_parts)
  obtain s2 h2 where 2: "take_due_sample A s h = (s2, h2)" by fastforce
  obtain s3 h3 where 3: "pack_records b A s2 h2 = (s3, h3)" by fastforce
  note taken = take_due_sample_books [OF inv 2]
  have inv2: "stream_inv b s2"
    using take_due_sample_inv [OF inv, of A h] by (simp add: 2)
  obtain k where k: "packs k s2 s3"
    by (rule pack_records_books [OF inv2 assms(2), of A h2]) (simp add: 3)
  have sent3: "sent h3 = sent h"
    using take_due_sample_sent [OF assms(3), of s h] pack_records_sent [OF assms(3), of b s2 h2]
    by (simp add: 2 3)
  have "send_packet b A s3 h3 = (s', h')"
    using assms(5) apply_start_pipeline(1) [OF assms(4), of A h] by (simp add: stream_poll_def 2 3)
  from send_packet_books [OF assms(3) this] obtain f where
    seq: "fw_seq s' = fw_seq s3" and f: "fares sent f s3 h3 s' h'"
    by blast
  let ?n = "case f of Delivered \<Rightarrow> unat (fw_packet_records s) + k | _ \<Rightarrow> 0"
  have pr: "unat (fw_packet_records s3) = unat (fw_packet_records s) + k"
    using k taken(3) by (simp add: packs_def)
  have ring: "records s3 = drop k (sampled_ring A s h)" "k \<le> length (sampled_ring A s h)"
    "fw_overruns s3 = fw_overruns s + (if overruns_now A s h then 1 else 0)"
    "fw_seq s' = fw_seq s + (if samples_now A s h then 1 else 0)"
    using k taken seq by (simp_all add: packs_def)
  have count: "(ucast x :: u32) = of_nat (unat x)" for x :: u8
    by simp
  have balance: "fw_seq s' - accounted s' = fw_seq s - accounted s + of_nat ?n"
  proof (cases f)
    case Delivered
    then show ?thesis
      using f ring(1-3) length_sampled_ring [OF inv, of A h]
      unfolding accounted_def ring(4) count by (simp add: pr algebra_simps of_nat_diff split del: if_split)
  next
    case Kept
    then show ?thesis
      using f ring(1-3) length_sampled_ring [OF inv, of A h]
      unfolding accounted_def ring(4) count by (simp add: pr algebra_simps of_nat_diff split del: if_split)
  next
    case Given_up
    then show ?thesis
      using f ring(1-3) length_sampled_ring [OF inv, of A h]
      unfolding accounted_def ring(4) count by (simp add: pr algebra_simps of_nat_diff split del: if_split)
  qed
  show ?thesis
  proof (intro exI conjI)
    show "fw_seq s' - accounted s' = fw_seq s - accounted s + of_nat ?n"
      by (rule balance)
    show "k \<le> length (sampled_ring A s h)"
      using k taken(1) by (simp add: packs_def)
    show "fw_seq s' = fw_seq s + (if samples_now A s h then 1 else 0)"
      using k taken(4) seq by (simp add: packs_def)
  qed (use k f taken pr sent3 in \<open>cases f; auto simp: packs_def Let_def\<close>)
qed

theorem every_sample_witness:
  "fw_seq (fst (stream_poll bench_board bench_arduino (fst stream_run) (snd stream_run))) = 2 \<and>
   (\<exists>n. fw_seq (fst (stream_poll bench_board bench_arduino (fst stream_run) (snd stream_run))) -
      accounted (fst (stream_poll bench_board bench_arduino (fst stream_run) (snd stream_run))) = of_nat n)"
proof -
  let ?s = "fst stream_run" and ?h = "snd stream_run"
  obtain s' h' where run: "stream_poll bench_board bench_arduino ?s ?h = (s', h')" by fastforce
  have r: "reachable bench_board bench_arduino (?s, ?h)"
    using stream_run_reachable by simp
  have "fw_start_done ?s = fw_start_requests ?s" "fw_seq ?s = 1" "accounted ?s = 1"
    "samples_now bench_arduino ?s ?h"
    by code_simp+
  with every_sample_is_accounted_for [OF r wf_bench_board bench_logs_packets _ run] run
  show ?thesis
    by auto
qed

section \<open>The schedule\<close>

text \<open>C20. Once a periodic stream takes a due sample, its next deadline lies ahead of the clock by at
  least one microsecond and at most one period, however late the sample was: the schedule neither
  bursts to catch up nor stalls.\<close>

theorem schedule_stays_ahead:
  assumes "micros A h = (now, h1)" and "due now s" and "fw_period_us s \<noteq> 0"
  shows "1 \<le> unat (fw_deadline_us (fst (take_due_sample A s h)) - now) \<and>
    unat (fw_deadline_us (fst (take_due_sample A s h)) - now) \<le> unat (fw_period_us s)"
proof -
  let ?t = "fst (stream_sample A now s h1)"
  have t: "fw_period_us ?t = fw_period_us s" "fw_deadline_us ?t = fw_deadline_us s"
    by (simp_all add: stream_sample_def Let_def split: prod.split)
  have "fst (take_due_sample A s h) = reschedule now ?t"
    using assms by (simp add: take_due_sample_def due_def case_prod_beta)
  moreover have "0 \<le> sint (now - fw_deadline_us s)"
    using assms(2,3) by (simp add: due_def)
  ultimately show ?thesis
    using reschedule_ahead [of ?t now] assms(3) by (simp add: t)
qed

definition late_stream :: fw where
  "late_stream = (construct bench_board)\<lparr>fw_running := True, fw_period_us := 1000,
     fw_deadline_us := 0xFFFFFFF0\<rparr>"

theorem schedule_witness:
  "unat (fw_deadline_us (fst (take_due_sample bench_arduino late_stream
     (quiet_bench\<lparr>clock_us := 5000\<rparr>))) - 5000) \<le> 1000"
proof -
  have m: "micros bench_arduino (quiet_bench\<lparr>clock_us := 5000\<rparr>) = (5000, quiet_bench\<lparr>clock_us := 5000\<rparr>)"
    by (simp add: bench_arduino_def)
  have "due 5000 late_stream" "fw_period_us late_stream \<noteq> 0" "fw_period_us late_stream = 1000"
    by (simp_all add: due_def late_stream_def)
  with schedule_stays_ahead [OF m] show ?thesis
    by force
qed

section \<open>Bitmap and channels\<close>

text \<open>Bit \<open>p mod 8\<close> of byte \<open>p div 8\<close> of the DIO_READ_ALL bitmap, and of the bitmap of stream
  records, is set exactly when pin \<open>p\<close> is in a digital mode and its shadow level is high.\<close>

theorem bitmap_bits_are_pin_levels:
  assumes "reachable b A c" and "wf_board b" and "p < fw_n_pins (fst c)"
  shows "bit (reply_dio_read_all (fst c) ! (2 + unat p div 8)) (unat p mod 8) \<longleftrightarrow>
    mode_is_digital (fw_mode (fst c) p) \<and> fw_dio (fst c) p \<noteq> 0"
proof -
  have "unat (fw_n_pins (fst c)) \<le> 128"
    using reachable_inv [OF assms(1,2)] by (simp add: fw_inv_parts)
  from bit_digital_bitmap [OF this assms(3)] show ?thesis
    by (simp add: reply_dio_read_all_def all_header_bytes_def digital_high_def)
qed

theorem bitmap_witness:
  "bit (reply_dio_read_all (fst (sketch_poll queued_run)) ! 2) 3"
proof -
  have "reachable bench_board bench_arduino (sketch_poll queued_run)"
    by (intro bench_reachable queued_run_reachable)
  moreover have "3 < fw_n_pins (fst (sketch_poll queued_run))"
    "mode_is_digital (fw_mode (fst (sketch_poll queued_run)) 3)" "fw_dio (fst (sketch_poll queued_run)) 3 \<noteq> 0"
    by code_simp+
  ultimately show ?thesis
    using bitmap_bits_are_pin_levels [OF _ wf_bench_board, of bench_arduino "sketch_poll queued_run" 3]
    by simp
qed

text \<open>In every reachable state an accepted STREAM_SELECT appends a new pin to the channel list,
  leaves the list alone when the pin is already in it, or removes the pin and closes the gap; the
  order of the other channels never changes.\<close>

theorem select_edits_the_channel_list:
  assumes "reachable b A c" and "wf_board b" and "fst (handle_stream_select v i (fst c))"
  shows "stream_channels (snd (handle_stream_select v i (fst c))) =
    (if v = 0 then remove1 (ucast i) (stream_channels (fst c))
     else if ucast i \<in> set (stream_channels (fst c)) then stream_channels (fst c)
     else stream_channels (fst c) @ [ucast i])"
proof -
  have "distinct (stream_channels (fst c))"
    using reachable_inv [OF assms(1,2)] by (simp add: fw_inv_def stream_inv_def)
  moreover have "select_error v i (fst c) = None"
    using assms(3) select_rejected [of v i "fst c"] by (cases "select_error v i (fst c)") (auto simp: stall_def)
  ultimately show ?thesis
    by (intro select_accepted(2))
qed

definition selected_run :: "fw \<times> bench" where
  "selected_run = send (out_packet USBIO_REQ_STREAM_SELECT 1 5)
     (send (out_packet USBIO_REQ_STREAM_SELECT 1 4)
        (send (out_packet USBIO_REQ_PIN_MODE 4 5) (send (out_packet USBIO_REQ_PIN_MODE 4 4) started)))"

theorem select_witness:
  "stream_channels (snd (handle_stream_select 0 4 (fst selected_run))) = [5]"
proof -
  have "reachable bench_board bench_arduino selected_run"
    unfolding selected_run_def by (intro bench_reachable)
  moreover have "fst (handle_stream_select 0 4 (fst selected_run))"
    "stream_channels (fst selected_run) = [4, 5]"
    by code_simp+
  ultimately show ?thesis
    using select_edits_the_channel_list [OF _ wf_bench_board, of bench_arduino selected_run 0 4] by simp
qed

section \<open>Boards\<close>

text \<open>Where no sum of the variant's macros wraps, the pins the firmware claims are those up to
  the last pin the variant names, clamped to its pin table and to the 128 pins of the protocol.\<close>

theorem named_pins_are_claimed:
  assumes "\<forall>e \<in> set (named_ends v). e < 2 ^ 32"
  shows "unat (named_pin_count v) = min 128
    (case PINS_COUNT v of Some c \<Rightarrow> min (unat c) (Max (set (named_ends v)))
     | None \<Rightarrow> Max (set (named_ends v)))"
  by (rule named_pin_count_max [OF assms])

theorem named_pins_witness: "unat (named_pin_count bench_variant) = 8"
proof -
  have ends: "set (named_ends bench_variant) = {4, 8}"
    by (auto simp: named_ends_def bench_variant_def)
  then have "\<forall>e \<in> set (named_ends bench_variant). e < 2 ^ 32"
    by simp
  moreover have "PINS_COUNT bench_variant = Some 8"
    by (simp add: bench_variant_def)
  ultimately show ?thesis
    using named_pins_are_claimed [of bench_variant] by (simp add: ends)
qed

end
