(* ===== verification/HostIO.thy ===== *)
theory HostIO
  imports Prelude
begin

text \<open>
  What the host library builds on: its exceptions (\<open>extras/driver/include/arduino_driver/Errors.h\<close>)
  as values, the mapping of libusb codes to them (\<open>src/LibusbTransport.cpp\<close>), and effectful
  operations as functions from the outside world \<open>'t\<close> to a result and the next world.  An
  exception is the left side of the result; the text of its message is not modelled.
\<close>

section \<open>Exceptions\<close>

abbreviation (input) LIBUSB_SUCCESS :: int where "LIBUSB_SUCCESS \<equiv> 0"
abbreviation (input) LIBUSB_ERROR_IO :: int where "LIBUSB_ERROR_IO \<equiv> -1"
abbreviation (input) LIBUSB_ERROR_INVALID_PARAM :: int where "LIBUSB_ERROR_INVALID_PARAM \<equiv> -2"
abbreviation (input) LIBUSB_ERROR_ACCESS :: int where "LIBUSB_ERROR_ACCESS \<equiv> -3"
abbreviation (input) LIBUSB_ERROR_NO_DEVICE :: int where "LIBUSB_ERROR_NO_DEVICE \<equiv> -4"
abbreviation (input) LIBUSB_ERROR_NOT_FOUND :: int where "LIBUSB_ERROR_NOT_FOUND \<equiv> -5"
abbreviation (input) LIBUSB_ERROR_BUSY :: int where "LIBUSB_ERROR_BUSY \<equiv> -6"
abbreviation (input) LIBUSB_ERROR_TIMEOUT :: int where "LIBUSB_ERROR_TIMEOUT \<equiv> -7"
abbreviation (input) LIBUSB_ERROR_OVERFLOW :: int where "LIBUSB_ERROR_OVERFLOW \<equiv> -8"
abbreviation (input) LIBUSB_ERROR_PIPE :: int where "LIBUSB_ERROR_PIPE \<equiv> -9"
abbreviation (input) LIBUSB_ERROR_INTERRUPTED :: int where "LIBUSB_ERROR_INTERRUPTED \<equiv> -10"
abbreviation (input) LIBUSB_ERROR_NO_MEM :: int where "LIBUSB_ERROR_NO_MEM \<equiv> -11"
abbreviation (input) LIBUSB_ERROR_NOT_SUPPORTED :: int where "LIBUSB_ERROR_NOT_SUPPORTED \<equiv> -12"
abbreviation (input) LIBUSB_ERROR_OTHER :: int where "LIBUSB_ERROR_OTHER \<equiv> -99"

definition usb_error_name :: "int \<Rightarrow> string" where
  "usb_error_name code =
     (if code = LIBUSB_SUCCESS then ''LIBUSB_SUCCESS''
      else if code = LIBUSB_ERROR_IO then ''LIBUSB_ERROR_IO''
      else if code = LIBUSB_ERROR_INVALID_PARAM then ''LIBUSB_ERROR_INVALID_PARAM''
      else if code = LIBUSB_ERROR_ACCESS then ''LIBUSB_ERROR_ACCESS''
      else if code = LIBUSB_ERROR_NO_DEVICE then ''LIBUSB_ERROR_NO_DEVICE''
      else if code = LIBUSB_ERROR_NOT_FOUND then ''LIBUSB_ERROR_NOT_FOUND''
      else if code = LIBUSB_ERROR_BUSY then ''LIBUSB_ERROR_BUSY''
      else if code = LIBUSB_ERROR_TIMEOUT then ''LIBUSB_ERROR_TIMEOUT''
      else if code = LIBUSB_ERROR_OVERFLOW then ''LIBUSB_ERROR_OVERFLOW''
      else if code = LIBUSB_ERROR_PIPE then ''LIBUSB_ERROR_PIPE''
      else if code = LIBUSB_ERROR_INTERRUPTED then ''LIBUSB_ERROR_INTERRUPTED''
      else if code = LIBUSB_ERROR_NO_MEM then ''LIBUSB_ERROR_NO_MEM''
      else if code = LIBUSB_ERROR_NOT_SUPPORTED then ''LIBUSB_ERROR_NOT_SUPPORTED''
      else if code = LIBUSB_ERROR_OTHER then ''LIBUSB_ERROR_OTHER''
      else ''LIBUSB_ERROR_UNKNOWN'')"

text \<open>
  The classes derived from \<open>ArduinoDriver::Error\<close>; \<open>UsbError\<close> carries the libusb code, which
  its subclasses \<open>StallError\<close> and \<open>TimeoutError\<close> fix.  \<open>invalid_argument\<close> and \<open>bad_alloc\<close> are
  the standard library's, which no \<open>catch (const Error &)\<close> sees.
\<close>

datatype error =
    UsbError int | StallError | TimeoutError
  | ProtocolError | DeviceBusy | InvalidPin | InvalidMode | InvalidValue
  | NotSupported | QueueFull | NotReady | DeviceNotFound
  | invalid_argument | bad_alloc

fun is_Error :: "error \<Rightarrow> bool" where
  "is_Error invalid_argument = False"
| "is_Error bad_alloc = False"
| "is_Error _ = True"

fun usb_error_code :: "error \<Rightarrow> int option" where
  "usb_error_code (UsbError code) = Some code"
| "usb_error_code StallError = Some LIBUSB_ERROR_PIPE"
| "usb_error_code TimeoutError = Some LIBUSB_ERROR_TIMEOUT"
| "usb_error_code _ = None"

definition throw_usb_error :: "int \<Rightarrow> error" where
  "throw_usb_error code =
     (if code = LIBUSB_ERROR_PIPE then StallError
      else if code = LIBUSB_ERROR_TIMEOUT then TimeoutError
      else UsbError code)"

lemma usb_error_code_throw [simp]: "usb_error_code (throw_usb_error code) = Some code"
  by (simp add: throw_usb_error_def)

section \<open>Operations with effects\<close>

type_synonym ('t, 'a) io = "'t \<Rightarrow> (error + 'a) \<times> 't"

definition ret :: "'a \<Rightarrow> ('t, 'a) io" where
  "ret x w = (Inr x, w)"

definition throw :: "error \<Rightarrow> ('t, 'a) io" where
  "throw e w = (Inl e, w)"

text \<open>\<open>io_bind m f\<close> is \<open>auto x = m; f(x)\<close>: an exception in \<open>m\<close> skips \<open>f\<close>.\<close>

definition io_bind :: "('t, 'a) io \<Rightarrow> ('a \<Rightarrow> ('t, 'b) io) \<Rightarrow> ('t, 'b) io" where
  "io_bind m f w = (case m w of (Inl e, w1) \<Rightarrow> (Inl e, w1) | (Inr x, w1) \<Rightarrow> f x w1)"

text \<open>\<open>io_catch m handler\<close> is \<open>try { m } catch (e) { handler(e) }\<close>.\<close>

definition io_catch :: "('t, 'a) io \<Rightarrow> (error \<Rightarrow> ('t, 'a) io) \<Rightarrow> ('t, 'a) io" where
  "io_catch m handler w =
     (case m w of (Inl e, w1) \<Rightarrow> handler e w1 | (Inr x, w1) \<Rightarrow> (Inr x, w1))"

text \<open>\<open>require\<close> is a guard \<open>if (!ok) throw e;\<close>.\<close>

definition require :: "bool \<Rightarrow> error \<Rightarrow> ('t, unit) io" where
  "require ok e = (if ok then ret () else throw e)"

definition lift_result :: "error + 'a \<Rightarrow> ('t, 'a) io" where
  "lift_result r w = (r, w)"

text \<open>A loop \<open>for (x : xs) f(x);\<close> stops at the first exception.\<close>

primrec io_each :: "('x \<Rightarrow> ('t, unit) io) \<Rightarrow> 'x list \<Rightarrow> ('t, unit) io" where
  "io_each f [] = ret ()"
| "io_each f (x # xs) = io_bind (f x) (\<lambda>_. io_each f xs)"

named_theorems io_simps \<open>evaluation of the operations on a known first result\<close>

lemma io_basic [io_simps]:
  "ret x w = (Inr x, w)"
  "throw e w = (Inl e, w)"
  "require True e w = (Inr (), w)"
  "require False e w = (Inl e, w)"
  "lift_result r w = (r, w)"
  by (simp_all add: ret_def throw_def require_def lift_result_def)

lemma io_bind_Inl [io_simps]: "m w = (Inl e, w1) \<Longrightarrow> io_bind m f w = (Inl e, w1)"
  by (simp add: io_bind_def)

lemma io_bind_Inr [io_simps]: "m w = (Inr x, w1) \<Longrightarrow> io_bind m f w = f x w1"
  by (simp add: io_bind_def)

lemma io_catch_Inl [io_simps]: "m w = (Inl e, w1) \<Longrightarrow> io_catch m h w = h e w1"
  by (simp add: io_catch_def)

lemma io_catch_Inr [io_simps]: "m w = (Inr x, w1) \<Longrightarrow> io_catch m h w = (Inr x, w1)"
  by (simp add: io_catch_def)

lemma io_bind_ret [simp]: "io_bind (ret x) f = f x"
  by (rule ext) (simp add: io_simps)

lemma io_bind_throw [simp]: "io_bind (throw e) f = throw e"
  by (rule ext) (simp add: io_simps)

lemma io_bind_require:
  "io_bind (require ok e) f = (if ok then f () else throw e)"
  by (rule ext) (simp add: io_simps)

lemma io_bind_assoc: "io_bind (io_bind m f) g = io_bind m (\<lambda>x. io_bind (f x) g)"
  by (rule ext) (simp add: io_bind_def split: prod.split sum.split)

lemma io_bind_InrE:
  assumes "io_bind m f w = (Inr y, w2)"
  obtains x w1 where "m w = (Inr x, w1)" and "f x w1 = (Inr y, w2)"
  using assms by (auto simp: io_bind_def split: prod.splits sum.splits)

lemma io_require_Inr: "require ok e w = (Inr u, w1) \<longleftrightarrow> ok \<and> w1 = w"
  by (auto simp: require_def ret_def throw_def)

text \<open>What holds of the world after an operation, whether it returns or throws.\<close>

definition io_keeps :: "('t \<Rightarrow> bool) \<Rightarrow> ('t, 'a) io \<Rightarrow> bool" where
  "io_keeps I m \<longleftrightarrow> (\<forall>w. I w \<longrightarrow> I (snd (m w)))"

lemma io_keepsD: "io_keeps I m \<Longrightarrow> I w \<Longrightarrow> I (snd (m w))"
  by (simp add: io_keeps_def)

lemma io_keeps_intros [intro]:
  "io_keeps I (ret x)" "io_keeps I (throw e)" "io_keeps I (require ok e)"
  "io_keeps I (lift_result r)"
  by (auto simp: io_keeps_def io_simps require_def)

lemma io_keeps_bind [intro]:
  assumes "io_keeps I m" and "\<And>x. io_keeps I (f x)"
  shows "io_keeps I (io_bind m f)"
  unfolding io_keeps_def
proof (intro allI impI)
  fix w assume "I w"
  then have "I (snd (m w))"
    using assms(1) by (simp add: io_keeps_def)
  then show "I (snd (io_bind m f w))"
    using assms(2) by (auto simp: io_bind_def io_keeps_def split: prod.split sum.split)
qed

lemma io_keeps_catch [intro]:
  assumes "io_keeps I m" and "\<And>e. io_keeps I (h e)"
  shows "io_keeps I (io_catch m h)"
  unfolding io_keeps_def
proof (intro allI impI)
  fix w assume "I w"
  then have "I (snd (m w))"
    using assms(1) by (simp add: io_keeps_def)
  then show "I (snd (io_catch m h w))"
    using assms(2) by (auto simp: io_catch_def io_keeps_def split: prod.split sum.split)
qed

lemma io_keeps_each: "(\<And>x. x \<in> set xs \<Longrightarrow> io_keeps I (f x)) \<Longrightarrow> io_keeps I (io_each f xs)"
  by (induction xs) auto

end
