(* ===== verification/HostProtocol.thy ===== *)
theory HostProtocol
  imports HostIO Core
begin

text \<open>
  The host's view of the wire (\<open>extras/driver/include/arduino_driver/Protocol.h\<close>): the lengths of
  the replies, the request kinds and the two recipient forms, the capability rules the driver
  checks before it sends anything, and the decoders of every reply, each with the theorem that
  it inverts the layout the firmware writes.

  A C++ \<open>enum class\<close> obtained by \<open>static_cast\<close> from a wire byte may hold any value of its
  underlying type, so statuses, modes, edges and board ids are kept as that integer; \<open>status_of\<close>,
  \<open>mode_of\<close> and \<open>edge_of\<close> name the values that have an enumerator.  The decoded structs are the
  records of \<open>Wire\<close>, except where the decoder changes a field's type.
\<close>

section \<open>Lengths\<close>

definition dio_bitmap_len :: "nat \<Rightarrow> nat" where
  "dio_bitmap_len n_pins = (n_pins + 7) div 8"

definition dio_read_all_len :: "nat \<Rightarrow> nat" where
  "dio_read_all_len n_pins = 2 + dio_bitmap_len n_pins"

definition ai_read_all_len :: "nat \<Rightarrow> nat" where
  "ai_read_all_len n_ain = 2 + 2 * n_ain"

definition stream_digital_bitmap_len :: "nat \<Rightarrow> nat" where
  "stream_digital_bitmap_len n_pins =
     (let raw = dio_bitmap_len n_pins in raw + raw mod 2)"

definition stream_record_len :: "nat \<Rightarrow> bool \<Rightarrow> nat \<Rightarrow> nat" where
  "stream_record_len n_samples digital n_pins =
     (let len = 12 + 2 * n_samples
      in if digital then len + stream_digital_bitmap_len n_pins else len)"

definition event_pop_len :: "nat \<Rightarrow> nat" where
  "event_pop_len count = 4 + 8 * count"

definition event_counts_len :: "nat \<Rightarrow> nat" where
  "event_counts_len count = 4 + 4 * count"

definition encode_event_config_value :: "u8 \<Rightarrow> u8 \<Rightarrow> u16" where
  "encode_event_config_value debounce_ms edge = push_bit 8 (ucast debounce_ms) OR ucast edge"

definition max_value :: "nat \<Rightarrow> u16" where
  "max_value bits =
     (if bits = 0 then 0
      else if bits \<ge> 16 then 0xFFFF
      else ucast (push_bit bits (1 :: u32) - 1))"

section \<open>Requests\<close>

fun is_out :: "usbio_request \<Rightarrow> bool" where
  "is_out USBIO_REQ_PIN_MODE = True"
| "is_out USBIO_REQ_DIO_WRITE = True"
| "is_out USBIO_REQ_PWM_WRITE = True"
| "is_out USBIO_REQ_DAC_WRITE = True"
| "is_out USBIO_REQ_STREAM_SELECT = True"
| "is_out USBIO_REQ_STREAM_START = True"
| "is_out USBIO_REQ_STREAM_STOP = True"
| "is_out USBIO_REQ_EVENT_CONFIG = True"
| "is_out USBIO_REQ_RESET = True"
| "is_out USBIO_REQ_GET_INFO = False"
| "is_out USBIO_REQ_GET_PIN_CAPS = False"
| "is_out USBIO_REQ_DIO_READ = False"
| "is_out USBIO_REQ_AI_READ = False"
| "is_out USBIO_REQ_DIO_READ_ALL = False"
| "is_out USBIO_REQ_AI_READ_ALL = False"
| "is_out USBIO_REQ_GET_STATUS = False"
| "is_out USBIO_REQ_STREAM_STATUS = False"
| "is_out USBIO_REQ_GET_TIME = False"
| "is_out USBIO_REQ_EVENT_POP = False"
| "is_out USBIO_REQ_EVENT_COUNTS = False"

datatype recipient = RecipientDevice | RecipientInterface

fun bm_request_type :: "bool \<Rightarrow> recipient \<Rightarrow> u8" where
  "bm_request_type out RecipientInterface = (if out then 0x41 else 0xC1)"
| "bm_request_type out RecipientDevice = (if out then 0x40 else 0xC0)"

definition request_type :: "usbio_request \<Rightarrow> recipient \<Rightarrow> u8" where
  "request_type request rcp = bm_request_type (is_out request) rcp"

definition interface_index :: "u16 \<Rightarrow> u8 \<Rightarrow> u16" where
  "interface_index index interface_number = push_bit 8 index OR ucast interface_number"

section \<open>Capabilities\<close>

text \<open>\<open>PinCaps::has\<close> and \<open>StreamFlags::has\<close>.\<close>

definition has :: "u8 \<Rightarrow> u8 \<Rightarrow> bool" where
  "has bits req \<longleftrightarrow> bits AND req = req"

definition required_caps :: "u8 \<Rightarrow> u8" where
  "required_caps mode =
     (case mode_of mode of
        Some USBIO_MODE_INPUT \<Rightarrow> USBIO_CAP_DIO
      | Some USBIO_MODE_OUTPUT \<Rightarrow> USBIO_CAP_DIO
      | Some USBIO_MODE_INPUT_PULLUP \<Rightarrow> USBIO_CAP_DIO
      | Some USBIO_MODE_INPUT_PULLDOWN \<Rightarrow> USBIO_CAP_DIO
      | Some USBIO_MODE_ANALOG_IN \<Rightarrow> USBIO_CAP_AIN
      | Some USBIO_MODE_PWM \<Rightarrow> USBIO_CAP_PWM
      | Some USBIO_MODE_DAC \<Rightarrow> USBIO_CAP_DAC
      | None \<Rightarrow> 0xFF)"

definition mode_supported :: "u8 \<Rightarrow> u8 \<Rightarrow> bool \<Rightarrow> bool" where
  "mode_supported mode caps pulldown_supported =
     (if \<not> has caps (required_caps mode) then False
      else mode \<noteq> mode_code USBIO_MODE_INPUT_PULLDOWN \<or> pulldown_supported)"

section \<open>Device information\<close>

definition has_vendor_interface :: "usbio_info \<Rightarrow> bool" where
  "has_vendor_interface i \<longleftrightarrow> info_flags i AND USBIO_FLAG_VENDOR_INTERFACE \<noteq> 0"

definition supports_pulldown :: "usbio_info \<Rightarrow> bool" where
  "supports_pulldown i \<longleftrightarrow> info_flags i AND USBIO_FLAG_PULLDOWN \<noteq> 0"

definition has_dac :: "usbio_info \<Rightarrow> bool" where
  "has_dac i \<longleftrightarrow> info_dac_bits i \<noteq> 0"

definition streaming :: "usbio_info \<Rightarrow> bool" where
  "streaming i \<longleftrightarrow> info_flags i AND USBIO_FLAG_STREAMING \<noteq> 0"

definition events :: "usbio_info \<Rightarrow> bool" where
  "events i \<longleftrightarrow> info_flags i AND USBIO_FLAG_EVENTS \<noteq> 0"

definition min_stream_period_us :: "usbio_info \<Rightarrow> u16" where
  "min_stream_period_us i =
     (if \<not> streaming i then 0
      else if info_stream_min_period_us i \<noteq> 0 then info_stream_min_period_us i
      else USBIO_STREAM_LEGACY_MIN_PERIOD_US)"

section \<open>Decoders\<close>

definition write_u8 :: "bytes \<Rightarrow> nat \<Rightarrow> u8 \<Rightarrow> bytes" where
  "write_u8 bs offset v = bs[offset := v]"

definition write_u16le :: "bytes \<Rightarrow> nat \<Rightarrow> u16 \<Rightarrow> bytes" where
  "write_u16le bs offset v =
     bs[offset := ucast (v AND 0xFF), offset + 1 := ucast (drop_bit 8 v AND 0xFF)]"

definition write_u32le :: "bytes \<Rightarrow> nat \<Rightarrow> u32 \<Rightarrow> bytes" where
  "write_u32le bs offset v =
     write_u16le (write_u16le bs offset (ucast (v AND 0xFFFF))) (offset + 2)
       (ucast (drop_bit 16 v AND 0xFFFF))"

definition decode_info :: "bytes \<Rightarrow> error + usbio_info" where
  "decode_info bs =
     (if length bs < 24 then Inl ProtocolError
      else if \<exists>i \<in> set [0..<4]. bs ! i \<noteq> USBIO_MAGIC ! i then Inl ProtocolError
      else Inr \<lparr>info_protocol_version = read_u16le bs 4, info_board_id = read_u16le bs 6,
        info_n_pins = read_u8 bs 8, info_n_ain = read_u8 bs 9, info_adc_bits = read_u8 bs 10,
        info_pwm_bits = read_u8 bs 11, info_dac_bits = read_u8 bs 12,
        info_queue_depth = read_u8 bs 13, info_vref_mv = read_u16le bs 14,
        info_io_mv = read_u16le bs 16, info_flags = read_u16le bs 18,
        info_stream_max_channels = read_u8 bs 20, info_event_max_pins = read_u8 bs 21,
        info_stream_min_period_us = read_u16le bs 22\<rparr>)"

record StreamStatus =
  st_status :: u8
  st_running :: bool
  st_n_channels :: u8
  st_flags :: u8
  st_period_us :: u16
  st_seq :: u32
  st_overruns :: u32

definition decode_stream_status :: "bytes \<Rightarrow> error + StreamStatus" where
  "decode_stream_status bs =
     (if length bs < 16 then Inl ProtocolError
      else Inr \<lparr>st_status = read_u8 bs 0, st_running = (read_u8 bs 1 \<noteq> 0),
        st_n_channels = read_u8 bs 2, st_flags = read_u8 bs 3, st_period_us = read_u16le bs 4,
        st_seq = read_u32le bs 8, st_overruns = read_u32le bs 12\<rparr>)"

definition decode_stream_header :: "bytes \<Rightarrow> usbio_stream_header" where
  "decode_stream_header bs =
     \<lparr>sh_magic = read_u16le bs 0, sh_n_samples = read_u16le bs 2, sh_seq = read_u32le bs 4,
      sh_t_us = read_u32le bs 8\<rparr>"

definition encode_stream_header :: "bytes \<Rightarrow> usbio_stream_header \<Rightarrow> bytes" where
  "encode_stream_header bs h =
     write_u32le (write_u32le (write_u16le (write_u16le bs 0 (sh_magic h)) 2 (sh_n_samples h))
       4 (sh_seq h)) 8 (sh_t_us h)"

record TimeReply =
  tr_status :: u8
  tr_millis :: u32
  tr_micros :: u32

definition decode_time_reply :: "bytes \<Rightarrow> error + TimeReply" where
  "decode_time_reply bs =
     (if length bs < 12 then Inl ProtocolError
      else Inr \<lparr>tr_status = read_u8 bs 0, tr_millis = read_u32le bs 4,
        tr_micros = read_u32le bs 8\<rparr>)"

definition reconstruct_micros64 :: "u32 \<Rightarrow> u32 \<Rightarrow> u64" where
  "reconstruct_micros64 millis_value micros_value =
     (let wrap = push_bit 32 1;
          coarse = ucast millis_value * 1000;
          base = (coarse div wrap) * wrap;
          candidate = base + ucast micros_value
      in if candidate > coarse \<and> candidate - coarse > wrap div 2 then candidate - wrap
         else if coarse > candidate \<and> coarse - candidate > wrap div 2 then candidate + wrap
         else candidate)"

definition decode_event_header :: "bytes \<Rightarrow> error + usbio_event_header" where
  "decode_event_header bs =
     (if length bs < 4 then Inl ProtocolError
      else Inr \<lparr>eh_status = read_u8 bs 0, eh_count = read_u8 bs 1, eh_dropped = read_u8 bs 2,
        eh_pending = read_u8 bs 3\<rparr>)"

definition decode_event :: "bytes \<Rightarrow> nat \<Rightarrow> usbio_event" where
  "decode_event bs index =
     (let base = 4 + 8 * index
      in \<lparr>ev_pin = read_u8 bs base, ev_edge = read_u8 bs (base + 1),
          ev_seq = read_u16le bs (base + 2), ev_t_ms = read_u32le bs (base + 4)\<rparr>)"

definition decode_event_count :: "bytes \<Rightarrow> nat \<Rightarrow> usbio_event_count" where
  "decode_event_count bs index =
     (let base = 4 + 4 * index
      in \<lparr>ec_pin = read_u8 bs base, ec_mode = read_u8 bs (base + 1),
          ec_count = read_u16le bs (base + 2)\<rparr>)"

section \<open>Names\<close>

text \<open>
  The \<open>to_string\<close> overloads: one equation per \<open>case\<close> label, and the text after the \<open>switch\<close> for a
  value without an enumerator.
\<close>

fun request_name :: "usbio_request \<Rightarrow> string" where
  "request_name USBIO_REQ_GET_INFO = ''GET_INFO''"
| "request_name USBIO_REQ_GET_PIN_CAPS = ''GET_PIN_CAPS''"
| "request_name USBIO_REQ_PIN_MODE = ''PIN_MODE''"
| "request_name USBIO_REQ_DIO_READ = ''DIO_READ''"
| "request_name USBIO_REQ_DIO_WRITE = ''DIO_WRITE''"
| "request_name USBIO_REQ_AI_READ = ''AI_READ''"
| "request_name USBIO_REQ_PWM_WRITE = ''PWM_WRITE''"
| "request_name USBIO_REQ_DAC_WRITE = ''DAC_WRITE''"
| "request_name USBIO_REQ_DIO_READ_ALL = ''DIO_READ_ALL''"
| "request_name USBIO_REQ_AI_READ_ALL = ''AI_READ_ALL''"
| "request_name USBIO_REQ_GET_STATUS = ''GET_STATUS''"
| "request_name USBIO_REQ_STREAM_SELECT = ''STREAM_SELECT''"
| "request_name USBIO_REQ_STREAM_START = ''STREAM_START''"
| "request_name USBIO_REQ_STREAM_STOP = ''STREAM_STOP''"
| "request_name USBIO_REQ_STREAM_STATUS = ''GET_STREAM_STATUS''"
| "request_name USBIO_REQ_GET_TIME = ''GET_TIME''"
| "request_name USBIO_REQ_EVENT_CONFIG = ''EVENT_CONFIG''"
| "request_name USBIO_REQ_EVENT_POP = ''EVENT_POP''"
| "request_name USBIO_REQ_EVENT_COUNTS = ''EVENT_COUNTS''"
| "request_name USBIO_REQ_RESET = ''RESET''"

fun status_name :: "usbio_status \<Rightarrow> string" where
  "status_name USBIO_OK = ''OK''"
| "status_name USBIO_BUSY = ''BUSY''"
| "status_name USBIO_BAD_PIN = ''BAD_PIN''"
| "status_name USBIO_BAD_MODE = ''BAD_MODE''"
| "status_name USBIO_BAD_CMD = ''BAD_CMD''"
| "status_name USBIO_UNSUPPORTED = ''UNSUPPORTED''"
| "status_name USBIO_QUEUE_FULL = ''QUEUE_FULL''"
| "status_name USBIO_BAD_VALUE = ''BAD_VALUE''"

fun status_meaning :: "usbio_status \<Rightarrow> string" where
  "status_meaning USBIO_OK = ''no error''"
| "status_meaning USBIO_BUSY = ''queued commands still pending''"
| "status_meaning USBIO_BAD_PIN = ''pin index out of range''"
| "status_meaning USBIO_BAD_MODE = ''request not valid for the pin's current mode''"
| "status_meaning USBIO_BAD_CMD = ''unknown request''"
| "status_meaning USBIO_UNSUPPORTED = ''capability not available on this pin or board''"
| "status_meaning USBIO_QUEUE_FULL = ''command queue full''"
| "status_meaning USBIO_BAD_VALUE = ''value out of range''"

fun mode_name :: "usbio_pin_mode \<Rightarrow> string" where
  "mode_name USBIO_MODE_INPUT = ''INPUT''"
| "mode_name USBIO_MODE_OUTPUT = ''OUTPUT''"
| "mode_name USBIO_MODE_INPUT_PULLUP = ''INPUT_PULLUP''"
| "mode_name USBIO_MODE_INPUT_PULLDOWN = ''INPUT_PULLDOWN''"
| "mode_name USBIO_MODE_ANALOG_IN = ''ANALOG_IN''"
| "mode_name USBIO_MODE_PWM = ''PWM''"
| "mode_name USBIO_MODE_DAC = ''DAC''"

fun edge_name :: "usbio_edge_mode \<Rightarrow> string" where
  "edge_name USBIO_EDGE_OFF = ''OFF''"
| "edge_name USBIO_EDGE_RISING = ''RISING''"
| "edge_name USBIO_EDGE_FALLING = ''FALLING''"
| "edge_name USBIO_EDGE_CHANGE = ''CHANGE''"

fun board_label :: "usbio_board_id \<Rightarrow> string" where
  "board_label USBIO_BOARD_UNO_R4_MINIMA = ''UNO R4 Minima''"
| "board_label USBIO_BOARD_NANO_R4 = ''Nano R4''"
| "board_label USBIO_BOARD_RENESAS_GENERIC = ''Renesas board''"
| "board_label USBIO_BOARD_PORTENTA_H7 = ''Portenta H7''"
| "board_label USBIO_BOARD_GIGA_R1 = ''GIGA R1''"
| "board_label USBIO_BOARD_NANO_33_BLE = ''Nano 33 BLE''"
| "board_label USBIO_BOARD_MBED_GENERIC = ''mbed board''"
| "board_label USBIO_BOARD_ZERO = ''Zero''"
| "board_label USBIO_BOARD_MKR = ''MKR''"
| "board_label USBIO_BOARD_NANO_33_IOT = ''Nano 33 IoT''"
| "board_label USBIO_BOARD_SAMD_GENERIC = ''SAMD board''"
| "board_label USBIO_BOARD_NANO_RP2040_CONNECT = ''Nano RP2040 Connect''"
| "board_label USBIO_BOARD_RP2040_GENERIC = ''RP2040 board''"
| "board_label USBIO_BOARD_NANO_ESP32 = ''Nano ESP32''"
| "board_label USBIO_BOARD_ESP32_GENERIC = ''ESP32 board''"

definition all_boards :: "usbio_board_id list" where
    "all_boards = [USBIO_BOARD_UNO_R4_MINIMA, USBIO_BOARD_NANO_R4,
     USBIO_BOARD_RENESAS_GENERIC, USBIO_BOARD_PORTENTA_H7, USBIO_BOARD_GIGA_R1,
     USBIO_BOARD_NANO_33_BLE, USBIO_BOARD_MBED_GENERIC, USBIO_BOARD_ZERO, USBIO_BOARD_MKR,
     USBIO_BOARD_NANO_33_IOT, USBIO_BOARD_SAMD_GENERIC, USBIO_BOARD_NANO_RP2040_CONNECT,
     USBIO_BOARD_RP2040_GENERIC, USBIO_BOARD_NANO_ESP32, USBIO_BOARD_ESP32_GENERIC]"

definition board_of :: "u16 \<Rightarrow> usbio_board_id option" where
  "board_of code = map_of (map (\<lambda>b. (board_id_code b, b)) all_boards) code"

definition to_string_status :: "u8 \<Rightarrow> string" where
  "to_string_status code = (case status_of code of Some s \<Rightarrow> status_name s | None \<Rightarrow> ''UNKNOWN'')"

definition describe :: "u8 \<Rightarrow> string" where
  "describe code =
     (case status_of code of Some s \<Rightarrow> status_meaning s | None \<Rightarrow> ''unknown status code'')"

definition to_string_mode :: "u8 \<Rightarrow> string" where
  "to_string_mode code = (case mode_of code of Some m \<Rightarrow> mode_name m | None \<Rightarrow> ''UNKNOWN'')"

definition to_string_edge :: "u8 \<Rightarrow> string" where
  "to_string_edge code = (case edge_of code of Some e \<Rightarrow> edge_name e | None \<Rightarrow> ''UNKNOWN'')"

definition board_name :: "u16 \<Rightarrow> string" where
  "board_name code = (case board_of code of Some b \<Rightarrow> board_label b | None \<Rightarrow> ''unknown'')"

section \<open>The decoders invert the firmware's layouts\<close>

lemma read_end [wire_simps]:
  "read_u16le (put_u16 v) 0 = v" "read_u32le (put_u32 w) 0 = w"
  using read_u16le_walk(1) [of v "[]"] read_u32le_walk(1) [of w "[]"] by simp_all

lemma decode_info_bytes: "decode_info (info_bytes i) = Inr i"
  by (simp add: decode_info_def info_bytes_def USBIO_MAGIC_def upt_rec wire_simps)

lemma decode_stream_status_bytes:
  "decode_stream_status (stream_status_bytes s) =
     Inr \<lparr>st_status = ss_status s, st_running = (ss_running s \<noteq> 0), st_n_channels = ss_n_channels s,
       st_flags = ss_flags s, st_period_us = ss_period_us s, st_seq = ss_seq s,
       st_overruns = ss_overruns s\<rparr>"
  by (simp add: decode_stream_status_def stream_status_bytes_def wire_simps)

lemma decode_stream_header_bytes:
  "decode_stream_header (stream_header_bytes h @ rest) = h"
  by (simp add: decode_stream_header_def stream_header_bytes_def wire_simps)

lemma decode_time_reply_bytes:
  "decode_time_reply (time_reply_bytes ms us) =
     Inr \<lparr>tr_status = status_code USBIO_OK, tr_millis = ms, tr_micros = us\<rparr>"
  by (simp add: decode_time_reply_def time_reply_bytes_def wire_simps)

lemma decode_event_header_bytes:
  "decode_event_header (event_header_bytes h @ rest) = Inr h"
  by (simp add: decode_event_header_def event_header_bytes_def wire_simps)

lemma write_u16le_put: 
  "length xs = n \<Longrightarrow> write_u16le (xs @ a # b # ys) n v = xs @ put_u16 v @ ys"
proof -
  have "ucast (drop_bit 8 v AND 0xFF) = (ucast (drop_bit 8 v) :: u8)"
    unfolding mask8_u16 by (rule bit_word_eqI) (auto simp: bit_simps)
  then show "length xs = n \<Longrightarrow> ?thesis"
    by (auto simp: write_u16le_def put_u16_def list_update_append)
qed

lemma write_u32le_put: 
  "length xs = n \<Longrightarrow> write_u32le (xs @ a # b # c # d # ys) n v = xs @ put_u32 v @ ys"
  by (simp add: write_u32le_def write_u16le_put write_u16le_put [of "xs @ put_u16 w" for w, simplified]
   put_u32_def)

lemma encode_stream_header_bytes:
  assumes "length bs = 12" shows "encode_stream_header bs h = stream_header_bytes h"
proof -
  obtain a0 a1 a2 a3 a4 a5 a6 a7 a8 a9 a10 a11 where "bs = [a0,a1,a2,a3,a4,a5,a6,a7,a8,a9,a10,a11]"
    using assms by (auto simp: numeral_eq_Suc length_Suc_conv)
  then show ?thesis
    using write_u16le_put [of "[]"] 
     write_u16le_put [of "put_u16 (sh_magic h)" 2]
     write_u32le_put [of "put_u16 (sh_magic h) @ put_u16 (sh_n_samples h)" 4]
     write_u32le_put [of "put_u16 (sh_magic h) @ put_u16 (sh_n_samples h) @ put_u32 (sh_seq h)" 8 _ _ _ _ "[]"]
   by (simp add: encode_stream_header_def stream_header_bytes_def)
qed

lemma max_value_full_scale: "max_value (unat bits) = full_scale bits"
proof -
  have "ucast (push_bit n (1 :: u32) - 1) = (push_bit n 1 - 1 :: u16)" if "n < 16" for n
   proof -
    have "push_bit n (1 :: u32) - 1 = mask n" "push_bit n (1 :: u16) - 1 = mask n"
      by (simp_all add: mask_eq_exp_minus_1)
    then show ?thesis
      using that by (simp only:) (rule bit_word_eqI, auto simp: bit_simps)
   qed
  then show ?thesis
   by (auto simp: max_value_def full_scale_def word_le_nat_alt)
qed

lemma request_of_interface_index:
  "i < 256 \<Longrightarrow> drop_bit 8 (interface_index i n) = i"
proof (rule bit_word_eqI)
  fix k assume i: "i < 256" and k: "k < LENGTH(16)"
  have low: "m < 8" if "bit i m" for m
  proof -
    have "take_bit 8 i = i"
      using i by (simp add: unsigned_take_bit_eq take_bit_nat_eq_self_iff word_unat_eq_iff word_less_nat_alt)
    then show ?thesis
      using that by (metis bit_take_bit_iff)
  qed
  then show "bit (drop_bit 8 (interface_index i n)) k = bit i k"
    using k by (auto simp: interface_index_def bit_simps dest: bit_imp_le_length low)
qed

lemma has_single: "k < 8 \<Longrightarrow> has caps (2 ^ k) \<longleftrightarrow> caps AND 2 ^ k \<noteq> 0"
proof -
  assume "k < 8"
  then have "caps AND 2 ^ k = (if bit caps k then 2 ^ k else 0)"
    by (intro bit_word_eqI) (auto simp: bit_simps)
  moreover from \<open>k < 8\<close> have "(2 ^ k :: u8) \<noteq> 0"
    by simp
  ultimately show ?thesis
    by (simp add: has_def)
qed

lemma has_caps:
  "has caps 1 \<longleftrightarrow> caps AND 1 \<noteq> 0" "has caps 2 \<longleftrightarrow> caps AND 2 \<noteq> 0"
  "has caps 4 \<longleftrightarrow> caps AND 4 \<noteq> 0" "has caps 8 \<longleftrightarrow> caps AND 8 \<noteq> 0"
  using has_single [of 0 caps] has_single [of 1 caps] has_single [of 2 caps] has_single [of 3 caps]
  by simp_all

lemmas mode_of_values =
  mode_of_code [of USBIO_MODE_INPUT, simplified] mode_of_code [of USBIO_MODE_OUTPUT, simplified]
  mode_of_code [of USBIO_MODE_INPUT_PULLUP, simplified] mode_of_code [of USBIO_MODE_INPUT_PULLDOWN, simplified]
  mode_of_code [of USBIO_MODE_ANALOG_IN, simplified] mode_of_code [of USBIO_MODE_PWM, simplified]
  mode_of_code [of USBIO_MODE_DAC, simplified]

lemma mode_supported_iff:
  "mode_supported (mode_code m) caps (HasPulldown b) \<longleftrightarrow> mode_allowed b caps m"
  by (cases m) (simp_all add: mode_supported_def required_caps_def has_caps
    mode_of_values)

lemma reconstruct_nat:
  fixes T :: nat
  defines "c \<equiv> T div 1000 * 1000" and "x \<equiv> T div 1000 * 1000 div 4294967296 * 4294967296 + T mod 4294967296"
  shows "(if x > c \<and> x - c > 2147483648 then x - 4294967296
          else if c > x \<and> c - x > 2147483648 then x + 4294967296 else x) = T"
proof -
  have c: "c \<le> T" "T < c + 1000"
    unfolding c_def using div_mult_mod_eq [of T 1000] mod_less_divisor [of 1000 T] by linarith+
  define q where "q = c div 4294967296"
  define r where "r = T div 4294967296"
  have T: "T = r * 4294967296 + T mod 4294967296" unfolding r_def by simp
  have m: "T mod 4294967296 < 4294967296" by simp
  have cq: "q * 4294967296 \<le> c" "c < q * 4294967296 + 4294967296"
    using div_mult_mod_eq [of c 4294967296] mod_less_divisor [of 4294967296 c]
    unfolding q_def by linarith+
  have x: "x = q * 4294967296 + T mod 4294967296" by (simp add: x_def q_def c_def)
  have "q \<le> r" "r \<le> q + 1"
    using c cq T m by linarith+
  then consider "r = q" | "r = q + 1" by linarith
  then show ?thesis
    using c cq T m x by cases (auto simp: add_mult_distrib)
qed


lemma unat_of_nat_u64: "m < 18446744073709551616 \<Longrightarrow> unat (of_nat m :: u64) = m"
  by (simp add: unat_of_nat take_bit_eq_mod)

lemma reconstruct_micros64_eq:
  assumes T: "T < 4294967296 * 1000"
  shows "reconstruct_micros64 (of_nat (T div 1000)) (of_nat T) = of_nat T"
proof -
  define c x where "c = T div 1000 * 1000" and "x = c div 4294967296 * 4294967296 + T mod 4294967296"
  have "T div 1000 < 4294967296"
    using T by (simp add: div_less_iff_less_mult)
  then have ms: "ucast (of_nat (T div 1000) :: u32) = (of_nat (T div 1000) :: u64)"
    by (simp add: word_unat_eq_iff unsigned_ucast_eq unat_of_nat take_bit_eq_mod)
  have us: "ucast (of_nat T :: u32) = (of_nat (T mod 4294967296) :: u64)"
    by (simp add: word_unat_eq_iff unsigned_ucast_eq unat_of_nat take_bit_eq_mod)
  have c: "c \<le> T"
    by (simp add: c_def)
  have x: "x \<le> T"
    using div_le_mono [OF c, of 4294967296] div_mult_mod_eq [of T 4294967296]
    unfolding x_def by linarith
  have base: "(of_nat c :: u64) div 4294967296 = of_nat (c div 4294967296)"
    using c T div_le_dividend [of c 4294967296] 
    by (simp add: word_unat_eq_iff unat_div unat_of_nat_u64)
  have less: "(of_nat m :: u64) < of_nat n \<longleftrightarrow> m < n" if "m < 18446744073709551616" "n < 18446744073709551616" for m n
    using that by (simp add: word_less_nat_alt unat_of_nat_u64)
  have coarse: "(of_nat (T div 1000) :: u64) * 1000 = of_nat c"
    by (simp add: c_def)
  have cand: "(of_nat c :: u64) div 4294967296 * 4294967296 + of_nat (T mod 4294967296) = of_nat x"
    by (simp add: base x_def)
  have diff: "(of_nat m :: u64) - of_nat n = of_nat (m - n)" if "n \<le> m" for m n
    using that by (simp add: of_nat_diff)
  have bounds: "c < 9223372036854775808" "x < 9223372036854775808" "\<not> 2147483648 < x - c"
    using c x T mod_less_divisor [of 1000 T] div_mult_mod_eq [of T 1000] unfolding c_def by linarith+
  have gt: "of_nat m < (of_nat n :: u64) \<and> 2147483648 < (of_nat n - of_nat m :: u64) \<longleftrightarrow> m < n \<and> 2147483648 < n - m"
    if "m < 9223372036854775808" "n < 9223372036854775808" for m n
    using that less [of m n] less [of 2147483648 "n - m"] diff [of m n] by auto
  have "reconstruct_micros64 (of_nat (T div 1000)) (of_nat T) = 
    of_nat (if x > c \<and> x - c > 2147483648 then x - 4294967296
          else if c > x \<and> c - x > 2147483648 then x + 4294967296 else x)"
    using gt [OF bounds(1,2)] gt [OF bounds(2,1)] bounds(3)
    by (simp add: reconstruct_micros64_def Let_def ms us coarse cand)
  also have "\<dots> = of_nat T"
    unfolding c_def x_def by (simp only: reconstruct_nat [of T])
  finally show ?thesis .
qed

text \<open>An entry of a reply that is a header followed by entries of a fixed size.\<close>

lemma entry_split:
  assumes "\<And>e. length (f e) = k" and "i < length es"
  shows "\<exists>before after. h @ concat (map f es) @ rest = before @ f (es ! i) @ after \<and>
           length before = length h + k * i"
proof (intro exI conjI)
  have "es = take i es @ es ! i # drop (Suc i) es"
    using assms(2) by (rule id_take_nth_drop)
  then have "concat (map f es) = concat (map f (take i es)) @ f (es ! i) @ concat (map f (drop (Suc i) es))"
    by (metis concat.simps(2) concat_append list.simps(9) map_append)
  then show "h @ concat (map f es) @ rest =
      (h @ concat (map f (take i es))) @ f (es ! i) @ (concat (map f (drop (Suc i) es)) @ rest)"
    by simp
  have "length (concat (map f xs)) = k * length xs" for xs
    by (induction xs) (simp_all add: assms(1))
  then show "length (h @ concat (map f (take i es))) = length h + k * i"
    using assms(2) by simp
qed

lemma read_past:
  "length pre = n \<Longrightarrow> read_u8 (pre @ bs) (n + k) = read_u8 bs k"
  "length pre = n \<Longrightarrow> read_u16le (pre @ bs) (n + k) = read_u16le bs k"
  "length pre = n \<Longrightarrow> read_u32le (pre @ bs) (n + k) = read_u32le bs k"
  by (auto simp: read_u8_def nth_append read_u16le_skip read_u32le_skip)

lemma decode_event_entry:
  assumes "length h = 4" and "i < length es"
  shows "decode_event (h @ concat (map event_bytes es) @ rest) i = es ! i"
proof -
  obtain before after where
    eq: "h @ concat (map event_bytes es) @ rest = before @ event_bytes (es ! i) @ after"
    and len: "length before = 4 + 8 * i"
    using entry_split [of event_bytes 8 i es h rest] assms by auto
  show ?thesis
    unfolding eq decode_event_def Let_def read_past [OF len] read_past(1) [OF len, of _ 0, simplified]
    by (simp add: event_bytes_def wire_simps)
qed

lemma decode_event_count_entry:
  assumes "length h = 4" and "i < length cs"
  shows "decode_event_count (h @ concat (map event_count_bytes cs) @ rest) i = cs ! i"
proof -
  obtain before after where
    eq: "h @ concat (map event_count_bytes cs) @ rest = before @ event_count_bytes (cs ! i) @ after"
    and len: "length before = 4 + 4 * i"
    using entry_split [of event_count_bytes 4 i cs h rest] assms by auto
  show ?thesis
    unfolding eq decode_event_count_def Let_def read_past [OF len]
      read_past(1) [OF len, of _ 0, simplified]
    by (simp add: event_count_bytes_def wire_simps)
qed

end
