(* ===== verification/HostDevice.thy ===== *)
theory HostDevice
  imports HostProtocol
begin

text \<open>
  \<open>class Device\<close> of the host library (\<open>extras/driver/src/Device.cpp\<close>): local validation, the
  encoding of each request, the decoding of each reply, the retry while the firmware is busy, and
  the translation of a STALL into the exception the firmware's last error stands for.

  The transport is a parameter, the record \<open>transport\<close> of the control transfers of
  \<open>class Transport\<close> (\<open>Transport.h\<close>) together with the thread's sleep and clock; a buffer passed by
  reference is passed in and returned.  (\<open>bulk_in\<close> is only called by the stream's worker.)  Mutexes only serialise calls and are not modelled.
  The conversions between codes and volts or fractions are in \<open>HostAnalog\<close>.
\<close>

section \<open>Transport and options\<close>

record 't transport =
  control_in :: "u8 \<Rightarrow> u16 \<Rightarrow> u16 \<Rightarrow> bytes \<Rightarrow> int \<Rightarrow> ('t, nat \<times> bytes) io"
  control_out :: "u8 \<Rightarrow> u16 \<Rightarrow> u16 \<Rightarrow> int \<Rightarrow> ('t, unit) io"
  sleep_for :: "int \<Rightarrow> 't \<Rightarrow> 't"
  steady_clock :: "'t \<Rightarrow> int \<times> 't"

text \<open>Timeouts are in milliseconds, sleeps in microseconds, the clock in nanoseconds.\<close>

record DeviceOptions =
  opt_timeout :: int
  busy_max_attempts :: nat
  busy_delay :: int
  ready_max_attempts :: nat
  ready_delay :: int

record device =
  dev_options :: DeviceOptions
  dev_info :: usbio_info
  dev_caps :: "u8 list"
  dev_analog_pins :: "u8 list"
  dev_streaming :: bool
  dev_selected :: "u8 list"

definition default_options :: DeviceOptions where
  "default_options = \<lparr>opt_timeout = 100, busy_max_attempts = 50, busy_delay = 200,
     ready_max_attempts = 40, ready_delay = 50\<rparr>"

definition pause :: "'t transport \<Rightarrow> int \<Rightarrow> ('t, unit) io" where
  "pause T delay w = (Inr (), if delay > 0 then sleep_for T delay w else w)"

section \<open>Transfers\<close>

text \<open>\<open>throw_for_status\<close>: the exception for a status the firmware reports.\<close>

definition status_error :: "u8 \<Rightarrow> error" where
  "status_error status =
     (case status_of status of
        Some USBIO_BAD_PIN \<Rightarrow> InvalidPin
      | Some USBIO_BAD_MODE \<Rightarrow> InvalidMode
      | Some USBIO_UNSUPPORTED \<Rightarrow> NotSupported
      | Some USBIO_BAD_VALUE \<Rightarrow> InvalidValue
      | Some USBIO_QUEUE_FULL \<Rightarrow> QueueFull
      | Some USBIO_BUSY \<Rightarrow> DeviceBusy
      | Some USBIO_BAD_CMD \<Rightarrow> ProtocolError
      | Some USBIO_OK \<Rightarrow> ProtocolError
      | None \<Rightarrow> ProtocolError)"

definition raw_in ::
  "'t transport \<Rightarrow> DeviceOptions \<Rightarrow> usbio_request \<Rightarrow> u16 \<Rightarrow> bytes \<Rightarrow> ('t, nat \<times> bytes) io"
where
  "raw_in T opts req index reply =
     io_bind (control_in T (request_code req) 0 index reply (opt_timeout opts)) (\<lambda>(n, reply1).
       if n > length reply then throw ProtocolError else ret (n, reply1))"

text \<open>What \<open>send_out\<close> does with the STALL of the control transfer.\<close>

definition explain_stall :: "'t transport \<Rightarrow> DeviceOptions \<Rightarrow> ('t, unit) io" where
  "explain_stall T opts =
     io_bind (raw_in T opts USBIO_REQ_GET_STATUS 0 (replicate 4 0)) (\<lambda>(n, reply).
       if n < 4 then throw ProtocolError
       else let reason = read_u8 reply 2 in
         if reason = status_code USBIO_OK then throw StallError
         else throw (status_error reason))"

definition send_out :: "'t transport \<Rightarrow> DeviceOptions \<Rightarrow> usbio_request \<Rightarrow> u16 \<Rightarrow> u16 \<Rightarrow> ('t, unit) io" where
  "send_out T opts req val index =
     io_catch (control_out T (request_code req) val index (opt_timeout opts)) (\<lambda>e.
       if e = StallError then explain_stall T opts else throw e)"

text \<open>
  One round of the loop of \<open>read_in\<close>; \<open>again\<close> is what follows a BUSY reply: the next round while
  attempts are left, \<open>DeviceBusy\<close> after the last.
\<close>

definition read_attempt ::
  "'t transport \<Rightarrow> DeviceOptions \<Rightarrow> usbio_request \<Rightarrow> u16 \<Rightarrow> nat \<Rightarrow>
   (bytes \<Rightarrow> ('t, nat \<times> bytes) io) \<Rightarrow> bytes \<Rightarrow> ('t, nat \<times> bytes) io"
where
  "read_attempt T opts req index min_len again reply =
     io_bind (raw_in T opts req index reply) (\<lambda>(n, reply1).
       if n = 0 then throw ProtocolError
       else let status = read_u8 reply1 0 in
         if status = status_code USBIO_BUSY then again reply1
         else if status \<noteq> status_code USBIO_OK then throw (status_error status)
         else if n < min_len then throw ProtocolError
         else ret (n, reply1))"

primrec read_retry ::
  "'t transport \<Rightarrow> DeviceOptions \<Rightarrow> usbio_request \<Rightarrow> u16 \<Rightarrow> nat \<Rightarrow> nat \<Rightarrow> bytes \<Rightarrow>
   ('t, nat \<times> bytes) io"
where
  "read_retry T opts req index min_len 0 =
     read_attempt T opts req index min_len (\<lambda>_. throw DeviceBusy)"
| "read_retry T opts req index min_len (Suc left) =
     read_attempt T opts req index min_len
       (\<lambda>reply. io_bind (pause T (busy_delay opts)) (\<lambda>_.
          read_retry T opts req index min_len left reply))"

definition read_in ::
  "'t transport \<Rightarrow> DeviceOptions \<Rightarrow> usbio_request \<Rightarrow> u16 \<Rightarrow> bytes \<Rightarrow> nat \<Rightarrow> ('t, nat \<times> bytes) io"
where
  "read_in T opts req index reply min_len =
     read_retry T opts req index min_len (max 1 (busy_max_attempts opts) - 1) reply"

section \<open>Construction\<close>

definition info_attempt ::
  "'t transport \<Rightarrow> DeviceOptions \<Rightarrow> ('t, usbio_info) io \<Rightarrow> ('t, usbio_info) io"
where
  "info_attempt T opts not_ready =
     io_bind (raw_in T opts USBIO_REQ_GET_INFO 0 (replicate 24 0)) (\<lambda>(n, reply).
       if n < 24 then throw ProtocolError
       else io_bind (lift_result (decode_info reply)) (\<lambda>info.
         if info_protocol_version info \<noteq> USBIO_PROTOCOL_VERSION then throw ProtocolError
         else if info_n_pins info \<noteq> 0 then ret info
         else not_ready))"

primrec info_retry :: "'t transport \<Rightarrow> DeviceOptions \<Rightarrow> nat \<Rightarrow> ('t, usbio_info) io" where
  "info_retry T opts 0 = info_attempt T opts (throw NotReady)"
| "info_retry T opts (Suc left) =
     info_attempt T opts (io_bind (pause T (ready_delay opts * 1000)) (\<lambda>_. info_retry T opts left))"

definition load_info :: "'t transport \<Rightarrow> DeviceOptions \<Rightarrow> ('t, usbio_info) io" where
  "load_info T opts =
     io_bind (info_retry T opts (max 1 (ready_max_attempts opts) - 1)) (\<lambda>info.
       if unat (info_n_pins info) > USBIO_MAX_PINS then throw ProtocolError
       else if unat (info_n_ain info) > USBIO_MAX_AIN \<or> info_n_ain info > info_n_pins info
       then throw ProtocolError
       else ret info)"

text \<open>The capability table and the list of pins that carry the analog input capability.\<close>

definition load_caps ::
  "'t transport \<Rightarrow> DeviceOptions \<Rightarrow> usbio_info \<Rightarrow> ('t, u8 list \<times> u8 list) io"
where
  "load_caps T opts info =
     (let n_pins = unat (info_n_pins info) in
      io_bind (raw_in T opts USBIO_REQ_GET_PIN_CAPS 0 (replicate n_pins 0)) (\<lambda>(n, reply).
        if n < n_pins then throw ProtocolError
        else let caps = map (read_u8 reply) [0..<n_pins];
                 analog = map of_nat (filter (\<lambda>p. has (caps ! p) USBIO_CAP_AIN) [0..<n_pins])
          in if length analog \<noteq> unat (info_n_ain info) then throw ProtocolError
             else ret (caps, analog)))"

text \<open>The constructor; the transport pointer of the model is never null.\<close>

definition make_device :: "'t transport \<Rightarrow> DeviceOptions \<Rightarrow> ('t, device) io" where
  "make_device T opts =
     io_bind (load_info T opts) (\<lambda>info.
     io_bind (load_caps T opts info) (\<lambda>(caps, analog).
       ret \<lparr>dev_options = opts, dev_info = info, dev_caps = caps, dev_analog_pins = analog,
            dev_streaming = False, dev_selected = []\<rparr>))"

section \<open>Validation\<close>

definition pin_caps :: "device \<Rightarrow> u8 \<Rightarrow> error + u8" where
  "pin_caps d pin =
     (if unat pin \<ge> length (dev_caps d) then Inl InvalidPin else Inr (dev_caps d ! unat pin))"

definition require_caps :: "device \<Rightarrow> u8 \<Rightarrow> u8 \<Rightarrow> error + u8" where
  "require_caps d pin cap_mask =
     (case pin_caps d pin of
        Inl e \<Rightarrow> Inl e
      | Inr caps \<Rightarrow> if has caps cap_mask then Inr caps else Inl NotSupported)"

definition check_not_streaming :: "device \<Rightarrow> ('t, unit) io" where
  "check_not_streaming d = require (\<not> dev_streaming d) DeviceBusy"

definition require_events :: "device \<Rightarrow> ('t, unit) io" where
  "require_events d = require (events (dev_info d)) NotSupported"

section \<open>Pin operations\<close>

definition pin_mode :: "'t transport \<Rightarrow> device \<Rightarrow> u8 \<Rightarrow> u8 \<Rightarrow> ('t, unit) io" where
  "pin_mode T d pin mode =
     io_bind (check_not_streaming d) (\<lambda>_.
     io_bind (lift_result (pin_caps d pin)) (\<lambda>caps.
       if mode \<ge> ucast USBIO_MODE_COUNT then throw InvalidMode
       else if \<not> has caps (required_caps mode) then throw NotSupported
       else if mode = mode_code USBIO_MODE_INPUT_PULLDOWN \<and> \<not> supports_pulldown (dev_info d)
       then throw NotSupported
       else send_out T (dev_options d) USBIO_REQ_PIN_MODE (ucast mode) (ucast pin)))"

definition digital_write :: "'t transport \<Rightarrow> device \<Rightarrow> u8 \<Rightarrow> bool \<Rightarrow> ('t, unit) io" where
  "digital_write T d pin high =
     io_bind (check_not_streaming d) (\<lambda>_.
     io_bind (lift_result (require_caps d pin USBIO_CAP_DIO)) (\<lambda>_.
       send_out T (dev_options d) USBIO_REQ_DIO_WRITE (if high then 1 else 0) (ucast pin)))"

definition digital_read :: "'t transport \<Rightarrow> device \<Rightarrow> u8 \<Rightarrow> ('t, bool) io" where
  "digital_read T d pin =
     io_bind (check_not_streaming d) (\<lambda>_.
     io_bind (lift_result (require_caps d pin USBIO_CAP_DIO)) (\<lambda>_.
     io_bind (read_in T (dev_options d) USBIO_REQ_DIO_READ (ucast pin) (replicate 2 0) 2)
       (\<lambda>(n, reply). ret (read_u8 reply 1 \<noteq> 0))))"

definition read_all_digital :: "'t transport \<Rightarrow> device \<Rightarrow> ('t, bool list) io" where
  "read_all_digital T d =
     (let n_pins = unat (info_n_pins (dev_info d)); len = dio_read_all_len n_pins in
      io_bind (check_not_streaming d) (\<lambda>_.
      io_bind (read_in T (dev_options d) USBIO_REQ_DIO_READ_ALL 0 (replicate len 0) len)
        (\<lambda>(n, reply). ret (map (\<lambda>pin.
           drop_bit (pin mod 8) (read_u8 reply (2 + pin div 8)) AND 1 \<noteq> 0) [0..<n_pins]))))"

definition analog_read :: "'t transport \<Rightarrow> device \<Rightarrow> u8 \<Rightarrow> ('t, u16) io" where
  "analog_read T d pin =
     io_bind (check_not_streaming d) (\<lambda>_.
     io_bind (lift_result (require_caps d pin USBIO_CAP_AIN)) (\<lambda>_.
     io_bind (read_in T (dev_options d) USBIO_REQ_AI_READ (ucast pin) (replicate 4 0) 4)
       (\<lambda>(n, reply). ret (read_u16le reply 2))))"

definition read_all_analog :: "'t transport \<Rightarrow> device \<Rightarrow> ('t, u16 list) io" where
  "read_all_analog T d =
     (let n_ain = unat (info_n_ain (dev_info d)); len = ai_read_all_len n_ain in
      io_bind (check_not_streaming d) (\<lambda>_.
      io_bind (read_in T (dev_options d) USBIO_REQ_AI_READ_ALL 0 (replicate len 0) len)
        (\<lambda>(n, reply). ret (map (\<lambda>i. read_u16le reply (2 + 2 * i)) [0..<n_ain]))))"

definition pwm_write :: "'t transport \<Rightarrow> device \<Rightarrow> u8 \<Rightarrow> u16 \<Rightarrow> ('t, unit) io" where
  "pwm_write T d pin duty =
     io_bind (check_not_streaming d) (\<lambda>_.
     io_bind (lift_result (require_caps d pin USBIO_CAP_PWM)) (\<lambda>_.
       if duty > max_value (unat (info_pwm_bits (dev_info d))) then throw InvalidValue
       else send_out T (dev_options d) USBIO_REQ_PWM_WRITE duty (ucast pin)))"

definition dac_write :: "'t transport \<Rightarrow> device \<Rightarrow> u8 \<Rightarrow> u16 \<Rightarrow> ('t, unit) io" where
  "dac_write T d pin val =
     io_bind (check_not_streaming d) (\<lambda>_.
     io_bind (lift_result (require_caps d pin USBIO_CAP_DAC)) (\<lambda>_.
       if \<not> has_dac (dev_info d) then throw NotSupported
       else if val > max_value (unat (info_dac_bits (dev_info d))) then throw InvalidValue
       else send_out T (dev_options d) USBIO_REQ_DAC_WRITE val (ucast pin)))"

section \<open>Control\<close>

text \<open>The last error as reported (cast to \<open>Status\<close>), with \<open>queue_pending\<close>.\<close>

definition status :: "'t transport \<Rightarrow> device \<Rightarrow> ('t, u8 \<times> u8) io" where
  "status T d =
     io_bind (check_not_streaming d) (\<lambda>_.
     io_bind (read_in T (dev_options d) USBIO_REQ_GET_STATUS 0 (replicate 4 0) 4)
       (\<lambda>(n, reply). ret (read_u8 reply 2, read_u8 reply 1)))"

primrec sync_retry :: "'t transport \<Rightarrow> device \<Rightarrow> nat \<Rightarrow> ('t, unit) io" where
  "sync_retry T d 0 =
     io_bind (status T d) (\<lambda>(_, pending). if pending = 0 then ret () else throw DeviceBusy)"
| "sync_retry T d (Suc left) =
     io_bind (status T d) (\<lambda>(_, pending).
       if pending = 0 then ret ()
       else io_bind (pause T (busy_delay (dev_options d))) (\<lambda>_. sync_retry T d left))"

definition sync :: "'t transport \<Rightarrow> device \<Rightarrow> ('t, unit) io" where
  "sync T d = sync_retry T d (max 1 (busy_max_attempts (dev_options d)) - 1)"

text \<open>\<open>reset\<close> returns the device with its selection forgotten.\<close>

definition reset :: "'t transport \<Rightarrow> device \<Rightarrow> ('t, device) io" where
  "reset T d =
     io_bind (check_not_streaming d) (\<lambda>_.
     io_bind (send_out T (dev_options d) USBIO_REQ_RESET 0 0) (\<lambda>_. ret (d\<lparr>dev_selected := []\<rparr>)))"

section \<open>Streaming\<close>

text \<open>\<open>StreamConfig\<close>; the period is in microseconds.\<close>

record StreamConfig =
  cfg_pins :: "u8 list"
  cfg_period :: int
  cfg_flags :: u8
  cfg_queue_capacity :: nat

definition read_stream_status :: "'t transport \<Rightarrow> DeviceOptions \<Rightarrow> ('t, StreamStatus) io" where
  "read_stream_status T opts =
     io_bind (raw_in T opts USBIO_REQ_STREAM_STATUS 0 (replicate 16 0)) (\<lambda>(n, reply).
       if n < 16 then throw ProtocolError else lift_result (decode_stream_status reply))"

text \<open>\<open>std::adjacent_find\<close> finds two equal neighbours.\<close>

fun adjacent_equal :: "'a list \<Rightarrow> bool" where
  "adjacent_equal (x # y # zs) = (x = y \<or> adjacent_equal (y # zs))"
| "adjacent_equal _ = False"

definition range_check :: "device \<Rightarrow> u8 \<Rightarrow> ('t, unit) io" where
  "range_check d pin = io_bind (lift_result (pin_caps d pin)) (\<lambda>_. ret ())"

text \<open>The checks \<open>start_stream\<close> makes before any transfer; the result is the period to send.\<close>

definition check_stream_config :: "device \<Rightarrow> StreamConfig \<Rightarrow> ('t, u16) io" where
  "check_stream_config d cfg =
     io_bind (check_not_streaming d) (\<lambda>_.
     io_bind (require (streaming (dev_info d)) NotSupported) (\<lambda>_.
     io_bind (require (cfg_pins cfg \<noteq> []) InvalidValue) (\<lambda>_.
     io_bind (require (length (cfg_pins cfg) \<le> unat (info_stream_max_channels (dev_info d)))
                InvalidValue) (\<lambda>_.
     io_bind (io_each (range_check d) (cfg_pins cfg)) (\<lambda>_.
     io_bind (require (\<not> adjacent_equal (sort (cfg_pins cfg))) InvalidValue) (\<lambda>_.
       let period_raw = cfg_period cfg; min_period = min_stream_period_us (dev_info d) in
       if period_raw < 0 \<or> period_raw > 0xFFFF \<or>
          (period_raw \<noteq> 0 \<and> period_raw < uint min_period)
       then throw InvalidValue
       else io_bind (require (cfg_queue_capacity cfg \<noteq> 0) InvalidValue) (\<lambda>_.
         ret (word_of_int period_raw))))))))"

text \<open>\<open>try { send_out(STREAM_SELECT, 0, pin); } catch (const Error &) {}\<close>\<close>

definition try_deselect :: "'t transport \<Rightarrow> DeviceOptions \<Rightarrow> u8 \<Rightarrow> ('t, unit) io" where
  "try_deselect T opts pin =
     io_catch (send_out T opts USBIO_REQ_STREAM_SELECT 0 (ucast pin))
       (\<lambda>e. if is_Error e then ret () else throw e)"

text \<open>The loop that selects the pins, with the list \<open>added\<close> it leaves when it stops.\<close>

primrec select_pins ::
  "'t transport \<Rightarrow> DeviceOptions \<Rightarrow> u8 list \<Rightarrow> u8 list \<Rightarrow> 't \<Rightarrow> ((error + unit) \<times> u8 list) \<times> 't"
where
  "select_pins T opts [] added w = ((Inr (), added), w)"
| "select_pins T opts (pin # pins) added w =
     (case send_out T opts USBIO_REQ_STREAM_SELECT 1 (ucast pin) w of
        (Inl e, w1) \<Rightarrow> ((Inl e, added), w1)
      | (Inr _, w1) \<Rightarrow> select_pins T opts pins (added @ [pin]) w1)"

text \<open>
  What follows the selection inside the \<open>try\<close>: a stale selection is cleared, the device clock is
  read, and the stream is started.  The result is \<open>start_t_us\<close>.
\<close>

definition clear_stale_selection :: "'t transport \<Rightarrow> device \<Rightarrow> u8 list \<Rightarrow> ('t, unit) io" where
  "clear_stale_selection T d pins =
     io_bind (read_stream_status T (dev_options d)) (\<lambda>st.
       if unat (st_n_channels st) \<noteq> length pins
       then io_bind (io_each (try_deselect T (dev_options d))
                (filter (\<lambda>pin. pin \<notin> set pins) (map of_nat [0..<length (dev_caps d)]))) (\<lambda>_.
            io_bind (read_stream_status T (dev_options d)) (\<lambda>st2.
              require (unat (st_n_channels st2) = length pins) ProtocolError))
       else ret ())"

definition launch_stream ::
  "'t transport \<Rightarrow> device \<Rightarrow> StreamConfig \<Rightarrow> u16 \<Rightarrow> ('t, u32) io"
where
  "launch_stream T d cfg period_us =
     io_bind (clear_stale_selection T d (cfg_pins cfg)) (\<lambda>_.
     io_bind (read_in T (dev_options d) USBIO_REQ_GET_TIME 0 (replicate 12 0) 12) (\<lambda>(n, reply).
     io_bind (lift_result (decode_time_reply reply)) (\<lambda>t.
     io_bind (send_out T (dev_options d) USBIO_REQ_STREAM_START period_us (ucast (cfg_flags cfg)))
       (\<lambda>_. ret (tr_micros t)))))"

text \<open>The rollback of \<open>catch (...)\<close>, which swallows every further exception.\<close>

definition rollback :: "'t transport \<Rightarrow> DeviceOptions \<Rightarrow> u8 list \<Rightarrow> ('t, unit) io" where
  "rollback T opts added =
     io_each (\<lambda>pin. io_catch (send_out T opts USBIO_REQ_STREAM_SELECT 0 (ucast pin)) (\<lambda>_. ret ()))
       (rev added)"

definition select_and_launch ::
  "'t transport \<Rightarrow> device \<Rightarrow> StreamConfig \<Rightarrow> u16 \<Rightarrow> ('t, u32) io"
where
  "select_and_launch T d cfg period_us w =
     (case select_pins T (dev_options d) (cfg_pins cfg) [] w of
        ((selected, added), w1) \<Rightarrow>
          io_catch (io_bind (lift_result selected) (\<lambda>_. launch_stream T d cfg period_us))
            (\<lambda>e. io_bind (rollback T (dev_options d) added) (\<lambda>_. throw e)) w1)"

text \<open>
  \<open>start_stream\<close> returns the device, now streaming, and the clock reading the new \<open>Stream\<close>
  judges its records by.
\<close>

definition start_stream :: "'t transport \<Rightarrow> device \<Rightarrow> StreamConfig \<Rightarrow> ('t, device \<times> u32) io" where
  "start_stream T d cfg =
     io_bind (check_stream_config d cfg) (\<lambda>period_us.
     io_bind (read_stream_status T (dev_options d)) (\<lambda>st.
     io_bind (if st_running st then send_out T (dev_options d) USBIO_REQ_STREAM_STOP 0 0
              else ret ()) (\<lambda>_.
     io_bind (io_each (try_deselect T (dev_options d))
                (filter (\<lambda>pin. pin \<notin> set (cfg_pins cfg)) (dev_selected d))) (\<lambda>_.
     io_bind (select_and_launch T d cfg period_us) (\<lambda>start_t_us.
       ret (d\<lparr>dev_selected := cfg_pins cfg, dev_streaming := True\<rparr>, start_t_us))))))"

definition end_stream :: "'t transport \<Rightarrow> device \<Rightarrow> ('t, device) io" where
  "end_stream T d =
     (if \<not> dev_streaming d then ret d
      else io_bind (io_catch (send_out T (dev_options d) USBIO_REQ_STREAM_STOP 0 0) (\<lambda>_. ret ()))
        (\<lambda>_. ret (d\<lparr>dev_streaming := False\<rparr>)))"

section \<open>Device time\<close>

record DeviceTime =
  dt_millis :: u32
  dt_micros :: u32
  dt_micros64 :: u64
  dt_host_time :: int
  dt_round_trip :: int

text \<open>Division of durations truncates towards zero.\<close>

definition trunc_div :: "int \<Rightarrow> int \<Rightarrow> int" where
  "trunc_div a k = (if a < 0 then - ((- a) div k) else a div k)"

definition now :: "'t transport \<Rightarrow> ('t, int) io" where
  "now T w = (case steady_clock T w of (t, w1) \<Rightarrow> (Inr t, w1))"

definition read_time :: "'t transport \<Rightarrow> device \<Rightarrow> ('t, DeviceTime) io" where
  "read_time T d =
     io_bind (check_not_streaming d) (\<lambda>_.
     io_bind (now T) (\<lambda>t0.
     io_bind (read_in T (dev_options d) USBIO_REQ_GET_TIME 0 (replicate 12 0) 12) (\<lambda>(n, reply).
     io_bind (now T) (\<lambda>t1.
     io_bind (lift_result (decode_time_reply reply)) (\<lambda>parsed.
       ret \<lparr>dt_millis = tr_millis parsed, dt_micros = tr_micros parsed,
            dt_micros64 = reconstruct_micros64 (tr_millis parsed) (tr_micros parsed),
            dt_host_time = t0 + trunc_div (t1 - t0) 2,
            dt_round_trip = trunc_div (t1 - t0) 1000\<rparr>)))))"

section \<open>Pin events\<close>

definition configure_event :: "'t transport \<Rightarrow> device \<Rightarrow> u8 \<Rightarrow> u8 \<Rightarrow> int \<Rightarrow> ('t, unit) io" where
  "configure_event T d pin edge debounce =
     io_bind (check_not_streaming d) (\<lambda>_.
     io_bind (require_events d) (\<lambda>_.
     io_bind (range_check d pin) (\<lambda>_.
       if edge \<ge> USBIO_EDGE_COUNT then throw InvalidValue
       else if debounce < 0 \<or> debounce > int USBIO_MAX_DEBOUNCE_MS then throw InvalidValue
       else send_out T (dev_options d) USBIO_REQ_EVENT_CONFIG
              (encode_event_config_value (word_of_int debounce) edge) (ucast pin))))"

text \<open>The events of one EVENT_POP reply, with \<open>dropped\<close> and \<open>pending\<close>.\<close>

definition pop_events_once ::
  "'t transport \<Rightarrow> device \<Rightarrow> u16 \<Rightarrow> ('t, usbio_event list \<times> u8 \<times> bool) io"
where
  "pop_events_once T d max_events =
     io_bind (read_in T (dev_options d) USBIO_REQ_EVENT_POP max_events
                (replicate (event_pop_len USBIO_MAX_EVENTS_PER_POP) 0) 4) (\<lambda>(n, reply).
     io_bind (lift_result (decode_event_header reply)) (\<lambda>header.
       if n < event_pop_len (unat (eh_count header)) then throw ProtocolError
       else ret (map (decode_event reply) [0..<unat (eh_count header)],
                 eh_dropped header, eh_pending header \<noteq> 0)))"

text \<open>
  \<open>while (pending)\<close> of \<open>poll_events\<close>: it may run for ever against a device that keeps events
  pending, so its result is an option, and \<open>None\<close> is not returning.
\<close>

partial_function (option) drain_events ::
  "'t transport \<Rightarrow> device \<Rightarrow> usbio_event list \<Rightarrow> nat \<Rightarrow> 't \<Rightarrow>
   ((error + usbio_event list \<times> nat) \<times> 't) option"
where
  "drain_events T d so_far lost w =
     (case pop_events_once T d 0 w of
        (Inl e, w1) \<Rightarrow> Some (Inl e, w1)
      | (Inr (batch, dropped, pending), w1) \<Rightarrow>
          if pending then drain_events T d (so_far @ batch) (min 255 (lost + unat dropped)) w1
          else Some (Inr (so_far @ batch, min 255 (lost + unat dropped)), w1))"

definition poll_events ::
  "'t transport \<Rightarrow> device \<Rightarrow> 't \<Rightarrow> ((error + usbio_event list \<times> u8) \<times> 't) option"
where
  "poll_events T d w =
     (case io_bind (check_not_streaming d) (\<lambda>_. require_events d) w of
        (Inl e, w1) \<Rightarrow> Some (Inl e, w1)
      | (Inr _, w1) \<Rightarrow>
          map_option (apfst (map_sum id (apsnd of_nat))) (drain_events T d [] 0 w1))"

definition event_counts :: "'t transport \<Rightarrow> device \<Rightarrow> ('t, usbio_event_count list) io" where
  "event_counts T d =
     io_bind (check_not_streaming d) (\<lambda>_.
     io_bind (require_events d) (\<lambda>_.
     io_bind (read_in T (dev_options d) USBIO_REQ_EVENT_COUNTS 0
                (replicate (event_counts_len USBIO_MAX_EVENT_PINS) 0) 4) (\<lambda>(n, reply).
     io_bind (lift_result (decode_event_header reply)) (\<lambda>header.
       if n < event_counts_len (unat (eh_count header)) then throw ProtocolError
       else ret (map (decode_event_count reply) [0..<unat (eh_count header)])))))"

text \<open>\<open>wait_event\<close>, with its deadline on the host clock; \<open>timeout\<close> and \<open>poll_interval\<close> in ms.\<close>

partial_function (option) wait_until ::
  "'t transport \<Rightarrow> device \<Rightarrow> int \<Rightarrow> int \<Rightarrow> 't \<Rightarrow> ((error + usbio_event option) \<times> 't) option"
where
  "wait_until T d deadline poll_interval w =
     (case pop_events_once T d 1 w of
        (Inl e, w1) \<Rightarrow> Some (Inl e, w1)
      | (Inr (single, _, _), w1) \<Rightarrow>
          if single \<noteq> [] then Some (Inr (Some (hd single)), w1)
          else case steady_clock T w1 of (t, w2) \<Rightarrow>
            if t \<ge> deadline then Some (Inr None, w2)
            else wait_until T d deadline poll_interval
                   (snd (pause T (min poll_interval (trunc_div (deadline - t) 1000000) * 1000) w2)))"

definition wait_event ::
  "'t transport \<Rightarrow> device \<Rightarrow> int \<Rightarrow> int \<Rightarrow> 't \<Rightarrow> ((error + usbio_event option) \<times> 't) option"
where
  "wait_event T d timeout poll_interval w =
     (case io_bind (check_not_streaming d) (\<lambda>_. require_events d) w of
        (Inl e, w1) \<Rightarrow> Some (Inl e, w1)
      | (Inr _, w1) \<Rightarrow> (case steady_clock T w1 of (t, w2) \<Rightarrow>
          wait_until T d (t + timeout * 1000000) poll_interval w2))"

section \<open>What the constructor guarantees\<close>

text \<open>
  The device's tables fit each other: one capability byte per pin, at most 128 pins, and the list
  of analog pins that \<open>n_ain\<close> counts, in ascending order.
\<close>

definition device_ok :: "device \<Rightarrow> bool" where
  "device_ok d \<longleftrightarrow>
     0 < length (dev_caps d) \<and> length (dev_caps d) \<le> USBIO_MAX_PINS \<and>
     length (dev_caps d) = unat (info_n_pins (dev_info d)) \<and>
     info_protocol_version (dev_info d) = USBIO_PROTOCOL_VERSION \<and>
     dev_analog_pins d = map of_nat
       (filter (\<lambda>p. has (dev_caps d ! p) USBIO_CAP_AIN) [0..<length (dev_caps d)]) \<and>
     length (dev_analog_pins d) = unat (info_n_ain (dev_info d)) \<and>
     length (dev_analog_pins d) \<le> USBIO_MAX_AIN \<and>
     \<not> dev_streaming d \<and> dev_selected d = []"

lemma info_retry_result:
  "info_retry T opts left w = (Inr info, w1) \<Longrightarrow>
     info_protocol_version info = USBIO_PROTOCOL_VERSION \<and> info_n_pins info \<noteq> 0"
proof (induction left arbitrary: w)
  case 0
  then show ?case
    by (auto simp: info_attempt_def throw_def ret_def lift_result_def elim!: io_bind_InrE
        split: if_splits)
next
  case (Suc left)
  then show ?case
    by (auto simp: info_attempt_def throw_def ret_def lift_result_def elim!: io_bind_InrE
        split: if_splits)
qed

lemma load_info_result:
  assumes "load_info T opts w = (Inr info, w1)"
  shows "info_protocol_version info = USBIO_PROTOCOL_VERSION" and "info_n_pins info \<noteq> 0"
    and "unat (info_n_pins info) \<le> USBIO_MAX_PINS" and "unat (info_n_ain info) \<le> USBIO_MAX_AIN"
  using assms info_retry_result [of T opts]
  by (auto simp: load_info_def throw_def ret_def elim!: io_bind_InrE split: if_splits)

lemma load_caps_result:
  assumes "load_caps T opts info w = (Inr (caps, analog), w1)"
  shows "length caps = unat (info_n_pins info)"
    and "analog = map of_nat (filter (\<lambda>p. has (caps ! p) USBIO_CAP_AIN) [0..<length caps])"
    and "length analog = unat (info_n_ain info)"
  using assms
  by (auto simp: load_caps_def Let_def throw_def ret_def elim!: io_bind_InrE split: if_splits)

lemma make_device_result:
  assumes "make_device T opts w = (Inr d, w1)"
  shows "device_ok d" and "dev_options d = opts"
proof -
  from assms obtain info caps analog w2 w3 where
    info: "load_info T opts w = (Inr info, w2)" and
    caps: "load_caps T opts info w2 = (Inr (caps, analog), w3)" and
    d: "d = \<lparr>dev_options = opts, dev_info = info, dev_caps = caps, dev_analog_pins = analog,
            dev_streaming = False, dev_selected = []\<rparr>"
    by (auto simp: make_device_def ret_def elim!: io_bind_InrE)
  then show "device_ok d" and "dev_options d = opts"
    using load_info_result [OF info] load_caps_result [OF caps]
    by (simp_all add: device_ok_def unat_gt_0)
qed

section \<open>The contract of a transport\<close>

text \<open>
  What the device relies on: a transfer delivers at most the bytes that were asked for, into the
  buffer it was given, and whatever the transport keeps true of its world it keeps true whether
  the transfer succeeds or throws.
\<close>

locale transport_contract =
  fixes T :: "'t transport" and I :: "'t \<Rightarrow> bool"
  assumes in_keeps: "I w \<Longrightarrow> length buf < 65536 \<Longrightarrow> I (snd (control_in T req val index buf timeout w))"
    and in_fits: "I w \<Longrightarrow> length buf < 65536 \<Longrightarrow>
      control_in T req val index buf timeout w = (Inr (n, buf'), w') \<Longrightarrow>
      n \<le> length buf \<and> length buf' = length buf"
    and out_keeps: "I w \<Longrightarrow> I (snd (control_out T req val index timeout w))"
    and sleep_keeps: "I w \<Longrightarrow> I (sleep_for T us w)"
    and clock_keeps: "I w \<Longrightarrow> I (snd (steady_clock T w))"
begin

lemma pause_keeps: "io_keeps I (pause T delay)"
  by (simp add: io_keeps_def pause_def sleep_keeps)

lemma now_keeps: "io_keeps I (now T)"
  by (auto simp: io_keeps_def now_def case_prod_beta clock_keeps)

lemma raw_in_keeps:
  assumes "length reply < 65536"
  shows "io_keeps I (raw_in T opts req index reply)"
  using assms unfolding raw_in_def
  by (intro io_keeps_bind) (auto simp: io_keeps_def in_keeps split: prod.split if_splits intro: io_keepsD)

text \<open>A transfer that returns has filled the front of a buffer of the same length.\<close>

lemma raw_in_fits:
  assumes "I w" and "length reply < 65536"
    and "raw_in T opts req index reply w = (Inr (n, reply1), w1)"
  shows "n \<le> length reply" and "length reply1 = length reply"
proof -
  have "control_in T (request_code req) 0 index reply (opt_timeout opts) w = (Inr (n, reply1), w1)"
    using assms(3) by (auto simp: raw_in_def io_bind_def throw_def ret_def
        split: prod.splits sum.splits if_splits)
  then show "n \<le> length reply" and "length reply1 = length reply"
    using in_fits [OF assms(1,2)] by blast+
qed

lemma send_out_keeps: "io_keeps I (send_out T opts req val index)"
proof -
  have "io_keeps I (explain_stall T opts)"
    unfolding explain_stall_def
    by (intro io_keeps_bind raw_in_keeps) (auto simp: Let_def split: prod.split)
  moreover have "io_keeps I (control_out T (request_code req) val index (opt_timeout opts))"
    by (simp add: io_keeps_def out_keeps)
  ultimately show ?thesis
    unfolding send_out_def by (intro io_keeps_catch) auto
qed

lemma read_attempt_keeps:
  assumes "length reply < 65536" and "\<And>r. length r = length reply \<Longrightarrow> io_keeps I (again r)"
  shows "io_keeps I (read_attempt T opts req index min_len again reply)"
  unfolding io_keeps_def
proof (intro allI impI)
  fix w assume w: "I w"
  show "I (snd (read_attempt T opts req index min_len again reply w))"
  proof (cases "raw_in T opts req index reply w")
    case (Pair res w1)
    have "I w1"
      using io_keepsD [OF raw_in_keeps [OF assms(1)] w, of opts req index] Pair by simp
    then show ?thesis
      using Pair raw_in_fits [OF w assms(1)] assms(2)
      by (cases res) (auto simp: read_attempt_def io_bind_def throw_def ret_def Let_def io_keeps_def)
  qed
qed

lemma read_retry_keeps:
  "length reply < 65536 \<Longrightarrow> io_keeps I (read_retry T opts req index min_len left reply)"
proof (induction left arbitrary: reply)
  case 0
  then show ?case
    by (auto intro!: read_attempt_keeps)
next
  case (Suc left)
  then show ?case
    by (auto intro!: read_attempt_keeps io_keeps_bind pause_keeps)
qed

lemma read_in_keeps: "length reply < 65536 \<Longrightarrow> io_keeps I (read_in T opts req index reply min_len)"
  unfolding read_in_def by (rule read_retry_keeps)

text \<open>A read that returns answered OK with at least the bytes its caller needs.\<close>

lemma read_attempt_fits:
  assumes "I w" and "length reply < 65536"
    and "read_attempt T opts req index min_len again reply w = (Inr (n, reply1), w1)"
  shows "(min_len \<le> n \<and> n \<le> length reply \<and> length reply1 = length reply \<and>
      read_u8 reply1 0 = status_code USBIO_OK) \<or>
    (\<exists>r w2. I w2 \<and> length r = length reply \<and> again r w2 = (Inr (n, reply1), w1))"
proof (cases "raw_in T opts req index reply w")
  case (Pair res w2)
  then obtain k r where res: "res = Inr (k, r)"
    using assms(3) by (cases res) (auto simp: read_attempt_def io_bind_def)
  have w2: "I w2"
    using io_keepsD [OF raw_in_keeps [OF assms(2)] assms(1), of opts req index] Pair by simp
  show ?thesis
    using assms(3) raw_in_fits [OF assms(1,2), of opts req index k r w2] w2 Pair res
    by (auto simp: read_attempt_def io_bind_def throw_def ret_def Let_def split: if_splits)
qed

lemma read_retry_fits:
  assumes "I w" and "length reply < 65536"
    and "read_retry T opts req index min_len left reply w = (Inr (n, reply1), w1)"
  shows "min_len \<le> n \<and> n \<le> length reply \<and> length reply1 = length reply \<and>
    read_u8 reply1 0 = status_code USBIO_OK"
  using assms
proof (induction left arbitrary: reply w)
  case 0
  then show ?case
    using read_attempt_fits [OF 0(1,2), of opts req index min_len "\<lambda>_. throw DeviceBusy" n reply1 w1]
    by (auto simp: throw_def)
next
  case (Suc left)
  let ?again = "\<lambda>r. io_bind (pause T (busy_delay opts)) (\<lambda>_. read_retry T opts req index min_len left r)"
  have "read_attempt T opts req index min_len ?again reply w = (Inr (n, reply1), w1)"
    using Suc.prems(3) by simp
  then consider "min_len \<le> n \<and> n \<le> length reply \<and> length reply1 = length reply \<and>
      read_u8 reply1 0 = status_code USBIO_OK"
    | r w2 where "I w2" "length r = length reply" "?again r w2 = (Inr (n, reply1), w1)"
    using read_attempt_fits [OF Suc.prems(1,2)] by blast
  then show ?case
  proof cases
    case 1
    then show ?thesis .
  next
    case 2
    have "I (snd (pause T (busy_delay opts) w2))"
      using io_keepsD [OF pause_keeps 2(1)] .
    then show ?thesis
      using Suc.IH [of "snd (pause T (busy_delay opts) w2)" r] 2(2,3) Suc.prems(2)
      by (simp add: io_bind_def pause_def)
  qed
qed

lemma read_in_fits:
  assumes "I w" and "length reply < 65536"
    and "read_in T opts req index reply min_len w = (Inr (n, reply1), w1)"
  shows "min_len \<le> n" and "n \<le> length reply" and "length reply1 = length reply"
    and "read_u8 reply1 0 = status_code USBIO_OK"
  using read_retry_fits [OF assms(1,2)] assms(3) by (auto simp: read_in_def)

text \<open>Every operation keeps what the transport keeps.\<close>

lemma load_info_keeps: "io_keeps I (load_info T opts)"
proof -
  have attempt: "io_keeps I nr \<Longrightarrow> io_keeps I (info_attempt T opts nr)" for nr
    unfolding info_attempt_def
    by (intro io_keeps_bind raw_in_keeps) (auto split: prod.split intro!: io_keeps_bind)
  have "io_keeps I (info_retry T opts left)" for left
    by (induction left) (auto intro!: attempt io_keeps_bind pause_keeps)
  then show ?thesis
    unfolding load_info_def by (intro io_keeps_bind) auto
qed

lemma load_caps_keeps: "io_keeps I (load_caps T opts info)"
proof -
  have "unat (info_n_pins info) < 65536"
    using unat_lt_u8 [of "info_n_pins info"] by linarith
  then show ?thesis
    unfolding load_caps_def Let_def
    by (intro io_keeps_bind raw_in_keeps) (auto split: prod.split)
qed

lemma make_device_keeps: "io_keeps I (make_device T opts)"
  unfolding make_device_def
  by (intro io_keeps_bind load_info_keeps load_caps_keeps) (auto split: prod.split)

lemma check_keeps:
  "io_keeps I (check_not_streaming d)" "io_keeps I (require_events d)"
  by (auto simp: check_not_streaming_def require_events_def)

lemma output_keeps:
  "io_keeps I (pin_mode T d pin mode)" "io_keeps I (digital_write T d pin high)"
  "io_keeps I (pwm_write T d pin duty)" "io_keeps I (dac_write T d pin val)"
  "io_keeps I (reset T d)" "io_keeps I (configure_event T d pin edge debounce)"
  unfolding pin_mode_def digital_write_def pwm_write_def dac_write_def reset_def
    configure_event_def range_check_def
  by (auto intro!: io_keeps_bind check_keeps send_out_keeps)

lemma input_keeps:
  "io_keeps I (digital_read T d pin)" "io_keeps I (analog_read T d pin)"
  "io_keeps I (status T d)" "io_keeps I (read_time T d)"
  "io_keeps I (pop_events_once T d limit)" "io_keeps I (event_counts T d)"
  unfolding digital_read_def analog_read_def status_def read_time_def pop_events_once_def
    event_counts_def
  by (auto intro!: io_keeps_bind check_keeps read_in_keeps now_keeps
      simp: event_pop_len_def event_counts_len_def split: prod.split)

lemma read_all_keeps: "io_keeps I (read_all_digital T d)" "io_keeps I (read_all_analog T d)"
proof -
  have "dio_read_all_len (unat (info_n_pins (dev_info d))) < 65536"
    "ai_read_all_len (unat (info_n_ain (dev_info d))) < 65536"
    using unat_lt_u8 [of "info_n_pins (dev_info d)"] unat_lt_u8 [of "info_n_ain (dev_info d)"]
    unfolding dio_read_all_len_def dio_bitmap_len_def ai_read_all_len_def by linarith+
  then show "io_keeps I (read_all_digital T d)" "io_keeps I (read_all_analog T d)"
    unfolding read_all_digital_def read_all_analog_def Let_def
    by (auto intro!: io_keeps_bind check_keeps read_in_keeps split: prod.split)
qed

lemma sync_keeps: "io_keeps I (sync T d)"
proof -
  have "io_keeps I (sync_retry T d left)" for left
    by (induction left)
      (auto intro!: io_keeps_bind input_keeps pause_keeps split: prod.split)
  then show ?thesis
    by (simp add: sync_def)
qed

lemma stream_parts_keep:
  "io_keeps I (read_stream_status T opts)" "io_keeps I (try_deselect T opts pin)"
  "io_keeps I (rollback T opts added)" "io_keeps I (end_stream T d)"
  unfolding read_stream_status_def try_deselect_def rollback_def end_stream_def
  by (auto intro!: io_keeps_bind io_keeps_catch io_keeps_each raw_in_keeps send_out_keeps
      split: prod.split)

lemma launch_keeps: "io_keeps I (launch_stream T d cfg period_us)"
  unfolding launch_stream_def clear_stale_selection_def
  by (auto intro!: io_keeps_bind io_keeps_each stream_parts_keep read_in_keeps send_out_keeps
      split: prod.split)

lemma select_keeps: "I w \<Longrightarrow> I (snd (select_pins T opts pins added w))"
proof (induction pins arbitrary: added w)
  case (Cons pin pins)
  have "I (snd (send_out T opts USBIO_REQ_STREAM_SELECT 1 (ucast pin) w))"
    by (rule io_keepsD [OF send_out_keeps Cons.prems])
  then show ?case
    using Cons.IH by (auto split: prod.split sum.split)
qed simp

lemma start_stream_keeps: "io_keeps I (start_stream T d cfg)"
proof -
  have "io_keeps I (select_and_launch T d cfg p)" for p
    unfolding io_keeps_def
  proof (intro allI impI)
    fix w assume "I w"
    obtain selected added w1 where sel:
      "select_pins T (dev_options d) (cfg_pins cfg) [] w = ((selected, added), w1)"
      by (metis prod.exhaust)
    have "I w1"
      using select_keeps [OF \<open>I w\<close>, of "dev_options d" "cfg_pins cfg" "[]"] sel by simp
    moreover have "io_keeps I (io_catch (io_bind (lift_result selected) (\<lambda>_. launch_stream T d cfg p))
        (\<lambda>e. io_bind (rollback T (dev_options d) added) (\<lambda>_. throw e)))"
      by (intro io_keeps_catch io_keeps_bind launch_keeps stream_parts_keep) auto
    ultimately show "I (snd (select_and_launch T d cfg p w))"
      using sel by (simp add: select_and_launch_def io_keepsD)
  qed
  then show ?thesis
    unfolding start_stream_def check_stream_config_def range_check_def Let_def
    by (auto intro!: io_keeps_bind io_keeps_each check_keeps stream_parts_keep send_out_keeps)
qed

end

end
