(* ===== verification/HostUsb.thy ===== *)
theory HostUsb
  imports HostDevice
begin

text \<open>
  \<open>class LibusbTransport\<close> (\<open>extras/driver/src/LibusbTransport.cpp\<close>): the choice of the vendor
  interface and of the bulk endpoint from the descriptors, the two recipient forms, the control
  transfer with its one retry, and the ring of bulk transfers behind \<open>bulk_in\<close>.  libusb itself
  is the record \<open>libusb\<close> of the functions called on an open device; it and the descriptors the
  device presents are parameters.  Allocating the transfers of the ring is taken to succeed
  (the code throws \<open>std::bad_alloc\<close> when it does not), and the call that lets libusb detach a kernel
  driver, whose result the code ignores, is left out.
\<close>

section \<open>Descriptors\<close>

record InterfaceTriple =
  itf_number :: u8
  itf_class :: u8
  itf_subclass :: u8
  itf_protocol :: u8

record endpoint_descriptor =
  bEndpointAddress :: u8
  bmAttributes :: u8
  wMaxPacketSize :: u16

text \<open>
  A configuration lists its interfaces, an interface its alternate settings.  The argument of the
  functions below is the active configuration, or else configuration 0, or \<open>None\<close> when libusb
  gives neither.
\<close>

type_synonym configuration = "(InterfaceTriple \<times> endpoint_descriptor list) list list"

definition read_interfaces :: "configuration option \<Rightarrow> InterfaceTriple list" where
  "read_interfaces cfg = (case cfg of None \<Rightarrow> [] | Some itfs \<Rightarrow> map fst (concat itfs))"

abbreviation (input) USBIO_ITF_CLASS :: u8 where "USBIO_ITF_CLASS \<equiv> 0xFF"
abbreviation (input) USBIO_ITF_SUBCLASS :: u8 where "USBIO_ITF_SUBCLASS \<equiv> 0x49"
abbreviation (input) USBIO_ITF_PROTOCOL :: u8 where "USBIO_ITF_PROTOCOL \<equiv> 0x4F"

definition find_vendor_interface :: "InterfaceTriple list \<Rightarrow> u8 option" where
  "find_vendor_interface itfs =
     map_option itf_number (find (\<lambda>itf. itf_class itf = USBIO_ITF_CLASS \<and>
       itf_subclass itf = USBIO_ITF_SUBCLASS \<and> itf_protocol itf = USBIO_ITF_PROTOCOL) itfs)"

text \<open>The loops stop at the first bulk IN endpoint of a setting of the interface.\<close>

definition find_bulk_in_endpoint :: "configuration option \<Rightarrow> u8 \<Rightarrow> (u8 \<times> u16) option" where
  "find_bulk_in_endpoint cfg interface_number =
     (case cfg of
        None \<Rightarrow> None
      | Some itfs \<Rightarrow>
          map_option (\<lambda>ep. (bEndpointAddress ep, wMaxPacketSize ep))
            (find (\<lambda>ep. bEndpointAddress ep AND 0x80 = 0x80 \<and> bmAttributes ep AND 0x03 = 2)
              (concat (map snd (filter (\<lambda>d. itf_number (fst d) = interface_number) (concat itfs))))))"

section \<open>libusb\<close>

datatype transfer_status =
    LIBUSB_TRANSFER_COMPLETED | LIBUSB_TRANSFER_ERROR | LIBUSB_TRANSFER_TIMED_OUT
  | LIBUSB_TRANSFER_CANCELLED | LIBUSB_TRANSFER_STALL | LIBUSB_TRANSFER_NO_DEVICE
  | LIBUSB_TRANSFER_OVERFLOW | other_transfer_status int

fun transfer_status_error :: "transfer_status \<Rightarrow> int" where
  "transfer_status_error LIBUSB_TRANSFER_COMPLETED = LIBUSB_SUCCESS"
| "transfer_status_error LIBUSB_TRANSFER_ERROR = LIBUSB_ERROR_IO"
| "transfer_status_error LIBUSB_TRANSFER_TIMED_OUT = LIBUSB_ERROR_TIMEOUT"
| "transfer_status_error LIBUSB_TRANSFER_CANCELLED = LIBUSB_ERROR_INTERRUPTED"
| "transfer_status_error LIBUSB_TRANSFER_STALL = LIBUSB_ERROR_PIPE"
| "transfer_status_error LIBUSB_TRANSFER_NO_DEVICE = LIBUSB_ERROR_NO_DEVICE"
| "transfer_status_error LIBUSB_TRANSFER_OVERFLOW = LIBUSB_ERROR_OVERFLOW"
| "transfer_status_error (other_transfer_status _) = LIBUSB_ERROR_OTHER"

text \<open>
  \<open>control_transfer\<close> returns its result code (the bytes received, or a negative error) and the
  buffer; \<open>handle_events\<close> returns the transfers that completed meanwhile: the buffer's number, the
  status and the bytes received.
\<close>

record 't libusb =
  open_handle :: "'t \<Rightarrow> int \<times> 't"
  claim_interface :: "u8 \<Rightarrow> 't \<Rightarrow> int \<times> 't"
  release_interface :: "u8 \<Rightarrow> 't \<Rightarrow> 't"
  close_handle :: "'t \<Rightarrow> 't"
  control_transfer :: "u8 \<Rightarrow> u8 \<Rightarrow> u16 \<Rightarrow> u16 \<Rightarrow> bytes \<Rightarrow> u32 \<Rightarrow> 't \<Rightarrow> (int \<times> bytes) \<times> 't"
  submit_transfer :: "nat \<Rightarrow> 't \<Rightarrow> int \<times> 't"
  cancel_transfer :: "nat \<Rightarrow> 't \<Rightarrow> 't"
  handle_events :: "int \<Rightarrow> 't \<Rightarrow> (nat \<times> transfer_status \<times> bytes) list \<times> 't"
  thread_sleep :: "int \<Rightarrow> 't \<Rightarrow> 't"
  monotonic_clock :: "'t \<Rightarrow> int \<times> 't"

definition clamp_timeout :: "int \<Rightarrow> u32" where
  "clamp_timeout ms = (if ms < 1 then 1 else if ms > 0xFFFFFFFF then 0xFFFFFFFF else word_of_int ms)"

section \<open>The transport object\<close>

record LibusbTransport =
  lt_recipient :: recipient
  lt_interface :: "u8 option"
  lt_bulk_in :: "(u8 \<times> u16) option"
  lt_claimed :: bool

text \<open>The constructor, for a device that is not null and a context that is not null.\<close>

definition open_libusb ::
  "'t libusb \<Rightarrow> configuration option \<Rightarrow> recipient \<Rightarrow> bool \<Rightarrow> ('t, LibusbTransport) io"
where
  "open_libusb U cfg rcp claim =
     (let itf = find_vendor_interface (read_interfaces cfg);
          bulk = (case itf of None \<Rightarrow> None | Some n \<Rightarrow> find_bulk_in_endpoint cfg n);
          lt = \<lparr>lt_recipient = rcp, lt_interface = itf, lt_bulk_in = bulk, lt_claimed = False\<rparr>
      in io_bind (require (\<not> (rcp = RecipientInterface \<and> itf = None)) NotSupported) (\<lambda>_ w.
        case open_handle U w of (rc, w1) \<Rightarrow>
          if rc < 0 then (Inl (throw_usb_error rc), w1)
          else (case itf of
              None \<Rightarrow> (Inr lt, w1)
            | Some n \<Rightarrow>
                if \<not> claim then (Inr lt, w1)
                else case claim_interface U n w1 of (rc2, w2) \<Rightarrow>
                  if rc2 < 0 then (Inl (throw_usb_error rc2), close_handle U w2)
                  else (Inr (lt\<lparr>lt_claimed := True\<rparr>), w2))))"

definition wire_index :: "LibusbTransport \<Rightarrow> u16 \<Rightarrow> error + u16" where
  "wire_index lt index =
     (if lt_recipient lt = RecipientDevice then Inr index
      else if index > 0xFF then Inl invalid_argument
      else Inr (interface_index index (the (lt_interface lt))))"

text \<open>The loop of \<open>transfer\<close>: a transfer interrupted by a signal is issued once more.\<close>

definition transfer ::
  "'t libusb \<Rightarrow> u8 \<Rightarrow> u8 \<Rightarrow> u16 \<Rightarrow> u16 \<Rightarrow> bytes \<Rightarrow> int \<Rightarrow> ('t, nat \<times> bytes) io"
where
  "transfer U bm req val index data timeout =
     (if length data > 0xFFFF then throw invalid_argument
      else (\<lambda>w. let ms = clamp_timeout timeout in
        case control_transfer U bm req val index data ms w of ((rc, data1), w1) \<Rightarrow>
          if rc \<ge> 0 then (Inr (nat rc, data1), w1)
          else if rc = LIBUSB_ERROR_INTERRUPTED then
            (case control_transfer U bm req val index data1 ms w1 of ((rc2, data2), w2) \<Rightarrow>
               if rc2 \<ge> 0 then (Inr (nat rc2, data2), w2)
               else (Inl (throw_usb_error rc2), w2))
          else (Inl (throw_usb_error rc), w1)))"

definition libusb_control_in ::
  "'t libusb \<Rightarrow> LibusbTransport \<Rightarrow> u8 \<Rightarrow> u16 \<Rightarrow> u16 \<Rightarrow> bytes \<Rightarrow> int \<Rightarrow> ('t, nat \<times> bytes) io"
where
  "libusb_control_in U lt req val index data timeout =
     io_bind (lift_result (wire_index lt index)) (\<lambda>windex.
       transfer U (bm_request_type False (lt_recipient lt)) req val windex data timeout)"

definition libusb_control_out ::
  "'t libusb \<Rightarrow> LibusbTransport \<Rightarrow> u8 \<Rightarrow> u16 \<Rightarrow> u16 \<Rightarrow> int \<Rightarrow> ('t, unit) io"
where
  "libusb_control_out U lt req val index timeout =
     io_bind (lift_result (wire_index lt index)) (\<lambda>windex.
     io_bind (transfer U (bm_request_type True (lt_recipient lt)) req val windex [] timeout)
       (\<lambda>_. ret ()))"

definition libusb_transport :: "'t libusb \<Rightarrow> LibusbTransport \<Rightarrow> 't transport" where
  "libusb_transport U lt = \<lparr>control_in = libusb_control_in U lt,
     control_out = libusb_control_out U lt, sleep_for = thread_sleep U,
     steady_clock = monotonic_clock U\<rparr>"

section \<open>The ring of bulk transfers\<close>

definition RingSize :: nat where
  "RingSize = 8"

record bulk_ring =
  br_submitted :: "bool list"
  br_queue :: bytes
  br_outstanding :: int
  br_stopping :: bool
  br_fatal :: "int option"

definition submit :: "'t libusb \<Rightarrow> nat \<Rightarrow> bulk_ring \<times> 't \<Rightarrow> bulk_ring \<times> 't" where
  "submit U i c = (case c of (r, w) \<Rightarrow> case submit_transfer U i w of (rc, w1) \<Rightarrow>
     if rc < 0 then
       (r\<lparr>br_submitted := (br_submitted r)[i := False],
          br_fatal := (case br_fatal r of None \<Rightarrow> Some rc | Some e \<Rightarrow> Some e)\<rparr>, w1)
     else (r\<lparr>br_submitted := (br_submitted r)[i := True],
             br_outstanding := br_outstanding r + 1\<rparr>, w1))"

definition make_ring :: "'t libusb \<Rightarrow> 't \<Rightarrow> bulk_ring \<times> 't" where
  "make_ring U w = fold (submit U) [0..<RingSize]
     (\<lparr>br_submitted = replicate RingSize False, br_queue = [], br_outstanding = 0,
       br_stopping = False, br_fatal = None\<rparr>, w)"

definition handle_complete ::
  "'t libusb \<Rightarrow> nat \<times> transfer_status \<times> bytes \<Rightarrow> bulk_ring \<times> 't \<Rightarrow> bulk_ring \<times> 't"
where
  "handle_complete U completion c =
     (case completion of (i, st, data) \<Rightarrow> case c of (r, w) \<Rightarrow>
        let r1 = r\<lparr>br_submitted := (br_submitted r)[i := False],
                   br_outstanding := br_outstanding r - 1\<rparr>
        in if br_stopping r then (r1, w)
           else if st = LIBUSB_TRANSFER_COMPLETED
           then submit U i (r1\<lparr>br_queue := br_queue r1 @ data\<rparr>, w)
           else if st \<noteq> LIBUSB_TRANSFER_CANCELLED \<and> br_fatal r1 = None
           then (r1\<lparr>br_fatal := Some (transfer_status_error st)\<rparr>, w)
           else (r1, w))"

text \<open>The locked section of \<open>read\<close>: \<open>None\<close> when there is neither an error nor a byte.\<close>

definition ring_take ::
  "bytes \<Rightarrow> bulk_ring \<Rightarrow> (error + nat \<times> bytes) option \<times> bulk_ring"
where
  "ring_take data r =
     (case br_fatal r of
        Some code \<Rightarrow> (Some (Inl (throw_usb_error code)), r\<lparr>br_fatal := None\<rparr>)
      | None \<Rightarrow>
          if br_queue r \<noteq> [] then
            let n = min (length data) (length (br_queue r))
            in (Some (Inr (n, memcpy_at 0 (take n (br_queue r)) data)),
                r\<lparr>br_queue := drop n (br_queue r)\<rparr>)
          else (None, r))"

text \<open>\<open>read\<close>: the deadline is on the clock, in nanoseconds; \<open>None\<close> stands for not returning.\<close>

partial_function (option) ring_read ::
  "'t libusb \<Rightarrow> int \<Rightarrow> bytes \<Rightarrow> bulk_ring \<Rightarrow> 't \<Rightarrow> ((error + nat \<times> bytes) \<times> bulk_ring \<times> 't) option"
where
  "ring_read U deadline data r w =
     (case ring_take data r of
        (Some result, r1) \<Rightarrow> Some (result, r1, w)
      | (None, r1) \<Rightarrow> (case monotonic_clock U w of (t, w1) \<Rightarrow>
          if t \<ge> deadline then Some (Inr (0, data), r1, w1)
          else case handle_events U (min (trunc_div (deadline - t) 1000000) 50) w1 of
            (completions, w2) \<Rightarrow>
              case fold (handle_complete U) completions (r1, w2) of
                (r2, w3) \<Rightarrow> ring_read U deadline data r2 w3))"

text \<open>
  The destructor: it cancels every submitted transfer and waits until each has completed, which is
  not returning (\<open>None\<close>) if one never does.
\<close>

definition cancel_all :: "'t libusb \<Rightarrow> bulk_ring \<Rightarrow> 't \<Rightarrow> bulk_ring \<times> 't" where
  "cancel_all U r w =
     (r\<lparr>br_stopping := True\<rparr>,
      fold (\<lambda>i w. if br_submitted r ! i then cancel_transfer U i w else w) [0..<RingSize] w)"

partial_function (option) drain_ring ::
  "'t libusb \<Rightarrow> bulk_ring \<Rightarrow> 't \<Rightarrow> (bulk_ring \<times> 't) option"
where
  "drain_ring U r w =
     (if br_outstanding r > 0
      then case handle_events U 1000 w of (completions, w1) \<Rightarrow>
        (case fold (handle_complete U) completions (r, w1) of (r1, w2) \<Rightarrow> drain_ring U r1 w2)
      else Some (r, w))"

definition destroy_ring :: "'t libusb \<Rightarrow> bulk_ring \<Rightarrow> 't \<Rightarrow> (bulk_ring \<times> 't) option" where
  "destroy_ring U r w = (case cancel_all U r w of (r1, w1) \<Rightarrow> drain_ring U r1 w1)"

text \<open>\<open>close\<close> tears the ring down before it gives the interface and the handle back.\<close>

definition give_back :: "'t libusb \<Rightarrow> LibusbTransport \<Rightarrow> 't \<Rightarrow> 't" where
  "give_back U lt w =
     close_handle U (if lt_claimed lt then release_interface U (the (lt_interface lt)) w else w)"

definition close_libusb ::
  "'t libusb \<Rightarrow> LibusbTransport \<Rightarrow> bulk_ring option \<Rightarrow> 't \<Rightarrow> (LibusbTransport \<times> 't) option"
where
  "close_libusb U lt ring w =
     map_option (\<lambda>w1. (lt\<lparr>lt_claimed := False\<rparr>, give_back U lt w1))
       (case ring of None \<Rightarrow> Some w | Some r \<Rightarrow> map_option snd (destroy_ring U r w))"

text \<open>\<open>bulk_in\<close> starts the ring at its first call; the timeout is in milliseconds.\<close>

definition bulk_in ::
  "'t libusb \<Rightarrow> LibusbTransport \<Rightarrow> bytes \<Rightarrow> int \<Rightarrow> bulk_ring option \<Rightarrow> 't \<Rightarrow>
   ((error + nat \<times> bytes) \<times> bulk_ring option \<times> 't) option"
where
  "bulk_in U lt data timeout ring w =
     (if lt_bulk_in lt = None then Some (Inl NotSupported, ring, w)
      else case (case ring of None \<Rightarrow> make_ring U w | Some r \<Rightarrow> (r, w)) of (r, w1) \<Rightarrow>
        (case monotonic_clock U w1 of (t, w2) \<Rightarrow>
          map_option (apsnd (apfst Some)) (ring_read U (t + timeout * 1000000) data r w2)))"

end
