(* ===== verification/Unchanged.thy ===== *)
theory Unchanged
  imports Device
begin

text \<open>
  What a device keeps for life once it has begun - the pin table, the capabilities and the flags -
  whatever request arrives, and what \<open>poll()\<close> leaves alone besides.
\<close>

section \<open>What never changes after begin()\<close>

definition same_board :: "fw \<Rightarrow> fw \<Rightarrow> bool" where
  "same_board s s' \<longleftrightarrow> fw_n_pins s' = fw_n_pins s \<and> fw_n_ain s' = fw_n_ain s \<and>
     fw_caps s' = fw_caps s \<and> fw_flags s' = fw_flags s"

lemma same_board_refl [simp]: "same_board s s"
  by (simp add: same_board_def)

lemma same_board_trans: "same_board s s' \<Longrightarrow> same_board s' s'' \<Longrightarrow> same_board s s''"
  by (simp add: same_board_def)

lemma stall_board: "same_board s t \<Longrightarrow> same_board s (snd (stall e t))"
  by (simp add: stall_def same_board_def)

lemma enqueue_board: "same_board s (snd (enqueue r p x s))"
  by (simp add: enqueue_def same_board_def)

lemma pin_mode_board: "same_board s (snd (handle_pin_mode b pin val s))"
proof -
  have upd: "same_board s (snd (enqueue r p x s)\<lparr>fw_mode := m\<rparr>)" for r p x m
    using enqueue_board [of s r p x] by (simp add: same_board_def)
  have tail: "same_board s (let s3 = (if c then t\<lparr>fw_running := False\<rparr> else t)
      in if d then s3 else case event_watch_index s3 pin of None \<Rightarrow> s3 | Some i \<Rightarrow> unwatch i s3)"
    if "same_board s t" for c d t
    using that by (auto simp: same_board_def unwatch_def Let_def split: option.splits)
  show ?thesis
    using stall_board [OF same_board_refl] stall_board [OF enqueue_board] tail [OF upd, unfolded Let_def]
    by (auto simp: handle_pin_mode_def Let_def case_prod_beta split: option.split)
qed

lemma pin_request_board: "same_board s (snd (handle_pin_request b req pin val s))"
proof -
  have enq: "same_board s (snd (enqueue_or_stall r p x s))" for r p x
    using enqueue_board [of s r p x] stall_board [OF enqueue_board]
    by (auto simp: enqueue_or_stall_def case_prod_beta)
  have event: "same_board s (snd (handle_event_config pin val s))"
    by (auto simp: handle_event_config_def arm_event_def discard_events_for_pin_def unwatch_def
        same_board_def stall_def Let_def split: option.split)
  show ?thesis
    using enq event pin_mode_board stall_board [OF same_board_refl]
    by (cases req) (auto simp: handle_pin_request_def)
qed

lemma stream_requests_board:
  "same_board s (snd (handle_stream_select val index s))"
  "same_board s (snd (handle_stream_start val index s))"
  "same_board s (snd (handle_stream_stop s))"
  "same_board s (request_reset b s)"
  by (auto simp: handle_stream_select_def handle_stream_start_def handle_stream_stop_def
      remove_channel_def request_reset_def same_board_def stall_def Let_def split: option.split)

lemma handle_out_board: "same_board s (snd (handle_out b code val index len s))"
  using stream_requests_board pin_request_board stall_board [OF same_board_refl]
  by (auto simp: handle_out_def split: option.split)

lemma event_pop_board: "same_board s (snd (reply_event_pop i s))"
  using arg_cong [OF event_pop_frame, of fw_n_pins i s] arg_cong [OF event_pop_frame, of fw_n_ain i s]
    arg_cong [OF event_pop_frame, of fw_caps i s] arg_cong [OF event_pop_frame, of fw_flags i s]
  by (simp add: same_board_def)

lemma handle_in_board:
  assumes "handle_in b A code index len s h = (reply, s', h')"
  shows "same_board s s'"
proof (cases "request_of code")
  case None
  then show ?thesis
    using assms stall_board [OF same_board_refl, of s] by (auto simp: handle_in_def)
next
  case (Some req)
  obtain r s1 h1 where r: "in_reply b A req index len s h = (r, s1, h1)"
    by (metis prod.exhaust)
  have "same_board s s1"
    using event_pop_board
    by (subst in_reply_state [OF r]) (auto simp: same_board_def split: usbio_request.split option.split)
  then show ?thesis
    using assms Some r by (simp add: handle_in_def)
qed

text \<open>What \<open>poll()\<close> leaves alone, among the fields a request can set.\<close>

definition loop_keeps :: "fw \<Rightarrow> fw \<Rightarrow> bool" where
  "loop_keeps s s' \<longleftrightarrow> same_board s s' \<and> fw_mode s' = fw_mode s \<and>
     fw_last_error s' = fw_last_error s \<and> fw_n_channels s' = fw_n_channels s \<and>
     fw_channels s' = fw_channels s \<and> fw_stream_flags s' = fw_stream_flags s \<and>
     fw_period_us s' = fw_period_us s"

lemmas loop_keepsD = loop_keeps_def [THEN iffD1]

lemma loop_keeps_refl [simp]: "loop_keeps s s"
  by (simp add: loop_keeps_def)

lemma loop_keeps_trans: "loop_keeps s s' \<Longrightarrow> loop_keeps s' s'' \<Longrightarrow> loop_keeps s s''"
  by (simp add: loop_keeps_def same_board_def)

lemma shadow_change_keeps: "shadow_change s s' \<Longrightarrow> loop_keeps s s'"
proof -
  have "loop_keeps (s'\<lparr>fw_dio := d, fw_ain := a, fw_ain_cursor := c\<rparr>) s'" for d a c
    by (simp add: loop_keeps_def same_board_def)
  from this [where d = "fw_dio s" and a = "fw_ain s" and c = "fw_ain_cursor s"]
  show "shadow_change s s' \<Longrightarrow> loop_keeps s s'"
    by (simp add: shadow_change_def)
qed

lemma event_change_keeps: "event_change s s' \<Longrightarrow> loop_keeps s s'"
proof -
  have "loop_keeps (s'\<lparr>fw_watch := w, fw_events := e, fw_dropped := d\<rparr>) s'" for w e d
    by (simp add: loop_keeps_def same_board_def)
  from this [where w = "fw_watch s" and e = "fw_events s" and d = "fw_dropped s"]
  show "event_change s s' \<Longrightarrow> loop_keeps s s'"
    by (simp add: event_change_def)
qed

lemma poll_keeps: "loop_keeps s (fst (poll b A s h))"
proof -
  obtain s1 h1 s2 h2 s3 h3 where "poll_loop b A s h = (s1, h1)"
    and steps: "shadow_change s1 s2" "event_change s2 s3" "same_core s3 (fst (poll b A s h))"
    by (rule poll_stages)
  then have "shadow_change (empty_queue (s\<lparr>fw_reset_done := fw_reset_requests s\<rparr>)) s1"
    using poll_loop_shadow [of s b A h] by simp
  then have "loop_keeps (empty_queue (s\<lparr>fw_reset_done := fw_reset_requests s\<rparr>)) s3"
    using steps(1,2) shadow_change_keeps event_change_keeps loop_keeps_trans by blast
  then show ?thesis
    using steps(3) by (simp add: loop_keeps_def same_board_def same_core_def empty_queue_def)
qed

end
