(* ===== verification/HostLink.thy ===== *)
theory HostLink
  imports HostUsb Bench Unchanged
begin

text \<open>
  The host library on the firmware: a link whose libusb hands every control transfer to
  \<open>handle_setup\<close> of a running device, so that an operation of \<open>HostDevice\<close> can be followed from the
  call to the registers of the board and back.  The sketch's \<open>loop()\<close> runs concurrently: before
  each transfer, and during each sleep of the host, the device executes some number of \<open>poll()\<close>
  calls, which the link's schedule \<open>link_sched\<close> lists and every theorem leaves arbitrary.

  The link is the contract of libusb and of the USB stack below the transport: a request the
  device answers arrives with its reply, a request it rejects is a STALL.
\<close>

section \<open>The link\<close>

record 'h link =
  link_fw :: fw
  link_world :: 'h
  link_sched :: "nat list"
  link_clock :: int

definition loop_step :: "board \<Rightarrow> 'h arduino \<Rightarrow> fw \<times> 'h \<Rightarrow> fw \<times> 'h" where
  "loop_step b A c = (case c of (s, h) \<Rightarrow> poll b A s h)"

definition advance :: "board \<Rightarrow> 'h arduino \<Rightarrow> 'h link \<Rightarrow> 'h link" where
  "advance b A l =
     (case link_sched l of
        [] \<Rightarrow> l
      | n # ns \<Rightarrow> (case (loop_step b A ^^ n) (link_fw l, link_world l) of
          (s, h) \<Rightarrow> l\<lparr>link_fw := s, link_world := h, link_sched := ns\<rparr>))"

lemma advance_sched [simp]: "link_sched (advance b A l) = tl (link_sched l)"
  by (simp add: advance_def split: list.split prod.split)

definition link_control ::
  "board \<Rightarrow> 'h arduino \<Rightarrow> u8 \<Rightarrow> u8 \<Rightarrow> u16 \<Rightarrow> u16 \<Rightarrow> bytes \<Rightarrow> u32 \<Rightarrow> 'h link \<Rightarrow> (int \<times> bytes) \<times> 'h link"
where
  "link_control b A bm req val index buf ms l =
     (let l1 = advance b A l in
      case handle_setup b A \<lparr>bmRequestType = bm, bRequest = req, wValue = val, wIndex = index,
             wLength = of_nat (length buf)\<rparr> (link_fw l1) (link_world l1) of
        (reply, s, h) \<Rightarrow>
          ((case reply of
              None \<Rightarrow> (LIBUSB_ERROR_PIPE, buf)
            | Some bs \<Rightarrow> (int (length bs), memcpy_at 0 bs buf)),
           l1\<lparr>link_fw := s, link_world := h\<rparr>))"

definition link_sleep :: "board \<Rightarrow> 'h arduino \<Rightarrow> int \<Rightarrow> 'h link \<Rightarrow> 'h link" where
  "link_sleep b A us l = advance b A (l\<lparr>link_clock := link_clock l + us * 1000\<rparr>)"

definition link_usb :: "board \<Rightarrow> 'h arduino \<Rightarrow> 'h link libusb" where
  "link_usb b A = \<lparr>open_handle = (\<lambda>l. (0, l)), claim_interface = (\<lambda>_ l. (0, l)),
     release_interface = (\<lambda>_ l. l), close_handle = (\<lambda>l. l), control_transfer = link_control b A,
     submit_transfer = (\<lambda>_ l. (LIBUSB_ERROR_NOT_SUPPORTED, l)),
     cancel_transfer = (\<lambda>_ l. l), handle_events = (\<lambda>_ l. ([], l)),
     thread_sleep = link_sleep b A, monotonic_clock = (\<lambda>l. (link_clock l, l))\<rparr>"

definition link_transport :: "board \<Rightarrow> 'h arduino \<Rightarrow> LibusbTransport \<Rightarrow> 'h link transport" where
  "link_transport b A lt = libusb_transport (link_usb b A) lt"

section \<open>The state of the link\<close>

text \<open>A device that has begun, reached through a recipient form it accepts.\<close>

definition link_ok :: "board \<Rightarrow> LibusbTransport \<Rightarrow> 'h link \<Rightarrow> bool" where
  "link_ok b lt l \<longleftrightarrow> wf_board b \<and> fw_inv b (link_fw l) \<and>
     (lt_recipient lt = RecipientInterface \<longrightarrow>
        lt_interface lt \<noteq> None \<and> fw_flags (link_fw l) AND USBIO_FLAG_VENDOR_INTERFACE \<noteq> 0)"

lemma loop_steps:
  assumes "fw_inv b s" and "wf_board b" and "(loop_step b A ^^ n) (s, h) = (s', h')"
  shows "fw_inv b s' \<and> loop_keeps s s'"
  using assms(3)
proof (induction n arbitrary: s' h')
  case 0
  then show ?case
    using assms(1) by simp
next
  case (Suc n)
  obtain s1 h1 where 1: "(loop_step b A ^^ n) (s, h) = (s1, h1)"
    by (metis prod.exhaust)
  have "loop_step b A (s1, h1) = (s', h')"
    using Suc.prems 1 by simp
  then have "s' = fst (poll b A s1 h1)"
    by (simp add: loop_step_def)
  then show ?case
    using Suc.IH [OF 1] poll_inv [OF _ assms(2), of s1 A h1] poll_keeps [of s1 b A h1]
      loop_keeps_trans by blast
qed

lemma advance_ok:
  assumes "link_ok b lt l"
  shows "link_ok b lt (advance b A l)" and "loop_keeps (link_fw l) (link_fw (advance b A l))"
proof -
  have "link_ok b lt (advance b A l) \<and> loop_keeps (link_fw l) (link_fw (advance b A l))"
  proof (cases "link_sched l")
    case Nil
    then show ?thesis
      using assms by (simp add: advance_def)
  next
    case (Cons n ns)
    obtain s h where run: "(loop_step b A ^^ n) (link_fw l, link_world l) = (s, h)"
      by (metis prod.exhaust)
    have "fw_inv b s \<and> loop_keeps (link_fw l) s"
      using loop_steps [OF _ _ run] assms by (simp add: link_ok_def)
    then show ?thesis
      using assms Cons run
      by (auto simp: advance_def link_ok_def loop_keeps_def same_board_def)
  qed
  then show "link_ok b lt (advance b A l)"
    and "loop_keeps (link_fw l) (link_fw (advance b A l))"
    by blast+
qed

section \<open>Transfers over the link\<close>

text \<open>The pin of a request survives the interface-recipient form.\<close>

definition fits :: "LibusbTransport \<Rightarrow> u16 \<Rightarrow> bool" where
  "fits lt index \<longleftrightarrow> lt_recipient lt = RecipientDevice \<or> index < 256"

lemma fits_pin [simp]: "fits lt (ucast (pin :: u8))"
  by (simp add: fits_def word_less_nat_alt)

lemma transfer_link:
  assumes "length buf < 65536"
  shows "transfer (link_usb b A) bm code val index buf timeout l =
    (case link_control b A bm code val index buf (clamp_timeout timeout) l of
       ((rc, buf1), l1) \<Rightarrow> (if rc < 0 then Inl StallError else Inr (nat rc, buf1), l1))"
  using assms
  by (simp add: transfer_def link_usb_def link_control_def Let_def throw_usb_error_def
      split: prod.split option.split)

text \<open>Both recipient forms reach the same handler with the same index.\<close>

definition wire_of :: "LibusbTransport \<Rightarrow> u16 \<Rightarrow> u16" where
  "wire_of lt index = (case lt_recipient lt of RecipientDevice \<Rightarrow> index
     | RecipientInterface \<Rightarrow> interface_index index (the (lt_interface lt)))"

lemma wire_index_eq: "fits lt index \<Longrightarrow> wire_index lt index = Inr (wire_of lt index)"
  by (cases "lt_recipient lt")
    (auto simp: wire_index_def wire_of_def fits_def word_le_nat_alt word_less_nat_alt)

lemma setup_form:
  assumes "link_ok b lt l" and "fits lt index"
  shows "handle_setup b A \<lparr>bmRequestType = bm_request_type out (lt_recipient lt), bRequest = code,
        wValue = val, wIndex = wire_of lt index, wLength = len\<rparr> (link_fw (advance b A l)) h =
      (if out
       then case handle_out b code val index len (link_fw (advance b A l)) of
           (ok, s1) \<Rightarrow> (if ok then Some [] else None, s1, h)
       else handle_in b A code index len (link_fw (advance b A l)) h)"
proof (cases "lt_recipient lt")
  case RecipientDevice
  then show ?thesis
    by (simp add: wire_of_def handle_setup_def)
next
  case RecipientInterface
  then have "drop_bit 8 (interface_index index n) = index" for n
    using assms(2) by (simp add: fits_def request_of_interface_index)
  moreover have "fw_flags (link_fw (advance b A l)) AND USBIO_FLAG_VENDOR_INTERFACE \<noteq> 0"
    using advance_ok(1) [OF assms(1), of A] RecipientInterface by (simp add: link_ok_def)
  ultimately show ?thesis
    using RecipientInterface by (simp add: wire_of_def handle_setup_def)
qed

text \<open>An OUT request: what the host sees is what \<open>handle_out\<close> decides.\<close>

lemma link_out:
  assumes "link_ok b lt l" and "fits lt index"
    and "handle_out b code val index 0 (link_fw (advance b A l)) = (accepted, s)"
  shows "control_out (link_transport b A lt) code val index timeout l =
    (if accepted then Inr () else Inl StallError, (advance b A l)\<lparr>link_fw := s\<rparr>)"
  using setup_form [OF assms(1,2), of A True code val 0] wire_index_eq [OF assms(2)] assms(3)
  by (cases accepted) (simp_all add: link_transport_def libusb_transport_def
      libusb_control_out_def io_bind_def lift_result_def ret_def transfer_link link_control_def
      Let_def memcpy_at_def)

text \<open>An IN request: the reply of \<open>handle_in\<close> at the front of the buffer.\<close>

lemma link_in:
  assumes "link_ok b lt l" and "fits lt index" and "length buf < 65536"
    and "handle_in b A code index (of_nat (length buf)) (link_fw (advance b A l))
           (link_world (advance b A l)) = (reply, s, h)"
  shows "control_in (link_transport b A lt) code val index buf timeout l =
    (case reply of None \<Rightarrow> Inl StallError | Some r \<Rightarrow> Inr (length r, memcpy_at 0 r buf),
     (advance b A l)\<lparr>link_fw := s, link_world := h\<rparr>)"
  using setup_form [OF assms(1,2), of A False code val "of_nat (length buf)"]
    wire_index_eq [OF assms(2)] assms(3,4)
  by (cases reply) (simp_all add: link_transport_def libusb_transport_def
      libusb_control_in_def io_bind_def lift_result_def transfer_link link_control_def Let_def)

lemma link_reply_fits:
  assumes "link_ok b lt l" and "length buf < 65536"
    and "handle_in b A code index (of_nat (length buf)) (link_fw l) h0 = (Some r, s, h)"
  shows "length r \<le> length buf" and "length (memcpy_at 0 r buf) = length buf"
proof -
  show len: "length r \<le> length buf"
    using handle_in_length [of "link_fw l" b A code index _ h0 r] assms
    by (fastforce simp: link_ok_def fw_inv_def unat_of_nat take_bit_eq_mod)
  show "length (memcpy_at 0 r buf) = length buf"
    using len by (simp add: length_memcpy_at)
qed

lemma link_ok_board:
  "link_ok b lt l \<Longrightarrow> fw_inv b s \<Longrightarrow> same_board (link_fw l) s \<Longrightarrow>
     link_ok b lt (l\<lparr>link_fw := s\<rparr>)"
  "link_ok b lt l \<Longrightarrow> fw_inv b s \<Longrightarrow> same_board (link_fw l) s \<Longrightarrow>
     link_ok b lt (l\<lparr>link_fw := s, link_world := h\<rparr>)"
  by (simp_all add: link_ok_def same_board_def)

lemma link_misfit:
  assumes "\<not> fits lt index"
  shows "control_in (link_transport b A lt) code val index buf timeout l = (Inl invalid_argument, l)"
    and "control_out (link_transport b A lt) code val index timeout l = (Inl invalid_argument, l)"
proof -
  have "wire_index lt index = Inl invalid_argument"
    using assms by (simp add: wire_index_def fits_def word_less_nat_alt)
  then show "control_in (link_transport b A lt) code val index buf timeout l = (Inl invalid_argument, l)"
    "control_out (link_transport b A lt) code val index timeout l = (Inl invalid_argument, l)"
    by (simp_all add: link_transport_def libusb_transport_def libusb_control_in_def
        libusb_control_out_def io_bind_def lift_result_def)
qed

lemma link_in_ok:
  assumes l: "link_ok b lt l" and buf: "length buf < 65536"
    and res: "control_in (link_transport b A lt) code val index buf timeout l = (r, l')"
  shows "link_ok b lt l'" and "r = Inr (n, buf') \<Longrightarrow> n \<le> length buf \<and> length buf' = length buf"
proof -
  obtain reply s h where hi: "handle_in b A code index (of_nat (length buf))
      (link_fw (advance b A l)) (link_world (advance b A l)) = (reply, s, h)"
    by (metis prod.exhaust)
  have l1: "link_ok b lt (advance b A l)"
    by (rule advance_ok [OF l])
  then have "fw_inv b s"
    using handle_in_inv [of b "link_fw (advance b A l)" A code index "of_nat (length buf)"
        "link_world (advance b A l)"] hi by (simp add: link_ok_def)
  then have ok: "link_ok b lt ((advance b A l)\<lparr>link_fw := s, link_world := h\<rparr>)"
    by (rule link_ok_board [OF l1 _ handle_in_board [OF hi]])
  show "link_ok b lt l'"
    using res l ok link_in [OF l _ buf hi, of val timeout] link_misfit(1) [of lt index b A code val buf timeout l]
    by (cases "fits lt index") auto
  show "r = Inr (n, buf') \<Longrightarrow> n \<le> length buf \<and> length buf' = length buf"
    using res link_in [OF l _ buf hi, of val timeout] link_misfit(1) [of lt index b A code val buf timeout l]
      link_reply_fits [OF l1 buf, of A code index "link_world (advance b A l)"] hi
    by (cases "fits lt index") (auto split: option.splits)
qed

lemma link_out_ok:
  assumes l: "link_ok b lt l"
  shows "link_ok b lt (snd (control_out (link_transport b A lt) code val index timeout l))"
proof (cases "fits lt index")
  case True
  obtain ok s where ho: "handle_out b code val index 0 (link_fw (advance b A l)) = (ok, s)"
    by (metis prod.exhaust)
  have l1: "link_ok b lt (advance b A l)"
    by (rule advance_ok [OF l])
  have "fw_inv b s"
    using handle_out_inv [of b "link_fw (advance b A l)" code val index 0] l1 ho by (simp add: link_ok_def)
  moreover have "same_board (link_fw (advance b A l)) s"
    using handle_out_board [of "link_fw (advance b A l)" b code val index 0] ho by simp
  ultimately show ?thesis
    using link_ok_board(1) [OF l1] link_out [OF l True ho] by simp
next
  case False
  then show ?thesis
    using l by (simp add: link_misfit)
qed

text \<open>The link meets the contract of a transport, for both recipient forms and every schedule.\<close>

interpretation link: transport_contract "link_transport b A lt" "link_ok b lt"
  for b :: board and A :: "'h arduino" and lt :: LibusbTransport
proof
  fix w :: "'h link" and buf :: bytes and req val index timeout
  assume "link_ok b lt w" "length buf < 65536"
  then show "link_ok b lt (snd (control_in (link_transport b A lt) req val index buf timeout w))"
    using link_in_ok(1) [of b lt w buf A req val index timeout]
    by (metis prod.collapse)
next
  fix w w' :: "'h link" and buf buf' :: bytes and req val index timeout n
  assume "link_ok b lt w" "length buf < 65536"
    "control_in (link_transport b A lt) req val index buf timeout w = (Inr (n, buf'), w')"
  then show "n \<le> length buf \<and> length buf' = length buf"
    using link_in_ok(2) by blast
next
  fix w :: "'h link" and req val index timeout
  assume "link_ok b lt w"
  then show "link_ok b lt (snd (control_out (link_transport b A lt) req val index timeout w))"
    by (rule link_out_ok)
next
  fix w :: "'h link" and us
  assume "link_ok b lt w"
  then have "link_ok b lt (w\<lparr>link_clock := link_clock w + us * 1000\<rparr>)"
    by (simp add: link_ok_def)
  then show "link_ok b lt (sleep_for (link_transport b A lt) us w)"
    using advance_ok(1)
    by (simp add: link_transport_def libusb_transport_def link_usb_def link_sleep_def)
next
  fix w :: "'h link"
  assume "link_ok b lt w"
  then show "link_ok b lt (snd (steady_clock (link_transport b A lt) w))"
    by (simp add: link_transport_def libusb_transport_def link_usb_def)
qed

end
