(* ===== verification/LinkBench.thy ===== *)
theory LinkBench
  imports HostLink
begin

text \<open>
  The link of \<open>HostLink\<close> on the simulated bench: the host reaches the device of \<open>Bench\<close> by its
  vendor interface.  The concrete runs of the host library start here.
\<close>

definition bench_lt :: LibusbTransport where
  "bench_lt = \<lparr>lt_recipient = RecipientInterface, lt_interface = Some 2, lt_bulk_in = None,
     lt_claimed = True\<rparr>"

definition bench_link :: "fw \<times> bench \<Rightarrow> nat list \<Rightarrow> bench link" where
  "bench_link c sched = \<lparr>link_fw = fst c, link_world = snd c, link_sched = sched, link_clock = 0\<rparr>"

abbreviation bench_transport :: "bench link transport" where
  "bench_transport \<equiv> link_transport bench_board bench_arduino bench_lt"

lemma bench_link_simps [simp]:
  "link_fw (bench_link c sched) = fst c" "link_world (bench_link c sched) = snd c"
  "link_sched (bench_link c sched) = sched"
  "advance b A (bench_link c (0 # sched)) = bench_link c sched"
  by (simp_all add: bench_link_def advance_def case_prod_beta)

lemma bench_link_ok:
  assumes "reachable bench_board bench_arduino c"
    and "fw_flags (fst c) AND USBIO_FLAG_VENDOR_INTERFACE \<noteq> 0"
  shows "link_ok bench_board bench_lt (bench_link c sched)"
  using reachable_inv [OF assms(1) wf_bench_board] assms(2)
  by (simp add: link_ok_def bench_lt_def wf_bench_board)

lemma started_facts:
  "fw_flags (fst started) AND USBIO_FLAG_VENDOR_INTERFACE \<noteq> 0" "fw_n_pins (fst started) = 8"
  "fw_flags (fst started) AND USBIO_FLAG_PULLDOWN \<noteq> 0 \<longleftrightarrow> HasPulldown bench_board"
  by code_simp+

lemma started_link: "link_ok bench_board bench_lt (bench_link started sched)"
  by (rule bench_link_ok [OF bench_reachable(1) started_facts(1)])

text \<open>After \<open>pin_mode(3, OUTPUT)\<close>.\<close>

definition output_run :: "fw \<times> bench" where
  "output_run = send (out_packet USBIO_REQ_PIN_MODE 1 3) started"

lemma output_facts:
  "fw_flags (fst output_run) AND USBIO_FLAG_VENDOR_INTERFACE \<noteq> 0"
  "fw_flags (fst output_run) AND USBIO_FLAG_PULLDOWN \<noteq> 0 \<longleftrightarrow> HasPulldown bench_board"
  "\<not> fw_n_pins (fst output_run) \<le> 3" "fw_caps (fst output_run) 3 AND USBIO_CAP_DIO \<noteq> 0"
  "out_error bench_board 4 1 3 0 (fst output_run) = None"
  by code_simp+

lemma output_link: "link_ok bench_board bench_lt (bench_link output_run sched)"
  by (rule bench_link_ok [OF _ output_facts(1)])
    (unfold output_run_def, rule bench_reachable(2) [OF bench_reachable(1)])

end
