(* ===== verification/HostGuarantees.thy ===== *)
theory HostGuarantees
  imports LinkBench Guarantees
begin

text \<open>
  The guarantees of the host library, most of them end to end: an operation of \<open>HostDevice\<close> on the
  link of \<open>HostLink\<close>, that is, on a running firmware reached through the libusb transport in
  either recipient form, while the sketch's \<open>loop()\<close> runs on an arbitrary schedule.
\<close>

section \<open>The two ends agree on the wire\<close>

lemma decode_popped:
  "map (decode_event (fst (reply_event_pop i s))) [0..<length (popped i s)] = popped i s"
proof (rule nth_equalityI)
  fix k assume "k < length (map (decode_event (fst (reply_event_pop i s))) [0..<length (popped i s)])"
  then have k: "k < length (popped i s)"
    by simp
  show "map (decode_event (fst (reply_event_pop i s))) [0..<length (popped i s)] ! k = popped i s ! k"
    using k decode_event_entry [OF _ k, of _ "[]"] by (simp add: event_pop_reply)
qed simp

lemma decode_counted:
  "map (decode_event_count (reply_event_counts s)) [0..<length (active_slots s)] =
     map (count_entry s) (count_order s)"
proof (rule nth_equalityI)
  have len: "length (count_order s) = length (active_slots s)"
    by (rule length_count_order)
  fix k assume "k < length (map (decode_event_count (reply_event_counts s)) [0..<length (active_slots s)])"
  then have k: "k < length (map (count_entry s) (count_order s))"
    by (simp add: len)
  show "map (decode_event_count (reply_event_counts s)) [0..<length (active_slots s)] ! k =
      map (count_entry s) (count_order s) ! k"
    using k decode_event_count_entry [OF _ k, of _ "[]"]
    by (simp add: reply_event_counts_eq len comp_def)
qed (simp add: length_count_order)

text \<open>C23. Every decoder of the host inverts the layout the firmware writes: device information,
  clock, stream status, stream record header (in both directions), popped events and counts.\<close>

theorem decoders_invert_the_replies:
  "decode_info (reply_info b s) = Inr (device_info b s) \<and>
   decode_time_reply (time_reply_bytes ms us) =
     Inr \<lparr>tr_status = status_code USBIO_OK, tr_millis = ms, tr_micros = us\<rparr> \<and>
   decode_stream_status (reply_stream_status s) =
     Inr \<lparr>st_status = status_code USBIO_OK, st_running = fw_running s,
          st_n_channels = fw_n_channels s, st_flags = fw_stream_flags s,
          st_period_us = fw_period_us s, st_seq = (if fw_seq s = 0 then 0 else fw_seq s - 1),
          st_overruns = fw_overruns s\<rparr> \<and>
   decode_stream_header (encode_stream_header (replicate 12 x) h @ rest) = h \<and>
   encode_stream_header (replicate 12 x) h = stream_header_bytes h \<and>
   map (decode_event (fst (reply_event_pop i s))) [0..<length (popped i s)] = popped i s \<and>
   map (decode_event_count (reply_event_counts s)) [0..<length (active_slots s)] =
     map (count_entry s) (count_order s)"
  by (simp add: reply_info_def decode_info_bytes decode_time_reply_bytes reply_stream_status_def
      decode_stream_status_bytes encode_stream_header_bytes decode_stream_header_bytes
      decode_popped decode_counted)

lemma config_value_parts:
  "ucast (encode_event_config_value debounce edge AND 0xFF) = edge"
  "ucast (drop_bit 8 (encode_event_config_value debounce edge)) = debounce"
proof -
  show "ucast (encode_event_config_value debounce edge AND 0xFF) = edge"
    unfolding encode_event_config_value_def mask8_u16
    by (rule bit_word_eqI) (auto simp: bit_simps)
  show "ucast (drop_bit 8 (encode_event_config_value debounce edge)) = debounce"
    unfolding encode_event_config_value_def
    by (rule bit_word_eqI) (auto simp: bit_simps dest: bit_imp_le_length)
qed

text \<open>C24. What the host checks before a request is what the firmware checks on receiving it: the
  mode rules, the full scale of the PWM and the DAC, and the fields of EVENT_CONFIG and of the
  interface-recipient \<open>wIndex\<close>.\<close>

theorem host_rules_match_the_firmware:
  "mode_supported (mode_code m) caps (HasPulldown b) = mode_allowed b caps m \<and>
   max_value (unat bits) = full_scale bits \<and>
   ucast (encode_event_config_value debounce edge AND 0xFF) = edge \<and>
   ucast (drop_bit 8 (encode_event_config_value debounce edge)) = debounce \<and>
   drop_bit 8 (interface_index (ucast pin) number) = (ucast (pin :: u8) :: u16)"
proof (intro conjI)
  show "drop_bit 8 (interface_index (ucast pin) number) = (ucast pin :: u16)"
    by (rule request_of_interface_index) (simp add: word_less_nat_alt)
qed (simp_all add: mode_supported_iff max_value_full_scale config_value_parts)

text \<open>C25. For a device up for less than 2^32 milliseconds, the 64-bit clock the host rebuilds from
  the wrapping \<open>millis()\<close> and \<open>micros()\<close> of one reply is the exact uptime in microseconds.\<close>

theorem micros64_is_the_uptime:
  assumes "uptime < 4294967296 * 1000"
  shows "unat (reconstruct_micros64 (of_nat (uptime div 1000)) (of_nat uptime)) = uptime"
  using reconstruct_micros64_eq [OF assms] assms by (simp add: unat_of_nat_u64)

theorem micros64_witness:
  "unat (reconstruct_micros64 (of_nat (4294967999 div 1000)) (of_nat 4294967999)) = 4294967999"
  using micros64_is_the_uptime [of 4294967999] by simp

section \<open>Connecting\<close>

lemma memcpy_all: "length bs = length buf \<Longrightarrow> memcpy_at 0 bs buf = bs"
  by (simp add: memcpy_at_def)

text \<open>One transfer of an IN request that the device answers.\<close>

lemma link_raw_in:
  assumes "link_ok b lt l" and "fits lt index" and "length buf < 65536"
    and "in_reply b A req index (of_nat (length buf)) (link_fw (advance b A l))
           (link_world (advance b A l)) = (Some full, s, h)"
  shows "raw_in (link_transport b A lt) opts req index buf l =
    (Inr (min (length buf) (length full), memcpy_at 0 (take (length buf) full) buf),
     (advance b A l)\<lparr>link_fw := s, link_world := h\<rparr>)"
proof -
  have "handle_in b A (request_code req) index (of_nat (length buf)) (link_fw (advance b A l))
      (link_world (advance b A l)) = (Some (take (length buf) full), s, h)"
    using assms(3,4) by (simp add: handle_in_def)
  from link_in [OF assms(1-3) this] show ?thesis
    by (simp add: raw_in_def io_bind_def ret_def min_def)
qed

lemma same_info: "same_board s s' \<Longrightarrow> device_info b s' = device_info b s"
  by (simp add: device_info_def same_board_def)

lemma advance_board:
  "link_ok b lt l \<Longrightarrow> same_board (link_fw l) (link_fw (advance b A l))"
  using advance_ok(2) by (auto simp: loop_keeps_def)

lemma link_get_info:
  assumes "link_ok b lt l"
  shows "info_attempt (link_transport b A lt) opts not_ready l =
    (if fw_n_pins (link_fw l) \<noteq> 0 then (Inr (device_info b (link_fw l)), advance b A l)
     else not_ready (advance b A l))"
proof -
  let ?l = "advance b A l"
  have "in_reply b A USBIO_REQ_GET_INFO 0 (of_nat (length (replicate 24 (0 :: u8)))) (link_fw ?l)
      (link_world ?l) = (Some (reply_info b (link_fw ?l)), link_fw ?l, link_world ?l)"
    by (simp add: in_reply_def)
  from link_raw_in [OF assms _ _ this, of opts]
  have "raw_in (link_transport b A lt) opts USBIO_REQ_GET_INFO 0 (replicate 24 0) l =
      (Inr (24, reply_info b (link_fw ?l)), ?l)"
    by (simp add: fits_def memcpy_all reply_info_def)
  moreover have "device_info b (link_fw ?l) = device_info b (link_fw l)"
    by (rule same_info [OF advance_board [OF assms]])
  ultimately show ?thesis
    by (simp add: info_attempt_def io_bind_def lift_result_def ret_def reply_info_def decode_info_bytes)
      (simp add: device_info_def)
qed

lemma link_pause:
  assumes "link_ok b lt l"
  obtains l' where "pause (link_transport b A lt) delay l = (Inr (), l')" "link_ok b lt l'"
    "same_board (link_fw l) (link_fw l')"
proof (cases "delay > 0")
  case True
  let ?l = "l\<lparr>link_clock := link_clock l + delay * 1000\<rparr>"
  have ok: "link_ok b lt ?l"
    using assms by (simp add: link_ok_def)
  have "pause (link_transport b A lt) delay l = (Inr (), advance b A ?l)"
    using True by (simp add: pause_def link_transport_def libusb_transport_def link_usb_def link_sleep_def)
  moreover have "same_board (link_fw l) (link_fw (advance b A ?l))"
    using advance_board [OF ok, of A] by simp
  ultimately show ?thesis
    using that advance_ok(1) [OF ok] by blast
next
  case False
  then show ?thesis
    using that assms by (simp add: pause_def)
qed

lemma link_info_retry:
  assumes "link_ok b lt l"
  shows "fst (info_retry (link_transport b A lt) opts left l) =
      (if fw_n_pins (link_fw l) = 0 then Inl NotReady else Inr (device_info b (link_fw l)))"
    and "fw_n_pins (link_fw l) \<noteq> 0 \<Longrightarrow>
      snd (info_retry (link_transport b A lt) opts left l) = advance b A l"
  using assms
proof (induction left arbitrary: l)
  case 0
  {
    case 1
    then show ?case
      by (simp add: link_get_info throw_def)
  next
    case 2
    then show ?case
      by (simp add: link_get_info)
  }
next
  case (Suc left)
  {
    case 1
    obtain l' where l': "pause (link_transport b A lt) (ready_delay opts * 1000) (advance b A l) = (Inr (), l')"
      "link_ok b lt l'" "same_board (link_fw (advance b A l)) (link_fw l')"
      by (rule link_pause [OF advance_ok(1) [OF 1]])
    then have "fw_n_pins (link_fw l') = fw_n_pins (link_fw l)"
      using advance_board [OF 1, of A] by (simp add: same_board_def)
    then show ?case
      using Suc.IH(1) [OF l'(2)] l'(1) 1 by (simp add: link_get_info io_bind_def)
  next
    case 2
    then show ?case
      by (simp add: link_get_info)
  }
qed

lemma reply_all_caps:
  assumes "pins_inv s" and "fw_n_pins s \<noteq> 0"
  shows "reply_pin_caps 0 (of_nat (unat (fw_n_pins s))) s = map (fw_caps s) (pins_below (fw_n_pins s))"
proof -
  have "0 < unat (fw_n_pins s)"
    using assms(2) by (simp add: unat_gt_0)
  moreover have "(of_nat (unat (fw_n_pins s)) :: u16) = ucast (fw_n_pins s)"
    by (simp add: word_unat_eq_iff)
  ultimately show ?thesis
    by (simp add: reply_pin_caps_def pins_below_def word_less_nat_alt comp_def)
qed

lemma analog_pins_eq:
  "map of_nat (filter (\<lambda>p. has (map (fw_caps s) (pins_below n) ! p) USBIO_CAP_AIN) [0..<unat n]) =
     filter (\<lambda>p. fw_caps s p AND USBIO_CAP_AIN \<noteq> 0) (pins_below n)"
proof -
  have "filter (\<lambda>p. has (map (fw_caps s) (pins_below n) ! p) USBIO_CAP_AIN) [0..<unat n] =
      filter (\<lambda>p. fw_caps s (of_nat p) AND USBIO_CAP_AIN \<noteq> 0) [0..<unat n]"
    by (rule filter_cong) (simp_all add: pins_below_def has_caps)
  then show ?thesis
    by (simp add: pins_below_def filter_map comp_def)
qed

lemma link_load_caps:
  assumes "link_ok b lt l" and "fw_n_pins (link_fw l) \<noteq> 0"
  shows "load_caps (link_transport b A lt) opts (device_info b (link_fw l)) l =
    (Inr (map (fw_caps (link_fw l)) (pins_below (fw_n_pins (link_fw l))), ain_pins (link_fw l)),
     advance b A l)"
proof -
  let ?l = "advance b A l" and ?s = "link_fw l"
  have ok: "link_ok b lt ?l" and same: "same_board ?s (link_fw ?l)"
    using advance_ok(1) [OF assms(1)] advance_board [OF assms(1)] by auto
  have inv: "pins_inv ?s" "pins_inv (link_fw ?l)"
    using assms(1) ok by (simp_all add: link_ok_def fw_inv_def)
  have n: "info_n_pins (device_info b ?s) = fw_n_pins ?s" "info_n_ain (device_info b ?s) = fw_n_ain ?s"
    by (simp_all add: device_info_def)
  let ?caps = "map (fw_caps ?s) (pins_below (fw_n_pins ?s))"
  have "reply_pin_caps 0 (of_nat (unat (fw_n_pins ?s))) (link_fw ?l) = ?caps"
    using reply_all_caps [OF inv(2)] same assms(2) by (simp add: same_board_def)
  then have "in_reply b A USBIO_REQ_GET_PIN_CAPS 0
      (of_nat (length (replicate (unat (fw_n_pins ?s)) (0 :: u8)))) (link_fw ?l) (link_world ?l) =
      (Some ?caps, link_fw ?l, link_world ?l)"
    by (simp add: in_reply_def)
  moreover have "unat (fw_n_pins ?s) < 65536"
    using unat_lt_u8 [of "fw_n_pins ?s"] by linarith
  ultimately have raw: "raw_in (link_transport b A lt) opts USBIO_REQ_GET_PIN_CAPS 0
      (replicate (unat (fw_n_pins ?s)) 0) l = (Inr (unat (fw_n_pins ?s), ?caps), ?l)"
    using link_raw_in [OF assms(1), of 0 "replicate (unat (fw_n_pins ?s)) 0" A
        USBIO_REQ_GET_PIN_CAPS ?caps "link_fw ?l" "link_world ?l" opts]
    by (simp add: fits_def memcpy_all)
  have len: "length (filter (\<lambda>p. has (?caps ! p) USBIO_CAP_AIN) [0..<unat (fw_n_pins ?s)]) =
      length (filter (\<lambda>p. fw_caps ?s p AND USBIO_CAP_AIN \<noteq> 0) (pins_below (fw_n_pins ?s)))"
    unfolding analog_pins_eq [symmetric] by (rule length_map [symmetric])
  have "map (read_u8 ?caps) [0..<unat (fw_n_pins ?s)] = ?caps"
    by (rule nth_equalityI) (simp_all add: read_u8_def)
  then show ?thesis
    using raw inv(1) analog_pins_eq [of ?s "fw_n_pins ?s"] len
    by (simp add: load_caps_def Let_def n io_bind_def ret_def ain_pins_def pins_inv_def)
qed

text \<open>Construction is two transfers: GET_INFO and GET_PIN_CAPS.\<close>

lemma connected_begun:
  assumes "link_ok b lt l" and "fw_n_pins (link_fw l) \<noteq> 0"
  shows "make_device (link_transport b A lt) opts l =
    (Inr \<lparr>dev_options = opts, dev_info = device_info b (link_fw l),
         dev_caps = map (fw_caps (link_fw l)) (pins_below (fw_n_pins (link_fw l))),
         dev_analog_pins = ain_pins (link_fw l), dev_streaming = False, dev_selected = []\<rparr>, advance b A (advance b A l))"
proof -
  let ?l = "advance b A l"
  have ok: "link_ok b lt ?l" and same: "same_board (link_fw l) (link_fw ?l)"
    using advance_ok(1) [OF assms(1)] advance_board [OF assms(1)] by auto
  have info: "info_retry (link_transport b A lt) opts k l = (Inr (device_info b (link_fw l)), ?l)" for k
    using link_info_retry [OF assms(1), of A opts k] assms(2) by (simp add: prod_eq_iff)
  have inv: "pins_inv (link_fw l)"
    using assms(1) by (simp add: link_ok_def fw_inv_def)
  have "length (ain_pins (link_fw l)) \<le> unat (fw_n_pins (link_fw l))"
    using length_filter_le [of _ "pins_below (fw_n_pins (link_fw l))"] by (simp add: ain_pins_def)
  then have "load_info (link_transport b A lt) opts l = (Inr (device_info b (link_fw l)), ?l)"
    using inv by (simp add: load_info_def info io_bind_def ret_def device_info_def pins_inv_def
        word_less_nat_alt)
  moreover have "load_caps (link_transport b A lt) opts (device_info b (link_fw l)) ?l =
      (Inr (map (fw_caps (link_fw l)) (pins_below (fw_n_pins (link_fw l))), ain_pins (link_fw l)),
       advance b A ?l)"
    using link_load_caps [OF ok, of A opts] same_info [OF same, of b] same assms(2)
    by (simp add: same_board_def ain_pins_def)
  ultimately show ?thesis
    using assms(2) by (simp add: make_device_def io_bind_def ret_def)
qed

lemma connected_device:
  assumes "link_ok b lt l"
  shows "fst (make_device (link_transport b A lt) opts l) =
    (if fw_n_pins (link_fw l) = 0 then Inl NotReady
     else Inr \<lparr>dev_options = opts, dev_info = device_info b (link_fw l),
       dev_caps = map (fw_caps (link_fw l)) (pins_below (fw_n_pins (link_fw l))),
       dev_analog_pins = ain_pins (link_fw l), dev_streaming = False, dev_selected = []\<rparr>)"
proof (cases "fw_n_pins (link_fw l) = 0")
  case True
  let ?k = "max 1 (ready_max_attempts opts) - 1"
  obtain l' where "info_retry (link_transport b A lt) opts ?k l = (Inl NotReady, l')"
    using link_info_retry(1) [OF assms, of A opts ?k] True by (simp add: prod_eq_iff)
  then show ?thesis
    using True by (simp add: make_device_def load_info_def io_bind_def)
next
  case False
  then show ?thesis
    by (simp add: connected_begun [OF assms])
qed

text \<open>Connecting to a device that has begun succeeds, whatever the sketch does meanwhile: the
  driver then holds the firmware's own description, capability table and list of analog pins.
  A device whose sketch has not reached \<open>begin()\<close> is reported as not ready, after the configured
  number of attempts.\<close>

theorem connecting_mirrors_the_device:
  assumes "link_ok b lt l"
  shows "fst (make_device (link_transport b A lt) opts l) =
    (if fw_n_pins (link_fw l) = 0 then Inl NotReady
     else Inr \<lparr>dev_options = opts, dev_info = device_info b (link_fw l),
       dev_caps = map (fw_caps (link_fw l)) (pins_below (fw_n_pins (link_fw l))),
       dev_analog_pins = ain_pins (link_fw l), dev_streaming = False, dev_selected = []\<rparr>)"
  by (rule connected_device [OF assms])

theorem connecting_witness:
  "fst (make_device bench_transport default_options (bench_link started [1, 0, 2])) =
     Inr \<lparr>dev_options = default_options, dev_info = device_info bench_board (fst started),
       dev_caps = map (fw_caps (fst started)) (pins_below 8),
       dev_analog_pins = ain_pins (fst started), dev_streaming = False, dev_selected = []\<rparr>"
  using connecting_mirrors_the_device [OF started_link, of bench_arduino default_options "[1, 0, 2]"]
  by (simp add: started_facts(2))

section \<open>Refusals become exceptions\<close>

text \<open>The exception that stands for each reason a firmware may give.\<close>

fun exception_for :: "usbio_status \<Rightarrow> error" where
  "exception_for USBIO_BAD_PIN = InvalidPin"
| "exception_for USBIO_BAD_MODE = InvalidMode"
| "exception_for USBIO_UNSUPPORTED = NotSupported"
| "exception_for USBIO_BAD_VALUE = InvalidValue"
| "exception_for USBIO_QUEUE_FULL = QueueFull"
| "exception_for USBIO_BUSY = DeviceBusy"
| "exception_for USBIO_BAD_CMD = ProtocolError"
| "exception_for USBIO_OK = StallError"

lemma status_error_eq: "e \<noteq> USBIO_OK \<Longrightarrow> status_error (status_code e) = exception_for e"
  unfolding status_error_def status_of_code by (cases e) simp_all

lemma refusals_not_ok: "first_error (refusals b req v i s) \<noteq> Some USBIO_OK"
  by (cases req) (simp_all add: range_refusal_def queue_refusal_def streaming_refusal_def Let_def)

lemma out_error_not_ok: "out_error b code v i len s \<noteq> Some USBIO_OK"
  using refusals_not_ok by (auto simp: out_error_def split: option.split)

lemma link_get_status:
  assumes "link_ok b lt l"
  shows "raw_in (link_transport b A lt) opts USBIO_REQ_GET_STATUS 0 (replicate 4 0) l =
    (Inr (4, status_reply_bytes (queue_pending (link_fw (advance b A l)))
        (fw_last_error (link_fw (advance b A l)))),
     (advance b A l)\<lparr>link_fw := (link_fw (advance b A l))\<lparr>fw_last_error := USBIO_OK\<rparr>\<rparr>)"
proof -
  let ?l = "advance b A l" and ?s = "link_fw (advance b A l)"
  have "in_reply b A USBIO_REQ_GET_STATUS 0 (of_nat (length (replicate 4 (0 :: u8)))) ?s
      (link_world ?l) = (Some (status_reply_bytes (queue_pending ?s) (fw_last_error ?s)),
      ?s\<lparr>fw_last_error := USBIO_OK\<rparr>, link_world ?l)"
    by (simp add: in_reply_def)
  from link_raw_in [OF assms _ _ this, of opts] show ?thesis
    by (simp add: fits_def memcpy_all)
qed

lemma status_reply_error [simp]:
  "read_u8 (status_reply_bytes pending e) 2 = status_code e"
  "read_u8 (status_reply_bytes pending e) 1 = pending"
  "read_u8 (status_reply_bytes pending e) 0 = status_code USBIO_OK"
  by (simp_all add: status_reply_bytes_def read_u8_def)

lemma link_explain_stall:
  assumes "link_ok b lt l" and "fw_last_error (link_fw l) = e"
  shows "explain_stall (link_transport b A lt) opts l =
    (Inl (if e = USBIO_OK then StallError else status_error (status_code e)),
     (advance b A l)\<lparr>link_fw := (link_fw (advance b A l))\<lparr>fw_last_error := USBIO_OK\<rparr>\<rparr>)"
proof -
  have "fw_last_error (link_fw (advance b A l)) = e"
    using advance_ok(2) [OF assms(1), of A] assms(2) by (simp add: loop_keeps_def)
  then show ?thesis
    by (simp add: explain_stall_def link_get_status [OF assms(1)] io_bind_def throw_def Let_def
        status_code_eq_iff [of e USBIO_OK, simplified] del: status_code.simps)
qed

lemma link_send_out:
  fixes A :: "'h arduino"
  assumes "link_ok b lt l" and "fits lt index"
  defines "l1 \<equiv> advance b A l"
  shows "send_out (link_transport b A lt) opts req val index l =
    (case out_error b (request_code req) val index 0 (link_fw l1) of
       None \<Rightarrow> (Inr (), l1\<lparr>link_fw := snd (handle_out b (request_code req) val index 0 (link_fw l1))\<rparr>)
     | Some e \<Rightarrow> (let l2 = advance b A (l1\<lparr>link_fw := (link_fw l1)\<lparr>fw_last_error := e\<rparr>\<rparr>) in
         (Inl (exception_for e), l2\<lparr>link_fw := (link_fw l2)\<lparr>fw_last_error := USBIO_OK\<rparr>\<rparr>)))"
proof -
  let ?s = "link_fw l1"
  have ok: "link_ok b lt l1"
    unfolding l1_def by (rule advance_ok [OF assms(1)])
  obtain accepted s1 where ho: "handle_out b (request_code req) val index 0 ?s = (accepted, s1)"
    by (metis prod.exhaust)
  have "distinct (stream_channels ?s)"
    using ok by (simp add: link_ok_def fw_inv_def stream_inv_def)
  note verdict = handle_out_spec [OF this, of b "request_code req" val index 0]
  note out = link_out [OF assms(1,2) ho [unfolded l1_def], folded l1_def]
  show ?thesis
  proof (cases "out_error b (request_code req) val index 0 ?s")
    case None
    then have "accepted"
      using verdict ho by simp
    then show ?thesis
      using None ho by (simp add: send_out_def io_catch_def out)
  next
    case (Some e)
    then have r: "\<not> accepted" "s1 = ?s\<lparr>fw_last_error := e\<rparr>"
      using verdict ho by simp_all
    have e: "e \<noteq> USBIO_OK"
      using Some out_error_not_ok by metis
    have "link_ok b lt (l1\<lparr>link_fw := s1\<rparr>)"
      using ok by (simp add: link_ok_def r(2))
    from link_explain_stall [OF this, of e A opts] show ?thesis
      using Some e r by (simp add: send_out_def io_catch_def out status_error_eq Let_def)
  qed
qed

text \<open>C27. What the host gets from an OUT request is the firmware's verdict at the moment the request
  arrives: nothing when it is accepted, and otherwise the exception for the first refusal that
  applies, read back through GET_STATUS even while \<open>loop()\<close> runs in between; the last-error
  register is then clear again.\<close>

theorem refusals_become_exceptions:
  assumes "link_ok b lt l" and "fits lt index"
  shows "fst (send_out (link_transport b A lt) opts req val index l) =
      (case first_error (refusals b req val index (link_fw (advance b A l))) of
         None \<Rightarrow> Inr () | Some e \<Rightarrow> Inl (exception_for e)) \<and>
    (first_error (refusals b req val index (link_fw (advance b A l))) \<noteq> None \<longrightarrow>
      fw_last_error (link_fw (snd (send_out (link_transport b A lt) opts req val index l))) = USBIO_OK)"
  using link_send_out [OF assms, of A opts req val]
  by (auto simp: out_error_def Let_def split: option.split)

text \<open>Writing to a pin that is still disabled.\<close>

theorem refusals_witness:
  "fst (send_out bench_transport default_options USBIO_REQ_DIO_WRITE 1 3 (bench_link started [0, 5])) =
     Inl InvalidMode"
proof -
  have "first_error (refusals bench_board USBIO_REQ_DIO_WRITE 1 3 (fst started)) = Some USBIO_BAD_MODE"
    by code_simp
  then show ?thesis
    using refusals_become_exceptions [OF started_link, of 3 bench_arduino default_options
        USBIO_REQ_DIO_WRITE 1 "[0, 5]"] by (simp add: fits_def)
qed

section \<open>Operations that drive a pin\<close>

text \<open>The driver's copy of the device's tables, as \<open>connecting_mirrors_the_device\<close> leaves it.\<close>

definition mirrors :: "board \<Rightarrow> fw \<Rightarrow> device \<Rightarrow> bool" where
  "mirrors b s d \<longleftrightarrow> dev_info d = device_info b s \<and>
     dev_caps d = map (fw_caps s) (pins_below (fw_n_pins s)) \<and> \<not> dev_streaming d"

text \<open>\<open>begin()\<close> reports INPUT_PULLDOWN exactly on a board that has it.\<close>

definition pulldown_reported :: "board \<Rightarrow> fw \<Rightarrow> bool" where
  "pulldown_reported b s \<longleftrightarrow> (fw_flags s AND USBIO_FLAG_PULLDOWN \<noteq> 0 \<longleftrightarrow> HasPulldown b)"

lemma mirrors_board: "mirrors b s d \<Longrightarrow> same_board s s' \<Longrightarrow> mirrors b s' d"
  using same_info [of s s' b] by (simp add: mirrors_def same_board_def)

lemma mirrors_caps:
  assumes "mirrors b s d"
  shows "pin_caps d pin = (if fw_n_pins s \<le> pin then Inl InvalidPin else Inr (fw_caps s pin))"
  using assms by (auto simp: pin_caps_def mirrors_def pins_below_def word_le_nat_alt)

lemma mirrors_require:
  assumes "mirrors b s d"
  shows "require_caps d pin req =
    (if fw_n_pins s \<le> pin then Inl InvalidPin
     else if has (fw_caps s pin) req then Inr (fw_caps s pin) else Inl NotSupported)"
  by (simp add: require_caps_def mirrors_caps [OF assms])

lemma mirrors_idle: "mirrors b s d \<Longrightarrow> check_not_streaming d = ret ()"
  by (simp add: mirrors_def check_not_streaming_def require_def)

lemma io_bind_lift: "io_bind (lift_result r) f w = (case r of Inl e \<Rightarrow> (Inl e, w) | Inr x \<Rightarrow> f x w)"
  by (simp add: io_bind_def lift_result_def split: sum.split)

lemma device_facts:
  "info_pwm_bits (device_info b s) = PwmBits b" "info_flags (device_info b s) = fw_flags s"
  "info_n_pins (device_info b s) = fw_n_pins s" "info_n_ain (device_info b s) = fw_n_ain s"
  "info_dac_bits (device_info b s) = DacBits b"
  by (simp_all add: device_info_def)

lemma pin_index:
  "unat (n :: u8) \<le> unat p \<longleftrightarrow> n \<le> p" "ucast (ucast p :: u16) = (p :: u8)"
  by (simp_all add: word_le_nat_alt word_unat_eq_iff unat_ucast_u16_u8)

definition bench_driver :: "fw \<times> bench \<Rightarrow> device" where
  "bench_driver c = \<lparr>dev_options = default_options, dev_info = device_info bench_board (fst c),
     dev_caps = map (fw_caps (fst c)) (pins_below (fw_n_pins (fst c))),
     dev_analog_pins = ain_pins (fst c), dev_streaming = False, dev_selected = []\<rparr>"

lemma bench_driver_mirrors: "mirrors bench_board (fst c) (bench_driver c)"
  by (simp add: mirrors_def bench_driver_def)

lemma driven_pin_verdicts:
  assumes "link_ok b lt l" and "mirrors b (link_fw l) d" and "pulldown_reported b (link_fw l)"
  shows "fst (pin_mode (link_transport b A lt) d pin mode l) =
      (if fw_n_pins (link_fw l) \<le> pin then Inl InvalidPin
       else if mode_of mode = None then Inl InvalidMode
       else if \<not> mode_allowed b (fw_caps (link_fw l) pin) (the (mode_of mode)) then Inl NotSupported
       else if 32 \<le> length (commands (link_fw (advance b A l))) then Inl QueueFull else Inr ()) \<and>
    fst (digital_write (link_transport b A lt) d pin high l) =
      (if fw_n_pins (link_fw l) \<le> pin then Inl InvalidPin
       else if fw_caps (link_fw l) pin AND USBIO_CAP_DIO = 0 then Inl NotSupported
       else if fw_mode (link_fw l) pin \<noteq> Some USBIO_MODE_OUTPUT then Inl InvalidMode
       else if 32 \<le> length (commands (link_fw (advance b A l))) then Inl QueueFull else Inr ()) \<and>
    fst (pwm_write (link_transport b A lt) d pin duty l) =
      (if fw_n_pins (link_fw l) \<le> pin then Inl InvalidPin
       else if fw_caps (link_fw l) pin AND USBIO_CAP_PWM = 0 then Inl NotSupported
       else if full_scale (PwmBits b) < duty then Inl InvalidValue
       else if fw_mode (link_fw l) pin \<noteq> Some USBIO_MODE_PWM then Inl InvalidMode
       else if 32 \<le> length (commands (link_fw (advance b A l))) then Inl QueueFull else Inr ())"
proof (intro conjI)
  let ?T = "link_transport b A lt" and ?s = "link_fw l" and ?s1 = "link_fw (advance b A l)"
  have keeps: "loop_keeps ?s ?s1"
    by (rule advance_ok [OF assms(1)])
  have k: "fw_n_pins ?s1 = fw_n_pins ?s" "fw_caps ?s1 = fw_caps ?s" "fw_mode ?s1 = fw_mode ?s"
    using keeps by (simp_all add: loop_keeps_def same_board_def)
  have sent: "fst (send_out ?T opts req v (ucast pin) l) =
      (case first_error (refusals b req v (ucast pin) ?s1) of
         None \<Rightarrow> Inr () | Some e \<Rightarrow> Inl (exception_for e))" for opts req v
    using link_send_out [OF assms(1) fits_pin, of A opts req v]
    by (auto simp: out_error_def Let_def split: option.split)
  note local_checks = io_bind_lift mirrors_idle [OF assms(2)] mirrors_caps [OF assms(2)]
    mirrors_require [OF assms(2)] has_caps throw_def sent k pin_index range_refusal_def queue_refusal_def
  have info: "dev_info d = device_info b ?s"
    using assms(2) by (simp add: mirrors_def)
  have counted: "ucast USBIO_MODE_COUNT \<le> mode \<longleftrightarrow> mode_of mode = None"
    by (simp add: USBIO_MODE_COUNT_def mode_of_None_iff)
  have pull: "supports_pulldown (dev_info d) = HasPulldown b"
    using assms(3) by (simp add: info supports_pulldown_def device_facts pulldown_reported_def)
  show "fst (pin_mode ?T d pin mode l) =
      (if fw_n_pins ?s \<le> pin then Inl InvalidPin
       else if mode_of mode = None then Inl InvalidMode
       else if \<not> mode_allowed b (fw_caps ?s pin) (the (mode_of mode)) then Inl NotSupported
       else if 32 \<le> length (commands ?s1) then Inl QueueFull else Inr ())"
  proof (cases "mode_of mode")
    case None
    then show ?thesis
      by (simp add: pin_mode_def local_checks counted)
  next
    case (Some m)
    then have m: "mode = mode_code m"
      by (simp add: mode_of_iff)
    have small: "\<not> 7 \<le> unat (ucast mode :: u16)"
      using mode_code_less [of m] by (simp add: m word_less_nat_alt)
    have "has (fw_caps ?s pin) (required_caps mode) \<and>
        \<not> (mode = mode_code USBIO_MODE_INPUT_PULLDOWN \<and> \<not> HasPulldown b) \<longleftrightarrow>
        mode_allowed b (fw_caps ?s pin) m"
      using mode_supported_iff [of m "fw_caps ?s pin" b]
      by (auto simp: mode_supported_def m simp del: mode_code.simps split: if_splits)
    then show ?thesis
      using Some small
      by (auto simp add: pin_mode_def local_checks counted pull)
  qed
  show "fst (digital_write ?T d pin high l) =
      (if fw_n_pins ?s \<le> pin then Inl InvalidPin
       else if fw_caps ?s pin AND USBIO_CAP_DIO = 0 then Inl NotSupported
       else if fw_mode ?s pin \<noteq> Some USBIO_MODE_OUTPUT then Inl InvalidMode
       else if 32 \<le> length (commands ?s1) then Inl QueueFull else Inr ())"
    by (simp add: digital_write_def local_checks)
  show "fst (pwm_write ?T d pin duty l) =
      (if fw_n_pins ?s \<le> pin then Inl InvalidPin
       else if fw_caps ?s pin AND USBIO_CAP_PWM = 0 then Inl NotSupported
       else if full_scale (PwmBits b) < duty then Inl InvalidValue
       else if fw_mode ?s pin \<noteq> Some USBIO_MODE_PWM then Inl InvalidMode
       else if 32 \<le> length (commands ?s1) then Inl QueueFull else Inr ())"
    by (simp add: pwm_write_def local_checks info device_facts max_value_full_scale)
qed

text \<open>The driver's local checks leave only the reasons that depend on the device's state: an
  operation that drives a pin fails on the pin number, the capability and the value exactly as
  the device's tables say, and past these checks the request is refused only for the pin's
  current mode or a full command queue.\<close>

theorem checked_requests_meet_only_device_state:
  assumes "link_ok b lt l" and "mirrors b (link_fw l) d" and "pulldown_reported b (link_fw l)"
  shows "fst (pin_mode (link_transport b A lt) d pin mode l) =
      (if fw_n_pins (link_fw l) \<le> pin then Inl InvalidPin
       else if mode_of mode = None then Inl InvalidMode
       else if \<not> mode_allowed b (fw_caps (link_fw l) pin) (the (mode_of mode)) then Inl NotSupported
       else if 32 \<le> length (commands (link_fw (advance b A l))) then Inl QueueFull else Inr ()) \<and>
    fst (digital_write (link_transport b A lt) d pin high l) =
      (if fw_n_pins (link_fw l) \<le> pin then Inl InvalidPin
       else if fw_caps (link_fw l) pin AND USBIO_CAP_DIO = 0 then Inl NotSupported
       else if fw_mode (link_fw l) pin \<noteq> Some USBIO_MODE_OUTPUT then Inl InvalidMode
       else if 32 \<le> length (commands (link_fw (advance b A l))) then Inl QueueFull else Inr ()) \<and>
    fst (pwm_write (link_transport b A lt) d pin duty l) =
      (if fw_n_pins (link_fw l) \<le> pin then Inl InvalidPin
       else if fw_caps (link_fw l) pin AND USBIO_CAP_PWM = 0 then Inl NotSupported
       else if full_scale (PwmBits b) < duty then Inl InvalidValue
       else if fw_mode (link_fw l) pin \<noteq> Some USBIO_MODE_PWM then Inl InvalidMode
       else if 32 \<le> length (commands (link_fw (advance b A l))) then Inl QueueFull else Inr ())"
  by (rule driven_pin_verdicts [OF assms])

theorem checked_requests_witness:
  "fst (digital_write bench_transport (bench_driver output_run) 200 True (bench_link output_run [0])) =
     Inl InvalidPin"
proof -
  have "fw_n_pins (fst output_run) \<le> 200"
    by code_simp
  then show ?thesis
    using checked_requests_meet_only_device_state [OF output_link [of "[0]"], of "bench_driver output_run"
        bench_arduino 200 0 True 0] output_facts(2)
    by (simp add: bench_driver_mirrors pulldown_reported_def)
qed

end
