(* ===== verification/HostReadback.thy ===== *)
theory HostReadback
  imports HostGuarantees
begin

text \<open>
  A value written through the host library and read back through it: the write sits in the command
  queue of the device until \<open>loop()\<close> runs, and the read is refused as BUSY and retried meanwhile.
\<close>

section \<open>Writing and reading back\<close>

lemma not_busy_iff: "\<not> busy s \<longleftrightarrow> commands s = [] \<and> fw_reset_done s = fw_reset_requests s"
  using ring32.length_contents [of "fw_queue s"]
  by (auto simp: busy_def queue_pending_def unat_eq_zero)

lemma poll_loop_idle: "\<not> busy s \<Longrightarrow> fst (poll_loop b A s h) = empty_queue s"
  by (simp add: not_busy_iff poll_loop_eq reset_loop_eq drain_loop_eq live_commands_def
      run_commands_def)

text \<open>
  An output pin whose level is, or after the next \<open>poll()\<close> will be, \<open>v\<close>: it is already there
  unless work is pending.
\<close>

definition level_set :: "board \<Rightarrow> 'h arduino \<Rightarrow> u8 \<Rightarrow> u8 \<Rightarrow> fw \<Rightarrow> bool" where
  "level_set b A p v s \<longleftrightarrow> p < fw_n_pins s \<and> fw_mode s p = Some USBIO_MODE_OUTPUT \<and>
     (\<not> busy s \<longrightarrow> fw_dio s p = v) \<and> (\<forall>h. fw_dio (fst (poll b A s h)) p = v)"

lemma level_set_poll:
  assumes "level_set b A p v s"
  shows "level_set b A p v (fst (poll b A s h))"
proof -
  let ?t = "fst (poll b A s h)"
  have mode: "fw_mode ?t p = Some USBIO_MODE_OUTPUT" and v: "fw_dio ?t p = v"
    using assms by (simp_all add: level_set_def poll_fields)
  have "fw_dio (fst (poll b A ?t h')) p = v" for h'
    using poll_driven_level [of ?t p b A h'] poll_loop_idle [OF poll_not_busy, of b A b A s h h'] mode v
    by (simp add: mode_is_input_def empty_queue_def)
  then show ?thesis
    using assms mode v by (simp add: level_set_def poll_fields)
qed

lemma level_set_steps:
  assumes "level_set b A p v s" and "(loop_step b A ^^ n) (s, h) = (s', h')"
  shows "level_set b A p v s' \<and> (0 < n \<or> \<not> busy s \<longrightarrow> \<not> busy s')"
  using assms(2)
proof (induction n arbitrary: s' h')
  case 0
  then show ?case
    using assms(1) by simp
next
  case (Suc n)
  obtain s1 h1 where 1: "(loop_step b A ^^ n) (s, h) = (s1, h1)"
    by (metis prod.exhaust)
  have "loop_step b A (s1, h1) = (s', h')"
    using Suc.prems 1 by simp
  then have "s' = fst (poll b A s1 h1)"
    by (simp add: loop_step_def)
  then show ?case
    using Suc.IH [OF 1] level_set_poll [of b A p v s1 h1] poll_not_busy [of b A s1 h1] by simp
qed

lemma level_set_advance:
  assumes "level_set b A p v (link_fw l)"
  shows "level_set b A p v (link_fw (advance b A l))"
    and "\<not> busy (link_fw l) \<Longrightarrow> \<not> busy (link_fw (advance b A l))"
    and "link_sched l = n # ns \<Longrightarrow> 0 < n \<Longrightarrow> \<not> busy (link_fw (advance b A l))"
  using level_set_steps [OF assms]
  by (auto simp: advance_def assms split: list.split prod.split)

lemma pin_in_range: "(ucast (n :: u8) :: u16) \<le> ucast p \<longleftrightarrow> n \<le> p"
  by (simp add: word_le_nat_alt)

text \<open>One read of an output pin: its level, or BUSY while work is pending.\<close>

lemma link_read_level:
  assumes "link_ok b lt l" and "level_set b A p v (link_fw l)" and "length reply = 2"
  shows "read_attempt (link_transport b A lt) opts USBIO_REQ_DIO_READ (ucast p) 2 again reply l =
    (if busy (link_fw (advance b A l)) then again [status_code USBIO_BUSY, 0] (advance b A l)
     else (Inr (2, [status_code USBIO_OK, v]), advance b A l))"
proof -
  let ?l = "advance b A l" and ?s = "link_fw (advance b A l)"
  have set: "level_set b A p v ?s"
    by (rule level_set_advance [OF assms(2)])
  then have full: "reply_dio_read (ucast p) ?s =
      (if busy ?s then [status_code USBIO_BUSY, 0] else [status_code USBIO_OK, v])"
    by (auto simp: level_set_def reply_dio_read_def mode_is_digital_def dio_reply_bytes_def
        pin_in_range pin_index(2) simp del: status_code.simps)
  have "in_reply b A USBIO_REQ_DIO_READ (ucast p) (of_nat (length reply)) ?s (link_world ?l) =
      (Some (reply_dio_read (ucast p) ?s), ?s, link_world ?l)"
    by (simp add: in_reply_def)
  from link_raw_in [OF assms(1) fits_pin _ this, of opts]
  show ?thesis
    using assms(3) full
    by (simp add: read_attempt_def io_bind_def memcpy_all ret_def read_u8_def Let_def)
qed

text \<open>An accepted DIO_WRITE leaves its command last in the queue.\<close>

lemma accepted_write_sets_level:
  assumes "handle_out b (request_code USBIO_REQ_DIO_WRITE) val (ucast p) 0 s = (True, s1)"
  shows "level_set b A p (if val \<noteq> 0 then 1 else 0) s1"
proof -
  let ?v = "(if val \<noteq> 0 then 1 else 0) :: u16"
  have req: "request_of 4 = Some USBIO_REQ_DIO_WRITE"
    using request_of_code [of USBIO_REQ_DIO_WRITE] by simp
  have p: "p < fw_n_pins s" and mode: "fw_mode s p = Some USBIO_MODE_OUTPUT"
    and ok: "fst (enqueue USBIO_REQ_DIO_WRITE p ?v s)"
    and s1: "s1 = snd (enqueue USBIO_REQ_DIO_WRITE p ?v s)"
    using assms by (auto simp: req handle_out_def handle_pin_request_def stall_def
        enqueue_or_stall_def case_prod_beta pin_in_range pin_index(2) not_le split: if_splits)
  have "fw_dio (fst (poll b A s1 h)) p = (if val \<noteq> 0 then 1 else 0)" for h
    using last_command_level [OF ok, of b A h] poll_driven_level [of s1 p b A h] mode
    by (cases "val = 0") (simp_all add: s1 mode_is_input_def)
  moreover have "busy s1"
    using enqueue_commands [OF ok] not_busy_iff [of s1] by (auto simp: s1)
  ultimately show ?thesis
    using p mode by (simp add: level_set_def s1)
qed

text \<open>The read waits for the write: it is retried while the device is busy.\<close>

lemma read_settles:
  assumes l: "link_ok b lt l" and set: "level_set b A p v (link_fw l)"
    and sched: "link_sched l = n1 # n2 # n3 # ns" "0 < n1 + n2 + n3" and delay: "0 < delay"
    and opts: "busy_delay opts = delay" and reply: "length reply = 2"
  shows "fst (read_retry (link_transport b A lt) opts USBIO_REQ_DIO_READ (ucast p) 2 (Suc left) reply l) =
    Inr (2, [status_code USBIO_OK, v])"
proof (cases "busy (link_fw (advance b A l))")
  case False
  then show ?thesis
    using link_read_level [OF l set reply] by simp
next
  case True
  let ?l1 = "advance b A l"
  let ?l2 = "advance b A (?l1\<lparr>link_clock := link_clock ?l1 + delay * 1000\<rparr>)"
  have ok1: "link_ok b lt (?l1\<lparr>link_clock := c\<rparr>)" for c
    using advance_ok(1) [OF l, of A] by (simp add: link_ok_def)
  have ok2: "link_ok b lt ?l2"
    by (rule advance_ok(1) [OF ok1])
  have set1: "level_set b A p v (link_fw ?l1)"
    by (rule level_set_advance(1) [OF set])
  then have set2: "level_set b A p v (link_fw ?l2)"
    by (intro level_set_advance(1)) simp
  have "n1 = 0"
    using True level_set_advance(3) [OF set sched(1)] by blast
  then have later: "0 < n2 \<or> 0 < n3"
    using sched(2) by simp
  have settled: "\<not> busy (link_fw (advance b A ?l2))"
  proof (cases "0 < n2")
    case True
    have "\<not> busy (link_fw ?l2)"
      by (rule level_set_advance(3) [of b A p v _ n2 "n3 # ns"]) (use set1 True sched in simp_all)
    then show ?thesis
      by (rule level_set_advance(2) [OF set2])
  next
    case False
    then show ?thesis
      using later sched by (intro level_set_advance(3) [OF set2, of n3 ns]) simp_all
  qed
  have second: "read_retry (link_transport b A lt) opts USBIO_REQ_DIO_READ (ucast p) 2 left
      [status_code USBIO_BUSY, 0] ?l2 = (Inr (2, [status_code USBIO_OK, v]), advance b A ?l2)"
    using link_read_level [OF ok2 set2, of "[status_code USBIO_BUSY, 0]"] settled
    by (cases left) simp_all
  have "pause (link_transport b A lt) delay ?l1 = (Inr (), ?l2)"
    using delay by (simp add: pause_def link_transport_def libusb_transport_def link_usb_def link_sleep_def)
  then show ?thesis
    using link_read_level [OF l set reply] True second opts by (simp add: io_bind_def)
qed

text \<open>C29. A level the host has written is the level it reads back, provided \<open>loop()\<close> runs at
  least once before the read, during the driver's pause, or before its second attempt: while the
  write is pending the read is answered BUSY and retried, so it waits for the write.\<close>

theorem written_level_reaches_the_reader:
  assumes "link_ok b lt l" and "mirrors b (link_fw l) d"
    and "digital_write (link_transport b A lt) d pin high l = (Inr (), l1)"
    and "link_sched l1 = n1 # n2 # n3 # ns" and "0 < n1 + n2 + n3"
    and "2 \<le> busy_max_attempts (dev_options d)" and "0 < busy_delay (dev_options d)"
  shows "fst (digital_read (link_transport b A lt) d pin l1) = Inr high"
proof -
  let ?s = "link_fw (advance b A l)" and ?v = "(if high then 1 else 0) :: u16"
  have local_ok: "check_not_streaming d = ret ()" "require_caps d pin USBIO_CAP_DIO = Inr (fw_caps (link_fw l) pin)"
    and sent: "send_out (link_transport b A lt) (dev_options d) USBIO_REQ_DIO_WRITE ?v (ucast pin) l = (Inr (), l1)"
    using assms(3) by (auto simp: digital_write_def io_bind_lift mirrors_idle [OF assms(2)]
        mirrors_require [OF assms(2)] throw_def split: if_splits)
  have l1: "link_ok b lt l1"
    using io_keepsD [OF link.send_out_keeps assms(1), of A "dev_options d" USBIO_REQ_DIO_WRITE ?v "ucast pin"] sent
    by simp
  have "distinct (stream_channels ?s)"
    using advance_ok(1) [OF assms(1), of A] by (simp add: link_ok_def fw_inv_def stream_inv_def)
  from handle_out_spec [OF this, of b "request_code USBIO_REQ_DIO_WRITE" ?v "ucast pin" 0]
  have "handle_out b (request_code USBIO_REQ_DIO_WRITE) ?v (ucast pin) 0 ?s = (True, link_fw l1)"
    using link_send_out [OF assms(1) fits_pin, of A "dev_options d" USBIO_REQ_DIO_WRITE ?v pin]
    unfolding sent
    by (cases "handle_out b (request_code USBIO_REQ_DIO_WRITE) ?v (ucast pin) 0 ?s")
      (auto simp: Let_def split: option.splits)
  from accepted_write_sets_level [OF this]
  have set: "level_set b A pin (if high then 1 else 0) (link_fw l1)"
    by (cases high) simp_all
  have left: "max 1 (busy_max_attempts (dev_options d)) - 1 = Suc (busy_max_attempts (dev_options d) - 2)"
    using assms(6) by simp
  obtain l2 where "read_in (link_transport b A lt) (dev_options d) USBIO_REQ_DIO_READ (ucast pin)
      (replicate 2 0) 2 l1 = (Inr (2, [status_code USBIO_OK, if high then 1 else 0]), l2)"
    using read_settles [OF l1 set assms(4,5,7) refl, of "replicate 2 0"]
    unfolding read_in_def left by (metis length_replicate prod.exhaust_sel)
  then show ?thesis
    by (simp add: digital_read_def io_bind_lift local_ok) (simp add: io_bind_def ret_def read_u8_def)
qed

theorem written_level_reaches_witness:
  "fst (digital_read bench_transport (bench_driver output_run) 3
     (snd (digital_write bench_transport (bench_driver output_run) 3 True
        (bench_link output_run [0, 0, 0, 1])))) = Inr True"
proof -
  let ?d = "bench_driver output_run" and ?l = "bench_link output_run [0, 0, 0, 1]"
  let ?r = "digital_write bench_transport ?d 3 True ?l"
  have "?r = send_out bench_transport (dev_options ?d) USBIO_REQ_DIO_WRITE 1 3 ?l"
    using bench_driver_mirrors [of output_run] output_facts(3,4)
    by (simp add: digital_write_def io_bind_lift mirrors_idle mirrors_require has_caps)
  also have "\<dots> = (Inr (), (bench_link output_run [0, 0, 1])\<lparr>link_fw :=
      snd (handle_out bench_board 4 1 3 0 (fst output_run))\<rparr>)"
    using link_send_out [OF output_link, of 3 bench_arduino "dev_options ?d" USBIO_REQ_DIO_WRITE 1
        "[0, 0, 0, 1]"] output_facts(5)
    by (simp add: fits_def)
  finally have r: "fst ?r = Inr ()" "link_sched (snd ?r) = [0, 0, 1]"
    by simp_all
  have "2 \<le> busy_max_attempts (dev_options ?d)" "0 < busy_delay (dev_options ?d)"
    by (simp_all add: bench_driver_def default_options_def)
  then show ?thesis
    using written_level_reaches_the_reader [OF output_link, of "[0, 0, 0, 1]" ?d bench_arduino 3 True
       "snd ?r" 0 0 1 "[]"]
       bench_driver_mirrors [of output_run] r by (simp add: prod_eq_iff)
qed

end
