(* ===== verification/HostEvents.thy ===== *)
theory HostEvents
  imports HostGuarantees
begin

text \<open>
  Reading the event queue of the device through the host library: \<open>poll_events\<close> pops batch after
  batch until the device reports none left, while the sketch may be queueing more.
\<close>

lemma padded:
  "length bs \<le> n \<Longrightarrow> memcpy_at 0 bs (replicate n x) = bs @ replicate (n - length bs) x"
  by (simp add: memcpy_at_def)

lemma decode_popped_padded:
  "map (decode_event (fst (reply_event_pop i s) @ rest)) [0..<length (popped i s)] = popped i s"
  by (rule nth_equalityI)
    (use decode_event_entry [where rest = rest] in \<open>auto simp: event_pop_reply\<close>)

lemma popped_length: "length (popped i s) \<le> 7"
  using pop_cap_bounds [of i] by (simp add: popped_def min_le_iff_disj)

lemma live_events_bound: "fw_inv b s \<Longrightarrow> length (live_events s) \<le> 32"
proof -
  assume "fw_inv b s"
  then have "length (queued_events s) \<le> 32"
    by (intro event_fifo.bounded) (simp add: fw_inv_def event_inv_def)
  then show ?thesis
    unfolding live_events_def by (rule le_trans [OF length_filter_le])
qed

text \<open>A reply whose status is OK ends \<open>read_in\<close> at its first attempt.\<close>

lemma read_in_first:
  assumes "raw_in T opts req index reply w = (Inr (n, reply1), w1)"
    and "read_u8 reply1 0 = status_code USBIO_OK" and "0 < n" and "min_len \<le> n"
  shows "read_in T opts req index reply min_len w = (Inr (n, reply1), w1)"
proof -
  have "read_attempt T opts req index min_len again reply w = (Inr (n, reply1), w1)" for again
    using assms by (simp add: read_attempt_def io_bind_def ret_def)
  then show ?thesis
    unfolding read_in_def by (cases "max 1 (busy_max_attempts opts) - 1") (simp_all only: read_retry.simps)
qed

text \<open>One EVENT_POP over the link.\<close>

lemma link_pop:
  fixes A :: "'h arduino"
  assumes "link_ok b lt l"
  defines "l1 \<equiv> advance b A l"
  defines "l2 \<equiv> l1\<lparr>link_fw := snd (reply_event_pop 0 (link_fw l1))\<rparr>"
  shows "pop_events_once (link_transport b A lt) d 0 l =
      (Inr (popped 0 (link_fw l1), fw_dropped (link_fw l1),
         length (live_events (link_fw l1)) > length (popped 0 (link_fw l1))), l2)"
    and "link_ok b lt l2"
proof -
  let ?s = "link_fw l1" and ?T = "link_transport b A lt"
  let ?full = "fst (reply_event_pop 0 ?s)" and ?buf = "replicate 60 (0 :: u8)"
  have l1: "link_ok b lt l1"
    unfolding l1_def by (rule advance_ok(1) [OF assms(1)])
  have len: "length ?full \<le> 60"
    using popped_length [of 0 ?s] by (simp add: length_reply_event_pop)
  have "in_reply b A USBIO_REQ_EVENT_POP 0 (of_nat (length ?buf)) ?s (link_world l1) =
      (Some ?full, snd (reply_event_pop 0 ?s), link_world l1)"
    by (simp add: in_reply_def case_prod_beta)
  from link_raw_in [OF assms(1) _ _ this [unfolded l1_def], of "dev_options d"]
  have raw: "raw_in ?T (dev_options d) USBIO_REQ_EVENT_POP 0 ?buf l =
      (Inr (length ?full, ?full @ replicate (60 - length ?full) 0), l2)"
    using len by (simp add: fits_def padded l1_def l2_def)
  show "link_ok b lt l2"
    using io_keepsD [OF link.raw_in_keeps assms(1), of ?buf A "dev_options d" USBIO_REQ_EVENT_POP 0] raw
    by simp
  have live: "length (live_events ?s) \<le> 32"
    using l1 by (auto simp: link_ok_def intro: live_events_bound)
  show "pop_events_once ?T d 0 l =
      (Inr (popped 0 ?s, fw_dropped ?s, length (live_events ?s) > length (popped 0 ?s)), l2)"
  proof -
    let ?reply = "?full @ replicate (60 - length ?full) 0"
    let ?h = "\<lparr>eh_status = 0, eh_count = of_nat (length (popped 0 ?s)), eh_dropped = fw_dropped ?s,
      eh_pending = of_nat (length (live_events ?s) - length (popped 0 ?s))\<rparr> :: usbio_event_header"
    have header: "?reply = event_header_bytes ?h @ concat (map event_bytes (popped 0 ?s)) @
        replicate (60 - length ?full) 0"
      by (simp add: event_pop_reply)
    have "read_u8 ?reply 0 = status_code USBIO_OK"
      unfolding header by (simp add: event_header_bytes_def read_u8_def)
    then have "read_in ?T (dev_options d) USBIO_REQ_EVENT_POP 0 ?buf 4 l = (Inr (length ?full, ?reply), l2)"
      by (intro read_in_first [OF raw]) (simp_all add: length_reply_event_pop)
    moreover have "decode_event_header ?reply = Inr ?h"
      unfolding header by (rule decode_event_header_bytes)
    moreover have "unat (of_nat (length (popped 0 ?s)) :: u8) = length (popped 0 ?s)"
      using popped_length [of 0 ?s] by (simp add: unat_of_nat take_bit_eq_mod)
    moreover have "(of_nat (length (live_events ?s) - length (popped 0 ?s)) :: u8) \<noteq> 0 \<longleftrightarrow>
        length (live_events ?s) > length (popped 0 ?s)"
      using live by (simp add: word_unat_eq_iff unat_of_nat take_bit_eq_mod not_le)
    ultimately show ?thesis
      using decode_popped_padded [of 0 ?s "replicate (60 - length ?full) 0"]
      by (simp add: pop_events_once_def event_pop_len_def io_bind_def lift_result_def ret_def
          length_reply_event_pop)
  qed
qed


text \<open>
  The loop of \<open>poll_events\<close> ends: each pop uses up an entry of the schedule, or takes a full batch
  of a queue that nothing refills.
\<close>

lemma drain_ends:
  assumes "link_ok b lt l"
  shows "\<exists>es lost' l'. drain_events (link_transport b A lt) d so_far lost l =
      Some (Inr (so_far @ es, lost'), l') \<and> live_events (link_fw l') = [] \<and>
      (link_sched l = [] \<longrightarrow> es = live_events (link_fw l) \<and>
         lost' = min 255 (lost + unat (fw_dropped (link_fw l))))"
  using assms
proof (induction "33 * length (link_sched l) + length (live_events (link_fw l))"
    arbitrary: l so_far lost rule: less_induct)
  case less
  let ?l1 = "advance b A l" and ?s = "link_fw (advance b A l)"
  let ?l2 = "?l1\<lparr>link_fw := snd (reply_event_pop 0 ?s)\<rparr>"
  let ?lost = "min 255 (lost + unat (fw_dropped ?s))"
  note pop = link_pop(1) [OF less.prems, of A d] link_pop(2) [OF less.prems, of A]
  have live2: "live_events (snd (reply_event_pop 0 ?s)) = drop 7 (live_events ?s)"
    and popped: "popped 0 ?s = take 7 (live_events ?s)"
    by (simp_all add: event_pop_events popped_def pop_cap_def)
  have dropped2: "fw_dropped (snd (reply_event_pop 0 ?s)) = 0"
    using arg_cong [OF event_pop_frame [of 0 ?s], of fw_dropped] by simp
  have idle: "link_sched l = [] \<Longrightarrow> ?l1 = l"
    by (simp add: advance_def)
  show ?case
  proof (cases "7 < length (live_events ?s)")
    case False
    then show ?thesis
      by (subst drain_events.simps) (auto simp: pop(1) live2 popped idle)
  next
    case True
    have "length (live_events ?s) \<le> 32"
      using advance_ok(1) [OF less.prems, of A] by (auto simp: link_ok_def intro: live_events_bound)
    then have "33 * length (link_sched ?l2) + length (live_events (link_fw ?l2))
        < 33 * length (link_sched l) + length (live_events (link_fw l))"
      using True idle arg_cong [OF live2, of length] by (cases "link_sched l") simp_all
    from less.hyps [OF this pop(2), of "so_far @ popped 0 ?s" ?lost]
    obtain es lost' l' where rest: "drain_events (link_transport b A lt) d (so_far @ popped 0 ?s) ?lost ?l2 =
        Some (Inr ((so_far @ popped 0 ?s) @ es, lost'), l')" "live_events (link_fw l') = []"
      "tl (link_sched l) = [] \<Longrightarrow> es = drop 7 (live_events ?s) \<and> lost' = ?lost"
      by (auto simp: live2 dropped2)
    have "drain_events (link_transport b A lt) d so_far lost l =
        Some (Inr (so_far @ (popped 0 ?s @ es), lost'), l')"
      using True rest(1) by (subst drain_events.simps) (simp add: pop(1) popped)
    then show ?thesis
      using rest(2,3) idle by (auto simp: popped)
  qed
qed

text \<open>C30. \<open>poll_events\<close> returns whatever the sketch does meanwhile, and leaves no event in the device's
  queue; when \<open>loop()\<close> does not run meanwhile it returns the queued events in order, and the
  number of events lost to a full queue.  On a device without pin events it throws.\<close>

theorem polling_events_drains_the_queue:
  assumes "link_ok b lt l" and "mirrors b (link_fw l) d"
  shows "if fw_flags (link_fw l) AND USBIO_FLAG_EVENTS = 0
    then poll_events (link_transport b A lt) d l = Some (Inl NotSupported, l)
    else \<exists>es dropped l'. poll_events (link_transport b A lt) d l = Some (Inr (es, dropped), l') \<and>
      live_events (link_fw l') = [] \<and>
      (link_sched l = [] \<longrightarrow> es = live_events (link_fw l) \<and> dropped = fw_dropped (link_fw l))"
proof -
  obtain es lost l' where run: "drain_events (link_transport b A lt) d [] 0 l = Some (Inr (es, lost), l')"
    "live_events (link_fw l') = []"
    "link_sched l = [] \<Longrightarrow> es = live_events (link_fw l) \<and> lost = min 255 (unat (fw_dropped (link_fw l)))"
    using drain_ends [OF assms(1), of A d "[]" 0] by auto
  have "min 255 (unat (fw_dropped (link_fw l))) = unat (fw_dropped (link_fw l))"
    using unat_lt_u8 [of "fw_dropped (link_fw l)"] by (intro min_absorb2) linarith
  moreover have "events (dev_info d) \<longleftrightarrow> fw_flags (link_fw l) AND USBIO_FLAG_EVENTS \<noteq> 0"
    using assms(2) by (simp add: mirrors_def events_def device_facts)
  ultimately show ?thesis
    using run by (auto simp: poll_events_def mirrors_idle [OF assms(2)] require_events_def require_def
        io_bind_def ret_def throw_def)
qed

theorem polling_events_witness:
  "poll_events bench_transport (bench_driver started) (bench_link started []) \<noteq> None"
proof -
  have "fw_flags (fst started) AND USBIO_FLAG_EVENTS \<noteq> 0"
    by code_simp
  then show ?thesis
    using polling_events_drains_the_queue [OF started_link [of "[]"], of "bench_driver started" bench_arduino]
    by (auto simp: bench_driver_mirrors)
qed

end
