(* ===== verification/HostStream.thy ===== *)
theory HostStream
  imports HostDevice
begin

text \<open>
  The host's stream worker (\<open>extras/driver/src/Stream.cpp\<close>): the reassembly of records from the
  byte stream of the bulk endpoint, the resynchronisation on the record magic, the tests for stale
  records and lost sequence numbers, the bounded queue behind \<open>read()\<close>, and the worker's loop,
  which runs one round per bulk read.  What a round receives from outside (the bytes or the error of
  \<open>bulk_in\<close>, and the answer of the status poll when it is due) is its argument.

  \<open>Sample::volts\<close> is in \<open>HostAnalog\<close>.  The critical sections of the mutex
  are the single steps \<open>deliver\<close>, \<open>take_record\<close> and \<open>read_samples\<close>.
\<close>

section \<open>State\<close>

record Sample =
  smp_pin :: u8
  smp_raw :: u16
  smp_t_us :: u32

record StreamStats =
  device_overruns :: u32
  records_received :: u64
  seq_gaps :: u64
  host_drops :: u64
  resyncs :: u64
  stale_records :: u64

text \<open>What the constructor of \<open>Impl\<close> fixes.\<close>

record stream_env =
  se_config :: StreamConfig
  se_n_pins :: nat
  se_digital :: bool
  se_start_t_us :: u32

text \<open>
  The members the worker writes and its local variables.  \<open>wk_callbacks\<close> is the sequence of
  records handed to the \<open>on_records\<close> callback while one is set; \<open>wk_error\<close> tells that the worker
  stopped on its own.
\<close>

record worker =
  wk_buffer :: bytes
  wk_last_seq :: "u32 option"
  wk_hunting :: bool
  wk_device_stopped :: bool
  wk_ready :: "Sample list list"
  wk_stats :: StreamStats
  wk_callback_set :: bool
  wk_callbacks :: "Sample list list"
  wk_error :: bool
  wk_running :: bool

definition new_stream :: "device \<Rightarrow> StreamConfig \<Rightarrow> u32 \<Rightarrow> stream_env \<times> worker" where
  "new_stream d cfg start_us =
     (\<lparr>se_config = cfg, se_n_pins = length (dev_caps d),
       se_digital = has (cfg_flags cfg) (ucast USBIO_STREAM_FLAG_DIGITAL), se_start_t_us = start_us\<rparr>,
      \<lparr>wk_buffer = [], wk_last_seq = None, wk_hunting = False, wk_device_stopped = False,
       wk_ready = [], wk_stats = \<lparr>device_overruns = 0, records_received = 0, seq_gaps = 0,
         host_drops = 0, resyncs = 0, stale_records = 0\<rparr>,
       wk_callback_set = False, wk_callbacks = [], wk_error = False, wk_running = True\<rparr>)"

section \<open>Delivery\<close>

text \<open>\<open>while (ready.size() >= capacity)\<close> pop the oldest record and count it.\<close>

fun make_room :: "nat \<Rightarrow> 'a list \<Rightarrow> u64 \<Rightarrow> 'a list \<times> u64" where
  "make_room capacity [] drops = ([], drops)"
| "make_room capacity (x # xs) drops =
     (if length (x # xs) \<ge> capacity then make_room capacity xs (drops + 1) else (x # xs, drops))"

definition deliver :: "stream_env \<Rightarrow> Sample list \<Rightarrow> worker \<Rightarrow> worker" where
  "deliver env samples wk =
     (let wk1 = (if wk_callback_set wk
                 then wk\<lparr>wk_callbacks := wk_callbacks wk @ [samples]\<rparr> else wk)
      in case make_room (cfg_queue_capacity (se_config env)) (wk_ready wk1)
                (host_drops (wk_stats wk1)) of
        (room, drops) \<Rightarrow> wk1\<lparr>wk_ready := room @ [samples],
                              wk_stats := (wk_stats wk1)\<lparr>host_drops := drops\<rparr>\<rparr>)"

section \<open>Parsing\<close>

text \<open>The complete record at the front of \<open>head\<close>, whose decoded header is \<open>header\<close>.\<close>

definition is_stale :: "stream_env \<Rightarrow> usbio_stream_header \<Rightarrow> bool" where
  "is_stale env header \<longleftrightarrow>
     (let age = se_start_t_us env - sh_t_us header in age \<noteq> 0 \<and> age < 0x80000000)"

definition record_samples :: "stream_env \<Rightarrow> usbio_stream_header \<Rightarrow> bytes \<Rightarrow> Sample list" where
  "record_samples env header head =
     map (\<lambda>i. \<lparr>smp_pin = cfg_pins (se_config env) ! i, smp_raw = read_u16le head (12 + 2 * i),
               smp_t_us = sh_t_us header\<rparr>) [0..<unat (sh_n_samples header)]"

definition note_seq :: "u32 \<Rightarrow> worker \<Rightarrow> worker" where
  "note_seq seq wk =
     (let st = wk_stats wk;
          st1 = (case wk_last_seq wk of
              None \<Rightarrow> st
            | Some prev \<Rightarrow>
                let gap = seq - (prev + 1)
                in if gap \<noteq> 0 \<and> gap < 0x80000000
                   then st\<lparr>seq_gaps := seq_gaps st + ucast gap\<rparr> else st)
      in wk\<lparr>wk_last_seq := Some seq,
            wk_stats := st1\<lparr>records_received := records_received st1 + 1\<rparr>\<rparr>)"

definition take_record :: "stream_env \<Rightarrow> usbio_stream_header \<Rightarrow> bytes \<Rightarrow> worker \<Rightarrow> worker" where
  "take_record env header head wk =
     (let wk1 = (if wk_hunting wk
                 then wk\<lparr>wk_hunting := False,
                         wk_stats := (wk_stats wk)\<lparr>resyncs := resyncs (wk_stats wk) + 1\<rparr>\<rparr>
                 else wk)
      in if is_stale env header
         then wk1\<lparr>wk_stats := (wk_stats wk1)\<lparr>stale_records := stale_records (wk_stats wk1) + 1\<rparr>\<rparr>
         else deliver env (record_samples env header head) (note_seq (sh_seq header) wk1))"

text \<open>\<open>header.magic != StreamMagic || header.n_samples != n_samples_expected\<close>\<close>

definition good_header :: "stream_env \<Rightarrow> usbio_stream_header \<Rightarrow> bool" where
  "good_header env header \<longleftrightarrow> sh_magic header = USBIO_STREAM_MAGIC \<and>
     sh_n_samples header = of_nat (length (cfg_pins (se_config env)))"

definition wire_len :: "stream_env \<Rightarrow> usbio_stream_header \<Rightarrow> nat" where
  "wire_len env header =
     stream_record_len (unat (sh_n_samples header)) (se_digital env) (se_n_pins env)"

lemma wire_len_ge: "12 \<le> wire_len env header"
  by (simp add: wire_len_def stream_record_len_def Let_def)

text \<open>
  The parse loop on the bytes from \<open>pos\<close> on; the second component is what stays in the buffer when
  the loop ends and the bytes before \<open>pos\<close> are erased.
\<close>

function parse :: "stream_env \<Rightarrow> bytes \<Rightarrow> worker \<Rightarrow> worker \<times> bytes" where
  "parse env head wk =
     (if length head < 12 then (wk, head)
      else let header = decode_stream_header head in
        if \<not> good_header env header then parse env (drop 1 head) (wk\<lparr>wk_hunting := True\<rparr>)
        else if length head < wire_len env header then (wk, head)
        else parse env (drop (wire_len env header) head) (take_record env header head wk))"
  by pat_completeness auto
termination
proof (relation "measure (\<lambda>(_, head, _). length head)", goal_cases)
  case (3 env head wk header)
  then show ?case
    using wire_len_ge [of env "decode_stream_header head"] by auto
qed auto

declare parse.simps [simp del]

section \<open>The worker's loop\<close>

text \<open>
  A round: the result of \<open>bulk_in\<close> (its exceptions derive from \<open>Error\<close>), then the status poll
  when it is due; \<open>None\<close> is a poll that is not due or fails.
\<close>

record round =
  rd_bulk :: "error + bytes"
  rd_status :: "StreamStatus option"

definition note_status :: "StreamStatus option \<Rightarrow> worker \<Rightarrow> worker" where
  "note_status answer wk =
     (case answer of
        None \<Rightarrow> wk
      | Some st \<Rightarrow>
          let wk1 = wk\<lparr>wk_stats := (wk_stats wk)\<lparr>device_overruns := st_overruns st\<rparr>\<rparr>
          in if \<not> st_running st then wk1\<lparr>wk_device_stopped := True\<rparr> else wk1)"

definition worker_round :: "stream_env \<Rightarrow> round \<Rightarrow> worker \<Rightarrow> worker" where
  "worker_round env rd wk =
     (case rd_bulk rd of
        Inl e \<Rightarrow> wk\<lparr>wk_error := True, wk_running := False\<rparr>
      | Inr chunk \<Rightarrow>
          if chunk = [] \<and> wk_device_stopped wk
          then wk\<lparr>wk_error := True, wk_running := False\<rparr>
          else case parse env (wk_buffer wk @ chunk) wk of
            (wk1, rest) \<Rightarrow> note_status (rd_status rd) (wk1\<lparr>wk_buffer := rest\<rparr>))"

text \<open>The loop runs until it breaks or \<open>stop()\<close> ends it, here after the given rounds.\<close>

primrec worker_run :: "stream_env \<Rightarrow> round list \<Rightarrow> worker \<Rightarrow> worker" where
  "worker_run env [] wk = wk"
| "worker_run env (rd # rds) wk =
     (if wk_running wk then worker_run env rds (worker_round env rd wk) else wk)"

section \<open>The consumer\<close>

text \<open>The copy loop of \<open>read()\<close>: whole records, oldest first, while they fit.\<close>

fun take_whole :: "nat \<Rightarrow> 'a list list \<Rightarrow> 'a list \<times> 'a list list" where
  "take_whole room [] = ([], [])"
| "take_whole room (front # ready) =
     (if length front > room then ([], front # ready)
      else case take_whole (room - length front) ready of (out, left) \<Rightarrow> (front @ out, left))"

definition read_samples :: "nat \<Rightarrow> worker \<Rightarrow> Sample list \<times> worker" where
  "read_samples room wk =
     (if room = 0 then ([], wk)
      else case take_whole room (wk_ready wk) of (out, left) \<Rightarrow> (out, wk\<lparr>wk_ready := left\<rparr>))"

section \<open>Parsing does not depend on how the bytes are cut\<close>

lemma decode_header_append:
  assumes "12 \<le> length xs"
  shows "decode_stream_header (xs @ ys) = decode_stream_header xs"
proof -
  have "(xs @ ys) ! i = xs ! i" if "i < 12" for i
    using assms that by (simp add: nth_append)
  then show ?thesis
    by (simp add: decode_stream_header_def read_u16le_def read_u32le_def)
qed

lemma record_samples_append:
  assumes "12 + 2 * unat (sh_n_samples header) \<le> length xs"
  shows "record_samples env header (xs @ ys) = record_samples env header xs"
  using assms by (simp add: record_samples_def read_u16le_def nth_append)

lemma take_record_append:
  assumes "wire_len env header \<le> length xs"
  shows "take_record env header (xs @ ys) wk = take_record env header xs wk"
proof -
  have "12 + 2 * unat (sh_n_samples header) \<le> length xs"
    using assms by (simp add: wire_len_def stream_record_len_def Let_def split: if_splits)
  then show ?thesis
    by (simp add: take_record_def record_samples_append Let_def)
qed

lemma parse_append:
  "parse env (xs @ ys) wk = (case parse env xs wk of (wk1, rest) \<Rightarrow> parse env (rest @ ys) wk1)"
proof (induction env xs wk rule: parse.induct)
  case (1 env head wk)
  let ?h = "decode_stream_header head"
  show ?case
  proof (cases "length head < 12 \<or> (good_header env ?h \<and> length head < wire_len env ?h)")
    case True
    then have "parse env head wk = (wk, head)"
      by (subst parse.simps) (auto simp: Let_def)
    then show ?thesis
      by simp
  next
    case False
    then have len: "12 \<le> length head"
      and rec: "good_header env ?h \<Longrightarrow> wire_len env ?h \<le> length head"
      by auto
    show ?thesis
    proof (cases "good_header env ?h")
      case True
      then show ?thesis
        using 1(2) [OF _ refl] len rec take_record_append [OF rec [OF True]]
        by (subst (1 2) parse.simps) (simp add: Let_def decode_header_append)
    next
      case False
      then show ?thesis
        using 1(1) [OF _ refl] len
        by (subst (1 2) parse.simps) (simp add: Let_def decode_header_append)
    qed
  qed
qed

text \<open>What the loop leaves in the buffer, it would leave again.\<close>

lemma parse_settled:
  assumes "parse env xs wk = (wk1, rest)"
  shows "parse env rest wk1 = (wk1, rest)"
  using parse_append [of env xs "[]" wk] assms by simp

lemma take_record_buffer:
  "take_record env h head (wk\<lparr>wk_buffer := b\<rparr>) = (take_record env h head wk)\<lparr>wk_buffer := b\<rparr>"
  by (simp add: take_record_def deliver_def note_seq_def Let_def split: prod.split option.split)

lemma parse_buffer:
  "parse env xs (wk\<lparr>wk_buffer := b\<rparr>) =
     (case parse env xs wk of (wk1, rest) \<Rightarrow> (wk1\<lparr>wk_buffer := b\<rparr>, rest))"
proof (induction env xs wk rule: parse.induct)
  case (1 env head wk)
  have swap: "wk\<lparr>wk_buffer := b, wk_hunting := True\<rparr> = wk\<lparr>wk_hunting := True, wk_buffer := b\<rparr>"
    by simp
  show ?case
    using 1(1) [OF _ refl] 1(2) [OF _ refl]
    by (subst (1 2) parse.simps) (simp add: Let_def take_record_buffer swap)
qed

lemma take_record_keeps:
  "wk_device_stopped (take_record env h head wk) = wk_device_stopped wk"
  "wk_running (take_record env h head wk) = wk_running wk"
  by (simp_all add: take_record_def deliver_def note_seq_def Let_def split: prod.split option.split)

lemma parse_keeps:
  "wk_device_stopped (fst (parse env xs wk)) = wk_device_stopped wk \<and>
   wk_running (fst (parse env xs wk)) = wk_running wk"
proof (induction env xs wk rule: parse.induct)
  case (1 env head wk)
  then show ?case
    by (subst (1 2) parse.simps) (simp add: Let_def take_record_keeps)
qed

text \<open>
  A run of successful reads without status polls parses the concatenation of what was read.
\<close>

lemma worker_run_parses:
  assumes "wk_running wk" and "\<not> wk_device_stopped wk"
    and "parse env (wk_buffer wk) wk = (wk, wk_buffer wk)"
  shows "worker_run env (map (\<lambda>c. \<lparr>rd_bulk = Inr c, rd_status = None\<rparr>) chunks) wk =
    (case parse env (wk_buffer wk @ concat chunks) wk of (wk1, rest) \<Rightarrow> wk1\<lparr>wk_buffer := rest\<rparr>)"
  using assms
proof (induction chunks arbitrary: wk)
  case Nil
  then show ?case
    by simp
next
  case (Cons c cs)
  obtain wk1 rest where p: "parse env (wk_buffer wk @ c) wk = (wk1, rest)"
    by (metis prod.exhaust)
  let ?wk = "wk1\<lparr>wk_buffer := rest\<rparr>"
  have keeps: "wk_running ?wk" "\<not> wk_device_stopped ?wk"
    using parse_keeps [of env "wk_buffer wk @ c" wk] p Cons.prems by simp_all
  have settled: "parse env (wk_buffer ?wk) ?wk = (?wk, wk_buffer ?wk)"
    using parse_buffer [where env = env and xs = rest and wk = wk1 and b = rest] parse_settled [OF p] by simp
  have "worker_run env (map (\<lambda>c. \<lparr>rd_bulk = Inr c, rd_status = None\<rparr>) (c # cs)) wk =
      worker_run env (map (\<lambda>c. \<lparr>rd_bulk = Inr c, rd_status = None\<rparr>) cs) ?wk"
    using Cons.prems p by (simp add: worker_round_def note_status_def)
  also have "\<dots> = (case parse env (rest @ concat cs) ?wk of (wk2, r) \<Rightarrow> wk2\<lparr>wk_buffer := r\<rparr>)"
    using Cons.IH [OF keeps settled] by simp
  also have "\<dots> = (case parse env (rest @ concat cs) wk1 of (wk2, r) \<Rightarrow> wk2\<lparr>wk_buffer := r\<rparr>)"
    by (simp add: parse_buffer split: prod.split)
  also have "\<dots> = (case parse env (wk_buffer wk @ concat (c # cs)) wk of
      (wk2, r) \<Rightarrow> wk2\<lparr>wk_buffer := r\<rparr>)"
    using parse_append [of env "wk_buffer wk @ c" "concat cs" wk] p by simp
  finally show ?case .
qed

section \<open>Whole records\<close>

text \<open>A record as its header, its samples and its bitmap.\<close>

type_synonym wire_record = "usbio_stream_header \<times> u16 list \<times> bytes"

definition record_bytes :: "wire_record \<Rightarrow> bytes" where
  "record_bytes r = (case r of (h, vals, pad) \<Rightarrow>
     stream_header_bytes h @ concat (map put_u16 vals) @ pad)"

definition record_fits :: "stream_env \<Rightarrow> wire_record \<Rightarrow> bool" where
  "record_fits env r = (case r of (h, vals, pad) \<Rightarrow>
     good_header env h \<and> length vals = unat (sh_n_samples h) \<and>
     length pad = (if se_digital env then stream_digital_bitmap_len (se_n_pins env) else 0))"

definition samples_of :: "stream_env \<Rightarrow> wire_record \<Rightarrow> Sample list" where
  "samples_of env r = (case r of (h, vals, pad) \<Rightarrow>
     map (\<lambda>i. \<lparr>smp_pin = cfg_pins (se_config env) ! i, smp_raw = vals ! i,
               smp_t_us = sh_t_us h\<rparr>) [0..<length vals])"

lemma length_put_u16s [simp]: "length (concat (map put_u16 vals)) = 2 * length vals"
  by (induction vals) simp_all

lemma length_record_bytes:
  "record_fits env r \<Longrightarrow> length (record_bytes r) = wire_len env (fst r)"
  by (auto simp: record_fits_def record_bytes_def wire_len_def stream_record_len_def Let_def
      split: prod.splits)

lemma record_samples_bytes:
  assumes "record_fits env (h, vals, pad)"
  shows "record_samples env h (record_bytes (h, vals, pad)) = samples_of env (h, vals, pad)"
proof -
  have "read_u16le (stream_header_bytes h @ concat (map put_u16 vals) @ pad) (12 + 2 * i) = vals ! i"
    if i: "i < length vals" for i
  proof -
    obtain before after where
      eq: "stream_header_bytes h @ concat (map put_u16 vals) @ pad = before @ put_u16 (vals ! i) @ after"
      and len: "length before = 12 + 2 * i"
      using entry_split [of put_u16 2 i vals "stream_header_bytes h" pad] i by auto
    show ?thesis
      unfolding eq using read_past(2) [OF len, of _ 0] by (simp add: wire_simps)
  qed
  then show ?thesis
    using assms by (simp add: record_samples_def samples_of_def record_bytes_def record_fits_def)
qed

lemma parse_record:
  assumes fits: "record_fits env r"
  shows "parse env (record_bytes r @ rest) wk =
    parse env rest (take_record env (fst r) (record_bytes r) wk)"
proof -
  obtain h vals pad where r: "r = (h, vals, pad)"
    by (cases r) auto
  have len: "length (record_bytes r) = wire_len env h"
    using length_record_bytes [OF fits] r by simp
  have "decode_stream_header (record_bytes r @ rest) = h"
    by (simp add: r record_bytes_def decode_stream_header_bytes)
  moreover have "good_header env h"
    using fits r by (simp add: record_fits_def)
  moreover have "take_record env h (record_bytes r @ rest) wk = take_record env h (record_bytes r) wk"
    by (rule take_record_append) (simp add: len)
  ultimately show ?thesis
    using wire_len_ge [of env h] len r
    by (subst parse.simps) (simp add: Let_def)
qed

lemma parse_records:
  assumes "\<forall>r \<in> set recs. record_fits env r"
  shows "parse env (concat (map record_bytes recs) @ rest) wk =
    parse env rest (fold (\<lambda>r. take_record env (fst r) (record_bytes r)) recs wk)"
  using assms by (induction recs arbitrary: wk) (simp_all add: parse_record)

lemma parse_short: "length xs < 12 \<Longrightarrow> parse env xs wk = (wk, xs)"
  by (subst parse.simps) simp

section \<open>What the worker makes of records in sequence\<close>

lemma make_room_eq:
  "length xs < capacity \<Longrightarrow> make_room capacity xs drops = (xs, drops)"
  by (cases xs) simp_all

text \<open>A record that is neither stale nor preceded by garbage, with room in the queue.\<close>

lemma take_record_room:
  assumes "record_fits env r" and "\<not> is_stale env (fst r)" and "\<not> wk_hunting wk"
    and "length (wk_ready wk) < cfg_queue_capacity (se_config env)"
  shows "take_record env (fst r) (record_bytes r) wk =
    (let wk1 = note_seq (sh_seq (fst r)) wk in
     wk1\<lparr>wk_ready := wk_ready wk @ [samples_of env r],
         wk_callbacks := wk_callbacks wk @ (if wk_callback_set wk then [samples_of env r] else [])\<rparr>)"
proof -
  obtain h vals pad where r: "r = (h, vals, pad)"
    by (cases r) auto
  have "wk_ready (note_seq s wk) = wk_ready wk" "wk_callbacks (note_seq s wk) = wk_callbacks wk"
    "wk_callback_set (note_seq s wk) = wk_callback_set wk" for s
    by (simp_all add: note_seq_def Let_def)
  then show ?thesis
    using assms record_samples_bytes [of env h vals pad]
    by (simp add: take_record_def deliver_def Let_def make_room_eq r)
qed

lemma note_seq_fields [simp]:
  "wk_hunting (note_seq q wk) = wk_hunting wk" "wk_ready (note_seq q wk) = wk_ready wk"
  "wk_last_seq (note_seq q wk) = Some q" "wk_callback_set (note_seq q wk) = wk_callback_set wk"
  "wk_callbacks (note_seq q wk) = wk_callbacks wk"
  "resyncs (wk_stats (note_seq q wk)) = resyncs (wk_stats wk)"
  "stale_records (wk_stats (note_seq q wk)) = stale_records (wk_stats wk)"
  "host_drops (wk_stats (note_seq q wk)) = host_drops (wk_stats wk)"
  by (simp_all add: note_seq_def Let_def split: option.split)

abbreviation take_all :: "stream_env \<Rightarrow> wire_record list \<Rightarrow> worker \<Rightarrow> worker" where
  "take_all env \<equiv> fold (\<lambda>r. take_record env (fst r) (record_bytes r))"

lemma take_all_ready:
  assumes "\<forall>r \<in> set recs. record_fits env r \<and> \<not> is_stale env (fst r)" and "\<not> wk_hunting wk"
    and "length (wk_ready wk) + length recs \<le> cfg_queue_capacity (se_config env)"
  shows "wk_ready (take_all env recs wk) = wk_ready wk @ map (samples_of env) recs \<and>
    \<not> wk_hunting (take_all env recs wk) \<and>
    resyncs (wk_stats (take_all env recs wk)) = resyncs (wk_stats wk) \<and>
    stale_records (wk_stats (take_all env recs wk)) = stale_records (wk_stats wk) \<and>
    host_drops (wk_stats (take_all env recs wk)) = host_drops (wk_stats wk)"
  using assms
proof (induction recs arbitrary: wk)
  case (Cons r recs)
  have "take_record env (fst r) (record_bytes r) wk =
      (let wk1 = note_seq (sh_seq (fst r)) wk in
       wk1\<lparr>wk_ready := wk_ready wk @ [samples_of env r],
           wk_callbacks := wk_callbacks wk @ (if wk_callback_set wk then [samples_of env r] else [])\<rparr>)"
    using Cons.prems by (intro take_record_room) auto
  then show ?case
    using Cons.prems Cons.IH [of "take_record env (fst r) (record_bytes r) wk"]
    by (simp add: Let_def)
qed simp

text \<open>Every sequence number between the first and the last record is received or counted as lost.\<close>

primrec seq_distance :: "u32 \<Rightarrow> u32 list \<Rightarrow> nat" where
  "seq_distance q [] = 0"
| "seq_distance q (x # xs) = unat (x - q) + seq_distance x xs"

primrec seq_ascends :: "u32 \<Rightarrow> u32 list \<Rightarrow> bool" where
  "seq_ascends q [] = True"
| "seq_ascends q (x # xs) = (x \<noteq> q \<and> unat (x - q) \<le> 2 ^ 31 \<and> seq_ascends x xs)"

definition covered :: "StreamStats \<Rightarrow> u64" where
  "covered st = records_received st + seq_gaps st"

lemma note_seq_covered:
  assumes "wk_last_seq wk = Some q" and "x \<noteq> q" and "unat (x - q) \<le> 2 ^ 31"
  shows "covered (wk_stats (note_seq x wk)) = covered (wk_stats wk) + of_nat (unat (x - q))"
proof -
  let ?gap = "x - (q + 1)"
  have eq: "?gap = (x - q) - 1"
    by simp
  have pos: "0 < unat (x - q)"
    using assms(2) by (simp add: unat_gt_0)
  have unat: "unat ?gap = unat (x - q) - 1"
    unfolding eq using pos by (intro unat_minus_one) (simp add: unat_gt_0)
  then have "?gap < 0x80000000"
    using assms(3) pos by (simp add: word_less_nat_alt)
  moreover have "(of_nat (unat (x - q)) :: u64) = ucast ?gap + 1"
  proof -
    have "ucast ?gap = (of_nat (unat ?gap) :: u64)"
      by (simp add: word_unat_eq_iff unsigned_ucast_eq unat_of_nat)
    also have "\<dots> + 1 = of_nat (unat (x - q))"
      using pos by (simp add: unat)
    finally show ?thesis
      by simp
  qed
  ultimately show ?thesis
    using assms(1) by (cases "?gap = 0") (simp_all add: note_seq_def Let_def covered_def)
qed

lemma take_record_covered:
  assumes "\<not> is_stale env h"
  shows "wk_last_seq (take_record env h head wk) = Some (sh_seq h)"
    and "covered (wk_stats (take_record env h head wk)) = covered (wk_stats (note_seq (sh_seq h) wk))"
  using assms
  by (auto simp: take_record_def deliver_def covered_def note_seq_def Let_def
      split: prod.split option.split)

lemma take_all_covered:
  assumes "\<forall>r \<in> set recs. \<not> is_stale env (fst r)" and "wk_last_seq wk = Some q"
    and "seq_ascends q (map (sh_seq \<circ> fst) recs)"
  shows "covered (wk_stats (take_all env recs wk)) =
    covered (wk_stats wk) + of_nat (seq_distance q (map (sh_seq \<circ> fst) recs))"
  using assms
proof (induction recs arbitrary: wk q)
  case (Cons r recs)
  let ?wk = "take_record env (fst r) (record_bytes r) wk"
  have "wk_last_seq ?wk = Some (sh_seq (fst r))"
    and "covered (wk_stats ?wk) = covered (wk_stats wk) + of_nat (unat (sh_seq (fst r) - q))"
    using Cons.prems take_record_covered [of env "fst r"] note_seq_covered [of wk q "sh_seq (fst r)"]
    by auto
  then show ?case
    using Cons.IH [of ?wk "sh_seq (fst r)"] Cons.prems by simp
qed simp

end
