(* ===== verification/HostSamples.thy ===== *)
theory HostSamples
  imports HostStream Bench
begin

text \<open>
  From the device's sampling to the host's \<open>read()\<close>: the records the firmware formats are the ones
  the host's stream worker reassembles, however the USB stack cuts the byte stream.
\<close>

section \<open>A sampled record as the host sees it\<close>

text \<open>The half-words of the selected channels.\<close>

fun channel_values :: "'h arduino \<Rightarrow> fw \<Rightarrow> u8 list \<Rightarrow> 'h \<Rightarrow> u16 list" where
  "channel_values A s [] h = []"
| "channel_values A s (pin # pins) h =
     (let (v, h1) = (if fw_mode s pin = Some USBIO_MODE_ANALOG_IN then read_analog A pin h
                     else let (d, h') = read_pin A pin h in (ucast d, h'))
      in v # channel_values A s pins h1)"

lemma sample_channels_values:
  "fst (sample_channels A s pins h) = concat (map put_u16 (channel_values A s pins h))"
  by (induction pins arbitrary: h) (simp_all add: case_prod_beta Let_def)

lemma length_channel_values [simp]: "length (channel_values A s pins h) = length pins"
  by (induction pins arbitrary: h) (simp_all add: case_prod_beta Let_def)

text \<open>A sample the device takes: the clock, its state and the outside world.\<close>

type_synonym 'h sampling = "u32 \<times> fw \<times> 'h"

definition padded_bitmap :: "fw \<Rightarrow> bytes" where
  "padded_bitmap s = digital_bitmap s @ (if odd (bitmap_len (fw_n_pins s)) then [0] else [])"

definition sampling_record :: "'h arduino \<Rightarrow> 'h sampling \<Rightarrow> wire_record" where
  "sampling_record A x = (case x of (us, s, h) \<Rightarrow>
     (\<lparr>sh_magic = USBIO_STREAM_MAGIC, sh_n_samples = ucast (fw_n_channels s),
        sh_seq = fw_seq s, sh_t_us = us\<rparr>,
      channel_values A s (stream_channels s) h,
      if ucast (fw_stream_flags s) AND USBIO_STREAM_FLAG_DIGITAL \<noteq> 0 then padded_bitmap s else []))"

lemma sampling_record_bytes:
  "record_bytes (sampling_record A (us, s, h)) = sampled_record A us s h"
proof -
  have "odd (length (stream_header_bytes hdr @ concat (map put_u16 vals) @ digital_bitmap s)) \<longleftrightarrow>
      odd (bitmap_len (fw_n_pins s))" for hdr vals
    by simp
  then show ?thesis
    by (simp add: sampling_record_def record_bytes_def sampled_record_def stream_record_def
        sample_channels_values padded_bitmap_def Let_def)
qed

text \<open>The device streams what the host configured: its channels, the digital flag, its pins.\<close>

definition streams_for :: "stream_env \<Rightarrow> fw \<Rightarrow> bool" where
  "streams_for env s \<longleftrightarrow> stream_channels s = cfg_pins (se_config env) \<and>
     length (cfg_pins (se_config env)) < 256 \<and>
     (ucast (fw_stream_flags s) AND USBIO_STREAM_FLAG_DIGITAL \<noteq> 0 \<longleftrightarrow> se_digital env) \<and>
     unat (fw_n_pins s) = se_n_pins env"

lemma sampling_record_fits:
  assumes "streams_for env s"
  shows "record_fits env (sampling_record A (us, s, h))"
proof -
  have n: "length (cfg_pins (se_config env)) = unat (fw_n_channels s)"
    using assms by (auto simp: streams_for_def stream_channels_def dest!: arg_cong [of _ _ length])
  show ?thesis
    using assms by (auto simp: record_fits_def sampling_record_def streams_for_def good_header_def n
        padded_bitmap_def bitmap_len_def stream_digital_bitmap_len_def dio_bitmap_len_def Let_def
        odd_iff_mod_2_eq_one)
qed

definition samples_taken :: "'h arduino \<Rightarrow> 'h sampling \<Rightarrow> Sample list" where
  "samples_taken A x = (case x of (us, s, h) \<Rightarrow>
     map (\<lambda>(pin, v). \<lparr>smp_pin = pin, smp_raw = v, smp_t_us = us\<rparr>)
       (zip (stream_channels s) (channel_values A s (stream_channels s) h)))"

lemma samples_of_sampling:
  assumes "streams_for env s"
  shows "samples_of env (sampling_record A (us, s, h)) = samples_taken A (us, s, h)"
  using assms by (intro nth_equalityI)
    (auto simp: samples_of_def sampling_record_def samples_taken_def streams_for_def)

text \<open>Taken after START, as the header's stamp tells, the record is not stale.\<close>

definition since :: "stream_env \<Rightarrow> u32 \<Rightarrow> bool" where
  "since env us \<longleftrightarrow> (let age = se_start_t_us env - us in age = 0 \<or> 0x80000000 \<le> age)"

lemma fresh_sampling:
  "since env us \<Longrightarrow> \<not> is_stale env (fst (sampling_record A (us, s, h)))"
  by (auto simp: since_def is_stale_def sampling_record_def Let_def not_less)

section \<open>Reading everything back\<close>

lemma take_whole_all:
  "length (concat xss) \<le> room \<Longrightarrow> take_whole room xss = (concat xss, [])"
  by (induction xss arbitrary: room) (simp_all add: le_diff_conv2)

abbreviation arrivals :: "bytes list \<Rightarrow> round list" where
  "arrivals \<equiv> map (\<lambda>c. \<lparr>rd_bulk = Inr c, rd_status = None\<rparr>)"

lemma arrivals_parsed:
  assumes "\<forall>r \<in> set recs. record_fits (fst (new_stream d cfg start)) r"
    and "concat chunks = concat (map record_bytes recs) @ partial" and "length partial < 12"
  shows "worker_run (fst (new_stream d cfg start)) (arrivals chunks) (snd (new_stream d cfg start)) =
    (take_all (fst (new_stream d cfg start)) recs (snd (new_stream d cfg start)))\<lparr>wk_buffer := partial\<rparr>"
proof -
  let ?env = "fst (new_stream d cfg start)" and ?wk = "snd (new_stream d cfg start)"
  have new: "wk_running ?wk" "\<not> wk_device_stopped ?wk" "wk_buffer ?wk = []"
    by (simp_all add: new_stream_def)
  then have "parse ?env (wk_buffer ?wk) ?wk = (?wk, wk_buffer ?wk)"
    by (simp add: parse_short)
  from worker_run_parses [OF new(1,2) this, of chunks] show ?thesis
    by (simp add: new assms parse_records parse_short)
qed


lemma sampling_usable:
  assumes "case x of (us, s, h) \<Rightarrow> streams_for env s \<and> since env us"
  shows "record_fits env (sampling_record A x) \<and> \<not> is_stale env (fst (sampling_record A x))"
  using assms by (cases x) (simp add: sampling_record_fits fresh_sampling)

text \<open>The worker on what the device sampled, when the device streams what the host configured.\<close>

lemma device_stream_run:
  fixes xs :: "'h sampling list"
  assumes "new_stream d cfg start = (env, wk)"
    and "\<forall>(us, s, h) \<in> set xs. streams_for env s \<and> since env us"
    and "concat chunks = concat (map (\<lambda>(us, s, h). sampled_record A us s h) xs) @ partial"
    and "length partial < 12"
  shows "\<forall>r \<in> set (map (sampling_record A) xs). record_fits env r \<and> \<not> is_stale env (fst r)"
    and "worker_run env (arrivals chunks) wk =
      (take_all env (map (sampling_record A) xs) wk)\<lparr>wk_buffer := partial\<rparr>"
proof -
  let ?recs = "map (sampling_record A) xs"
  have usable: "record_fits env (sampling_record A x) \<and> \<not> is_stale env (fst (sampling_record A x))"
    if "x \<in> set xs" for x
    using assms(2) that by (intro sampling_usable) blast
  then show "\<forall>r \<in> set ?recs. record_fits env r \<and> \<not> is_stale env (fst r)"
    by simp
  have env: "env = fst (new_stream d cfg start)" "wk = snd (new_stream d cfg start)"
    using assms(1) by simp_all
  have "map (\<lambda>(us, s, h). sampled_record A us s h) xs = map record_bytes ?recs"
    by (auto simp: sampling_record_bytes)
  then have "concat chunks = concat (map record_bytes ?recs) @ partial"
    using assms(3) by metis
  moreover have "\<forall>r \<in> set ?recs. record_fits (fst (new_stream d cfg start)) r"
    using usable unfolding env by simp
  ultimately show "worker_run env (arrivals chunks) wk = (take_all env ?recs wk)\<lparr>wk_buffer := partial\<rparr>"
    unfolding env by (intro arrivals_parsed [OF _ _ assms(4)])
qed

text \<open>C31. While the device streams what the host configured, the samples \<open>read()\<close> returns are those
  the device took from its channels, in order and each with its pin and its stamp, whatever the
  sizes of the bulk transfers that carried them; nothing is dropped, skipped or taken for stale,
  and a record that has not arrived in full waits in the buffer.\<close>

theorem read_returns_the_samples_taken:
  fixes xs :: "'h sampling list"
  assumes "new_stream d cfg start = (env, wk)"
    and "\<forall>(us, s, h) \<in> set xs. streams_for env s \<and> since env us"
    and "concat chunks = concat (map (\<lambda>(us, s, h). sampled_record A us s h) xs) @ partial"
    and "length partial < 12" and "length xs \<le> cfg_queue_capacity cfg"
    and "length xs * length (cfg_pins cfg) \<le> room" and "0 < room"
  shows "(let wk1 = worker_run env (arrivals chunks) wk in
    fst (read_samples room wk1) = concat (map (samples_taken A) xs) \<and> wk_buffer wk1 = partial \<and>
    resyncs (wk_stats wk1) = 0 \<and> stale_records (wk_stats wk1) = 0 \<and> host_drops (wk_stats wk1) = 0)"
proof -
  let ?recs = "map (sampling_record A) xs"
  note recs = device_stream_run(1) [OF assms(1-4)]
  note run = device_stream_run(2) [OF assms(1-4)]
  have env: "env = fst (new_stream d cfg start)" "wk = snd (new_stream d cfg start)"
    using assms(1) by simp_all
  have cfg: "se_config env = cfg"
    using env(1) by (simp add: new_stream_def)
  have start: "\<not> wk_hunting wk" "wk_ready wk = []" "resyncs (wk_stats wk) = 0"
    "stale_records (wk_stats wk) = 0" "host_drops (wk_stats wk) = 0"
    using env(2) by (simp_all add: new_stream_def)
  have "samples_of env (sampling_record A x) = samples_taken A x" if "x \<in> set xs" for x
    using assms(2) that by (cases x) (auto simp: samples_of_sampling)
  then have same: "map (samples_of env) ?recs = map (samples_taken A) xs"
    by simp
  have "wk_ready (take_all env ?recs wk) = map (samples_taken A) xs \<and>
      resyncs (wk_stats (take_all env ?recs wk)) = 0 \<and> stale_records (wk_stats (take_all env ?recs wk)) = 0 \<and>
      host_drops (wk_stats (take_all env ?recs wk)) = 0"
    using take_all_ready [OF recs start(1), unfolded same] assms(5) by (simp add: start cfg)
  moreover have "length (concat (map (samples_taken A) xs)) = length xs * length (cfg_pins cfg)"
    using assms(2) by (induction xs) (auto simp: samples_taken_def streams_for_def cfg)
  ultimately show ?thesis
    unfolding run Let_def using assms(6,7)
    by (simp add: read_samples_def take_whole_all del: length_concat)
qed

section \<open>Lost records\<close>

text \<open>Sequence numbers that ascend as naturals ascend on the wire, even across a wrap.\<close>

lemma wire_ascends:
  assumes "sorted_wrt (<) (n # ns)" and "\<forall>i < length ns. (n # ns) ! Suc i - (n # ns) ! i \<le> 2 ^ 31"
  shows "seq_ascends (of_nat n) (map of_nat ns) \<and>
    seq_distance (of_nat n) (map of_nat ns) = last (n # ns) - n"
  using assms
proof (induction ns arbitrary: n)
  case (Cons m ns)
  have step: "n < m" "m - n \<le> 2 ^ 31"
    using Cons.prems(1) Cons.prems(2) [rule_format, of 0] by simp_all
  have "unat (of_nat m - of_nat n :: u32) = m - n"
    using step by (simp add: of_nat_diff [symmetric] unat_of_nat take_bit_eq_mod del: of_nat_diff)
  moreover from this step(1) have "(of_nat m :: u32) \<noteq> of_nat n"
    by (metis diff_self unat_0 zero_less_diff less_irrefl)
  moreover have "m \<le> last (m # ns)"
    using Cons.prems(1) by (cases ns rule: rev_cases) auto
  moreover have "\<forall>i < length ns. (m # ns) ! Suc i - (m # ns) ! i \<le> 2 ^ 31"
    using Cons.prems(2) by (auto dest: spec [of _ "Suc i" for i])
  ultimately show ?case
    using Cons.IH [of m] Cons.prems(1) step by simp
qed simp

text \<open>C32. Every sequence number from the first record to the last is accounted for, across a wrap of
  the 32-bit counter too: it belongs to a record received, or is counted in \<open>seq_gaps\<close>.\<close>

theorem received_and_lost_cover_the_sequence:
  fixes xs :: "'h sampling list"
  assumes "new_stream d cfg start = (env, wk)"
    and "\<forall>(us, s, h) \<in> set xs. streams_for env s \<and> since env us"
    and "concat chunks = concat (map (\<lambda>(us, s, h). sampled_record A us s h) xs) @ partial"
    and "length partial < 12"
    and "map (\<lambda>(us, s, h). fw_seq s) xs = map of_nat (n # ns)"
    and "sorted_wrt (<) (n # ns)" and "\<forall>i < length ns. (n # ns) ! Suc i - (n # ns) ! i \<le> 2 ^ 31"
  shows "(let st = wk_stats (worker_run env (arrivals chunks) wk) in
    records_received st + seq_gaps st = of_nat (last (n # ns) - n + 1))"
proof -
  let ?recs = "map (sampling_record A) xs"
  note recs = device_stream_run(1) [OF assms(1-4)]
  note run = device_stream_run(2) [OF assms(1-4)]
  obtain x xs' where xs: "xs = x # xs'"
    using assms(5) by (cases xs) auto
  have seqs: "map (sh_seq \<circ> fst) ?recs = map of_nat (n # ns)"
    unfolding assms(5) [symmetric] by (auto simp: sampling_record_def)
  let ?wk = "take_record env (fst (sampling_record A x)) (record_bytes (sampling_record A x)) wk"
  have fresh: "\<not> is_stale env (fst (sampling_record A x))"
    using recs xs by simp
  have "wk_last_seq wk = None" "covered (wk_stats wk) = 0"
    using assms(1) by (auto simp: new_stream_def covered_def)
  then have first: "wk_last_seq ?wk = Some (of_nat n)" "covered (wk_stats ?wk) = 1"
    using take_record_covered [OF fresh] seqs xs
    by (simp_all add: note_seq_def covered_def Let_def)
  have "covered (wk_stats (take_all env (map (sampling_record A) xs') ?wk)) =
      covered (wk_stats ?wk) + of_nat (last (n # ns) - n)"
    using take_all_covered [OF _ first(1), of "map (sampling_record A) xs'" env] recs seqs
      wire_ascends [OF assms(6,7)] by (simp add: xs)
  then show ?thesis
    using first(2) by (simp add: run xs covered_def)
qed


section \<open>A run of the worker on the bench\<close>

text \<open>A record of two analog channels, cut after three bytes and followed by five of the next.\<close>

definition bench_config :: StreamConfig where
  "bench_config = \<lparr>cfg_pins = [4, 5], cfg_period = 1000, cfg_flags = 0, cfg_queue_capacity = 4\<rparr>"

definition bench_streaming :: fw where
  "bench_streaming = (construct bench_board)\<lparr>fw_n_pins := 8, fw_n_channels := 2,
     fw_channels := (\<lambda>i. if i = 0 then 4 else 5),
     fw_mode := (\<lambda>_. Some USBIO_MODE_ANALOG_IN)\<rparr>"

definition bench_host :: device where
  "bench_host = \<lparr>dev_options = default_options, dev_info = device_info bench_board bench_streaming,
     dev_caps = replicate 8 3, dev_analog_pins = [4, 5, 6, 7], dev_streaming = True,
     dev_selected = [4, 5]\<rparr>"

definition bench_record :: bytes where
  "bench_record = sampled_record bench_arduino 1000 bench_streaming quiet_bench"

lemma bench_stream_facts:
  "streams_for (fst (new_stream bench_host bench_config 900)) bench_streaming"
  "since (fst (new_stream bench_host bench_config 900)) 1000"
  by code_simp+

theorem read_returns_witness:
  "fst (read_samples 64 (worker_run (fst (new_stream bench_host bench_config 900))
     (arrivals [take 3 bench_record, drop 3 bench_record @ take 5 bench_record])
     (snd (new_stream bench_host bench_config 900)))) =
   samples_taken bench_arduino (1000, bench_streaming, quiet_bench)"
  using read_returns_the_samples_taken [of bench_host bench_config 900
      "fst (new_stream bench_host bench_config 900)" "snd (new_stream bench_host bench_config 900)"
      "[(1000, bench_streaming, quiet_bench)]"
      "[take 3 bench_record, drop 3 bench_record @ take 5 bench_record]" bench_arduino
      "take 5 bench_record" 64] bench_stream_facts
  by (simp add: Let_def bench_record_def bench_config_def)

theorem received_and_lost_witness:
  "(let st = wk_stats (worker_run (fst (new_stream bench_host bench_config 900))
     (arrivals [bench_record]) (snd (new_stream bench_host bench_config 900)))
    in records_received st + seq_gaps st = 1)"
  using received_and_lost_cover_the_sequence [of bench_host bench_config 900
      "fst (new_stream bench_host bench_config 900)" "snd (new_stream bench_host bench_config 900)"
      "[(1000, bench_streaming, quiet_bench)]" "[bench_record]" bench_arduino "[]" 0 "[]"]
    bench_stream_facts
  by (simp add: Let_def bench_record_def bench_streaming_def construct_def)

end
