(* ===== verification/Transports.thy ===== *)
theory Transports
  imports Device
begin

text \<open>
  The USB-stack glue of the firmware (\<open>src/src/transport/\<close>): for each stack, the callback that
  receives a SETUP packet, hands it to \<open>UsbIoDevice::handle_setup\<close> and maps the answer to the
  stack's own primitives, and the write of a stream packet.  The stacks are not part of the
  repository; a callback returns the primitive it would call as a value of \<open>answer\<close>.

  Lemmas: every adapter gives the answer of \<open>handle_setup\<close> to the packets it claims, and claims
  every vendor packet that is not addressed to another interface.
\<close>

section \<open>Answers\<close>

text \<open>
  \<open>Stalled\<close>: the stack stalls the control endpoint; \<open>DataStage bs\<close>: the reply is sent, cut to
  \<open>wLength\<close> by the stack and followed by a zero-length packet where it needs one; \<open>StatusStage\<close>:
  the request is acknowledged; \<open>NotOurs\<close>: the packet is offered to the next module.
\<close>

datatype answer = NotOurs | Stalled | DataStage bytes | StatusStage

definition is_in :: "u8 \<Rightarrow> bool" where
  "is_in bm \<longleftrightarrow> bm AND 0x80 \<noteq> 0"

text \<open>The answer to a packet of \<open>handle_setup\<close> itself, as the adapters must give it.\<close>

definition core_answer :: "u8 \<Rightarrow> bytes option \<Rightarrow> answer" where
  "core_answer bm reply =
     (case reply of
        None \<Rightarrow> Stalled
      | Some bs \<Rightarrow> if is_in bm then DataStage bs else StatusStage)"

section \<open>TinyUSB on Renesas and RP2040\<close>

text \<open>
  \<open>tud_vendor_control_xfer_cb\<close> at the SETUP stage, for both cores.  At the DATA and ACK stages the
  callback returns true at once: it lets the transfer complete and touches nothing.
\<close>

definition tinyusb_setup ::
  "board \<Rightarrow> 'h arduino \<Rightarrow> setup_packet \<Rightarrow> fw \<Rightarrow> 'h \<Rightarrow> answer \<times> fw \<times> 'h"
where
  "tinyusb_setup b A p s h =
     (if drop_bit 5 (bmRequestType p) AND 3 \<noteq> 2 then (Stalled, s, h)
      else case handle_setup b A p s h of
        (None, s1, h1) \<Rightarrow> (Stalled, s1, h1)
      | (Some bs, s1, h1) \<Rightarrow>
          (if drop_bit 7 (bmRequestType p) = 1 then DataStage bs else StatusStage, s1, h1))"

section \<open>ESP32\<close>

text \<open>\<open>on_request\<close>: \<open>sendResponse\<close> with no data is the status stage of an OUT request.\<close>

definition esp32_setup ::
  "board \<Rightarrow> 'h arduino \<Rightarrow> setup_packet \<Rightarrow> fw \<Rightarrow> 'h \<Rightarrow> answer \<times> fw \<times> 'h"
where
  "esp32_setup b A p s h =
     (if bmRequestType p AND 0x60 \<noteq> 0x40 then (Stalled, s, h)
      else let inward = bmRequestType p AND 0x80 \<noteq> 0 in
        case handle_setup b A p s h of
          (None, s1, h1) \<Rightarrow> (Stalled, s1, h1)
        | (Some bs, s1, h1) \<Rightarrow> (if inward then DataStage bs else StatusStage, s1, h1))"

section \<open>mbed\<close>

text \<open>mbed hands the packet over with \<open>bmRequestType\<close> split into its three fields.\<close>

record mbed_request_type =
  mb_direction :: u8
  mb_type :: u8
  mb_recipient :: u8

definition mbed_split :: "u8 \<Rightarrow> mbed_request_type" where
  "mbed_split bm = \<lparr>mb_direction = drop_bit 7 bm, mb_type = drop_bit 5 bm AND 3,
     mb_recipient = bm AND 0x1F\<rparr>"

definition mbed_rebuild :: "mbed_request_type \<Rightarrow> u8" where
  "mbed_rebuild r = (if mb_direction r = 1 then 0x80 else 0) OR push_bit 5 (mb_type r) OR
     (mb_recipient r AND 0x1F)"

definition mbed_is_ours :: "u8 \<Rightarrow> mbed_request_type \<Rightarrow> u16 \<Rightarrow> bool" where
  "mbed_is_ours pluggedInterface r windex =
     (if mb_type r \<noteq> 2 then False
      else mb_recipient r \<noteq> 1 \<or> windex AND 0xFF = ucast pluggedInterface)"

text \<open>\<open>callback_request\<close> for the packet \<open>p\<close> as the stack splits it.\<close>

definition mbed_setup ::
  "board \<Rightarrow> 'h arduino \<Rightarrow> u8 \<Rightarrow> setup_packet \<Rightarrow> fw \<Rightarrow> 'h \<Rightarrow> answer \<times> fw \<times> 'h"
where
  "mbed_setup b A pluggedInterface p s h =
     (let r = mbed_split (bmRequestType p) in
      if \<not> mbed_is_ours pluggedInterface r (wIndex p) then (NotOurs, s, h)
      else let inward = (mb_direction r = 1) in
        case handle_setup b A (p\<lparr>bmRequestType := mbed_rebuild r\<rparr>) s h of
          (None, s1, h1) \<Rightarrow> (Stalled, s1, h1)
        | (Some bs, s1, h1) \<Rightarrow> (if inward then DataStage bs else StatusStage, s1, h1))"

text \<open>
  \<open>stream_write\<close> on the module's transmit state: the buffer and the flag that says a packet is in
  flight; \<open>write_start\<close> is the stack's, and \<open>StreamEpSize\<close> the size of the buffer.
\<close>

record mbed_tx =
  tx_buffer :: bytes
  tx_in_progress :: bool

definition mbed_stream_write ::
  "(bytes \<Rightarrow> 'h \<Rightarrow> bool \<times> 'h) \<Rightarrow> bytes \<Rightarrow> mbed_tx \<Rightarrow> 'h \<Rightarrow> write_result \<times> mbed_tx \<times> 'h"
where
  "mbed_stream_write write_start data tx h =
     (if tx_in_progress tx \<or> length data > length (tx_buffer tx)
      then (USBIO_STREAM_WRITE_BUSY, tx, h)
      else let tx1 = tx\<lparr>tx_buffer := memcpy_at 0 data (tx_buffer tx), tx_in_progress := True\<rparr> in
        case write_start (take (length data) (tx_buffer tx1)) h of
          (started, h1) \<Rightarrow>
            if \<not> started then (USBIO_STREAM_WRITE_BUSY, tx1\<lparr>tx_in_progress := False\<rparr>, h1)
            else (USBIO_STREAM_WRITE_SENT, tx1, h1))"

text \<open>The completion callback, \<open>callback_set_configuration\<close> and \<open>callback_state_change\<close>.\<close>

definition mbed_stream_send_done :: "mbed_tx \<Rightarrow> mbed_tx" where
  "mbed_stream_send_done tx = tx\<lparr>tx_in_progress := False\<rparr>"

definition mbed_state_change :: "board \<Rightarrow> bool \<Rightarrow> fw \<times> mbed_tx \<Rightarrow> fw \<times> mbed_tx" where
  "mbed_state_change b configured c = (case c of (s, tx) \<Rightarrow>
     if \<not> configured then (handle_usb_disconnected b s, tx\<lparr>tx_in_progress := False\<rparr>) else (s, tx))"

section \<open>SAMD\<close>

definition Ep0CacheSize :: nat where
  "Ep0CacheSize = 64"

text \<open>\<open>setup\<close>: an empty IN reply is the zero-length packet of a data stage.\<close>

definition samd_setup ::
  "board \<Rightarrow> 'h arduino \<Rightarrow> u8 \<Rightarrow> setup_packet \<Rightarrow> fw \<Rightarrow> 'h \<Rightarrow> answer \<times> fw \<times> 'h"
where
  "samd_setup b A pluggedInterface p s h =
     (if bmRequestType p AND 0x60 \<noteq> 0x40 then (NotOurs, s, h)
      else if bmRequestType p AND 0x1F = 1 \<and> wIndex p AND 0xFF \<noteq> ucast pluggedInterface
      then (NotOurs, s, h)
      else let inward = (bmRequestType p AND 0x80 = 0x80) in
        case handle_setup b A p s h of
          (None, s1, h1) \<Rightarrow> (NotOurs, s1, h1)
        | (Some bs, s1, h1) \<Rightarrow>
            (if inward \<and> length bs > 0
             then DataStage (if length bs > Ep0CacheSize then take Ep0CacheSize bs else bs)
             else if inward then DataStage [] else StatusStage, s1, h1))"

text \<open>\<open>send\<close> blocks until the packet is out or its timeout is over, and returns what it sent.\<close>

definition samd_stream_write ::
  "(bytes \<Rightarrow> 'h \<Rightarrow> int \<times> 'h) \<Rightarrow> bytes \<Rightarrow> 'h \<Rightarrow> write_result \<times> 'h"
where
  "samd_stream_write usb_send data h =
     (if length data > unat USBIO_STREAM_EP_SIZE then (USBIO_STREAM_WRITE_FAILED, h)
      else case usb_send data h of (sent, h1) \<Rightarrow>
        (if sent = int (length data) then USBIO_STREAM_WRITE_SENT else USBIO_STREAM_WRITE_FAILED, h1))"

section \<open>The adapters answer as the core\<close>

definition vendor_packet :: "setup_packet \<Rightarrow> bool" where
  "vendor_packet p \<longleftrightarrow> bmRequestType p AND 0x60 = 0x40"

text \<open>Addressed to another interface: the interface recipient with another number in \<open>wIndex\<close>.\<close>

definition elsewhere :: "u8 \<Rightarrow> setup_packet \<Rightarrow> bool" where
  "elsewhere pluggedInterface p \<longleftrightarrow>
     bmRequestType p AND 0x1F = 1 \<and> wIndex p AND 0xFF \<noteq> ucast pluggedInterface"

text \<open>A statement about one byte, decided on all of them.\<close>

lemma all_bytes:
  "(\<forall>n \<in> set [0..<256]. P (of_nat n)) \<Longrightarrow> P (bm :: u8)"
proof -
  assume "\<forall>n \<in> set [0..<256]. P (of_nat n)"
  moreover have "unat bm \<in> set [0..<256]"
    by simp
  ultimately have "P (of_nat (unat bm))"
    by blast
  then show ?thesis
    by simp
qed

lemma top_bit: "drop_bit 7 (bm :: u8) = 1 \<longleftrightarrow> bm AND 0x80 \<noteq> 0"
  by (rule all_bytes [of _ bm]) code_simp

lemma vendor_type: "drop_bit 5 (bm :: u8) AND 3 = 2 \<longleftrightarrow> bm AND 0x60 = 0x40"
  by (rule all_bytes [of _ bm]) code_simp

lemma mbed_rebuild_split: "mbed_rebuild (mbed_split bm) = bm"
  by (rule all_bytes [of _ bm]) code_simp

lemma mbed_split_direction:
  "mb_direction (mbed_split bm) = 1 \<longleftrightarrow> bm AND 0x80 \<noteq> 0"
  by (simp add: mbed_split_def top_bit)

lemma adapter_answers:
  assumes "vendor_packet p"
  shows "tinyusb_setup b A p s h =
      (case handle_setup b A p s h of (reply, s1, h1) \<Rightarrow>
        (core_answer (bmRequestType p) reply, s1, h1))"
    and "esp32_setup b A p s h =
      (case handle_setup b A p s h of (reply, s1, h1) \<Rightarrow>
        (core_answer (bmRequestType p) reply, s1, h1))"
    and "\<not> elsewhere n p \<Longrightarrow> mbed_setup b A n p s h =
      (case handle_setup b A p s h of (reply, s1, h1) \<Rightarrow>
        (core_answer (bmRequestType p) reply, s1, h1))"
proof -
  have p: "bmRequestType p AND 0x60 = 0x40"
    using assms by (simp add: vendor_packet_def)
  show "tinyusb_setup b A p s h =
      (case handle_setup b A p s h of (reply, s1, h1) \<Rightarrow>
        (core_answer (bmRequestType p) reply, s1, h1))"
    by (auto simp: tinyusb_setup_def vendor_type p top_bit core_answer_def is_in_def
        split: prod.split option.split)
  show "esp32_setup b A p s h =
      (case handle_setup b A p s h of (reply, s1, h1) \<Rightarrow>
        (core_answer (bmRequestType p) reply, s1, h1))"
    by (auto simp: esp32_setup_def p core_answer_def is_in_def Let_def
        split: prod.split option.split)
  assume "\<not> elsewhere n p"
  then have "mbed_is_ours n (mbed_split (bmRequestType p)) (wIndex p)"
    using p by (simp add: mbed_is_ours_def mbed_split_def elsewhere_def vendor_type)
  then show "mbed_setup b A n p s h =
      (case handle_setup b A p s h of (reply, s1, h1) \<Rightarrow>
        (core_answer (bmRequestType p) reply, s1, h1))"
    by (simp add: mbed_setup_def Let_def mbed_rebuild_split mbed_split_direction core_answer_def
        is_in_def split: prod.split option.split)
qed

text \<open>
  SAMD refuses by not claiming the packet, which stalls it, and its 64-byte clamp does not cut a
  reply of a board whose tables are small enough.
\<close>

lemma samd_answers:
  assumes "vendor_packet p" and "\<not> elsewhere n p"
    and "handle_setup b A p s h = (reply, s1, h1)"
    and "\<And>bs. reply = Some bs \<Longrightarrow> length bs \<le> Ep0CacheSize"
  shows "samd_setup b A n p s h =
    (case reply of None \<Rightarrow> NotOurs | Some bs \<Rightarrow> core_answer (bmRequestType p) (Some bs), s1, h1)"
proof -
  have "bmRequestType p AND 0x80 = 0x80 \<longleftrightarrow> bmRequestType p AND 0x80 \<noteq> 0"
    by (rule all_bytes [of _ "bmRequestType p"]) code_simp
  then show ?thesis
    using assms
    by (auto simp: samd_setup_def vendor_packet_def elsewhere_def core_answer_def is_in_def Let_def
        split: option.split)
qed

lemma small_replies:
  assumes "pins_inv s" and "unat (fw_n_pins s) \<le> 64" and "unat (fw_n_ain s) \<le> 31"
    and "handle_in b A code i len s h = (Some reply, s', h')"
  shows "length reply \<le> Ep0CacheSize"
proof -
  obtain req where req: "request_of code = Some req"
    using assms(4) by (cases "request_of code") (auto simp: handle_in_def)
  obtain r s1 h1 where r: "in_reply b A req i len s h = (r, s1, h1)"
    by (metis prod.exhaust)
  then obtain full where full: "r = Some full" "reply = take (unat len) full"
    using assms(4) req by (auto simp: handle_in_def)
  have "bitmap_len (fw_n_pins s) \<le> 9"
    using assms(2) by (simp add: bitmap_len_def)
  moreover have "length (popped i s) \<le> 7"
    using pop_cap_bounds [of i] by (simp add: popped_def min_le_iff_disj)
  moreover have "length (concat (map (\<lambda>p. put_u16 (ain_value s p)) (ain_pins s))) = 2 * length (ain_pins s)"
    by (rule length_concat_const) simp
  ultimately have "length full \<le> 64"
    using r full(1) assms(1-3) length_reply_event_pop [of i s] length_active_slots [of s]
    by (cases req) (auto simp: in_reply_def pins_inv_def reply_info_def length_reply_pin_caps
        reply_dio_read_def reply_ai_read_def reply_dio_read_all_def reply_ai_read_all_def
        reply_stream_status_def length_reply_event_counts split: prod.splits if_splits)
  then show ?thesis
    by (simp add: full(2) Ep0CacheSize_def)
qed

lemma elsewhere_untouched:
  assumes "elsewhere n p"
  shows "mbed_setup b A n p s h = (NotOurs, s, h)" and "samd_setup b A n p s h = (NotOurs, s, h)"
  using assms by (auto simp: mbed_setup_def mbed_is_ours_def mbed_split_def elsewhere_def
      samd_setup_def Let_def)

end
