(* ===== verification/Adapters.thy ===== *)
theory Adapters
  imports Transports Bench
begin

text \<open>
  The guarantee of the USB-stack glue: whatever the board, a vendor packet gets the answer the
  firmware's core gives it, and a packet of another interface is left alone.
\<close>

lemma samd_cut:
  assumes "vendor_packet p" and "\<not> elsewhere n p"
  shows "samd_setup b A n p s h =
    (case handle_setup b A p s h of (reply, s1, h1) \<Rightarrow>
      (case reply of None \<Rightarrow> NotOurs
       | Some bs \<Rightarrow> core_answer (bmRequestType p) (Some (take Ep0CacheSize bs)), s1, h1))"
proof -
  have "bmRequestType p AND 0x80 = 0x80 \<longleftrightarrow> bmRequestType p AND 0x80 \<noteq> 0"
    by (rule all_bytes [of _ "bmRequestType p"]) code_simp
  then show ?thesis
    using assms
    by (auto simp: samd_setup_def vendor_packet_def elsewhere_def core_answer_def is_in_def Let_def
        split: option.split prod.split)
qed

text \<open>C33. On every stack a vendor packet is answered as the core answers it: TinyUSB and the ESP32
  core hand over every one, mbed and SAMD leave those of another interface to the next module.
  SAMD refuses by not claiming the packet and sends at most the first 64 bytes of a reply.\<close>

theorem adapters_answer_as_the_core:
  assumes "vendor_packet p"
  shows "(let core = (case handle_setup b A p s h of (reply, s1, h1) \<Rightarrow>
        (core_answer (bmRequestType p) reply, s1, h1))
    in tinyusb_setup b A p s h = core \<and> esp32_setup b A p s h = core \<and>
       mbed_setup b A n p s h = (if elsewhere n p then (NotOurs, s, h) else core) \<and>
       samd_setup b A n p s h = (if elsewhere n p then (NotOurs, s, h)
         else case handle_setup b A p s h of (reply, s1, h1) \<Rightarrow>
           (case reply of None \<Rightarrow> NotOurs
            | Some bs \<Rightarrow> core_answer (bmRequestType p) (Some (take Ep0CacheSize bs)), s1, h1)))"
  using adapter_answers(1,2) [OF assms, of b A s h] adapter_answers(3) [OF assms, of n b A s h]
    samd_cut [OF assms, of n b A s h] elsewhere_untouched [of n p b A s h]
  by (cases "elsewhere n p") (simp_all only: Let_def if_True if_False simp_thms)

theorem adapters_witness:
  "fst (tinyusb_setup bench_board bench_arduino (out_packet USBIO_REQ_RESET 0 0)
     (fst started) (snd started)) = StatusStage"
proof -
  have "fst (handle_setup bench_board bench_arduino (out_packet USBIO_REQ_RESET 0 0)
      (fst started) (snd started)) = Some []"
    by code_simp
  moreover have "vendor_packet (out_packet USBIO_REQ_RESET 0 0)"
    by code_simp
  moreover have "bmRequestType (out_packet USBIO_REQ_RESET 0 0) = 0x40"
    by (simp add: out_packet_def)
  ultimately show ?thesis
    using adapters_answer_as_the_core [of "out_packet USBIO_REQ_RESET 0 0" bench_board bench_arduino
        "fst started" "snd started" 0]
    by (simp add: Let_def core_answer_def is_in_def split: prod.splits)
qed

end
