(* ===== verification/BulkTransfers.thy ===== *)
theory BulkTransfers
  imports HostUsb
begin

text \<open>
  The ring of bulk transfers behind \<open>bulk_in\<close>: what arrives is handed out in order and without loss,
  the count of outstanding transfers is exact, and the destructor ends once libusb has completed
  the transfers it cancelled.
\<close>

section \<open>The count of outstanding transfers\<close>

definition in_flight :: "bulk_ring \<Rightarrow> nat set" where
  "in_flight r = {i. i < RingSize \<and> br_submitted r ! i}"

definition ring_counted :: "bulk_ring \<Rightarrow> bool" where
  "ring_counted r \<longleftrightarrow> length (br_submitted r) = RingSize \<and>
     br_outstanding r = int (card (in_flight r))"

lemma finite_in_flight [simp]: "finite (in_flight r)"
  by (simp add: in_flight_def)

lemma in_flight_bound: "card (in_flight r) \<le> RingSize"
proof -
  have "in_flight r \<subseteq> {..<RingSize}"
    by (auto simp: in_flight_def)
  then show ?thesis
    using card_mono [of "{..<RingSize}"] by fastforce
qed

lemma in_flight_update:
  assumes "length (br_submitted r) = RingSize" and "i < RingSize"
  shows "in_flight (r\<lparr>br_submitted := (br_submitted r)[i := True]\<rparr>) = insert i (in_flight r)"
    and "in_flight (r\<lparr>br_submitted := (br_submitted r)[i := False]\<rparr>) = in_flight r - {i}"
  using assms by (auto simp: in_flight_def nth_list_update)

lemma in_flight_other [simp]:
  "in_flight (r\<lparr>br_queue := q\<rparr>) = in_flight r" "in_flight (r\<lparr>br_outstanding := n\<rparr>) = in_flight r"
  "in_flight (r\<lparr>br_fatal := f\<rparr>) = in_flight r" "in_flight (r\<lparr>br_stopping := b\<rparr>) = in_flight r"
  by (simp_all add: in_flight_def)

lemma submit_counted:
  assumes "ring_counted r" and "i < RingSize" and "i \<notin> in_flight r"
    and "submit U i (r, w) = (r', w')"
  shows "ring_counted r' \<and> br_queue r' = br_queue r \<and> br_stopping r' = br_stopping r"
proof -
  obtain rc w1 where rc: "submit_transfer U i w = (rc, w1)"
    by fastforce
  have len: "length (br_submitted r) = RingSize"
    and n: "br_outstanding r = int (card (in_flight r))"
    using assms(1) by (simp_all add: ring_counted_def)
  note upd = in_flight_update [OF len assms(2)]
  show ?thesis
  proof (cases "rc < 0")
    case True
    then obtain f where r': "r' = r\<lparr>br_submitted := (br_submitted r)[i := False]\<rparr>\<lparr>br_fatal := f\<rparr>"
      using assms(4) rc by (auto simp: submit_def)
    have "in_flight r' = in_flight r"
      unfolding r' in_flight_other upd using assms(3) by simp
    then show ?thesis
      using len n by (simp add: ring_counted_def r')
  next
    case False
    then have r': "r' = r\<lparr>br_submitted := (br_submitted r)[i := True]\<rparr>\<lparr>br_outstanding := br_outstanding r + 1\<rparr>"
      using assms(4) rc by (simp add: submit_def)
    have "in_flight r' = insert i (in_flight r)"
      unfolding r' in_flight_other upd ..
    then show ?thesis
      using len n assms(3) by (simp add: ring_counted_def r')
  qed
qed

lemma complete_counted:
  assumes "ring_counted r" and "i \<in> in_flight r"
    and "handle_complete U (i, st, data) (r, w) = (r', w')"
  shows "ring_counted r' \<and> br_stopping r' = br_stopping r \<and>
    br_queue r' = br_queue r @
      (if st = LIBUSB_TRANSFER_COMPLETED \<and> \<not> br_stopping r then data else [])"
proof -
  let ?r1 = "r\<lparr>br_submitted := (br_submitted r)[i := False]\<rparr>\<lparr>br_outstanding := br_outstanding r - 1\<rparr>"
  have len: "length (br_submitted r) = RingSize" and i: "i < RingSize"
    and n: "br_outstanding r = int (card (in_flight r))"
    using assms(1,2) by (simp_all add: ring_counted_def in_flight_def)
  have flight: "in_flight ?r1 = in_flight r - {i}"
    unfolding in_flight_other in_flight_update [OF len i] ..
  have "0 < card (in_flight r)"
    using assms(2) by (auto simp: card_gt_0_iff)
  then have r1: "ring_counted ?r1"
    using len n assms(2) by (simp add: ring_counted_def flight [simplified] card_Diff_singleton of_nat_diff)
  show ?thesis
  proof (cases "st = LIBUSB_TRANSFER_COMPLETED \<and> \<not> br_stopping r")
    case True
    let ?r2 = "?r1\<lparr>br_queue := br_queue ?r1 @ data\<rparr>"
    have "ring_counted ?r2"
      using r1 unfolding ring_counted_def in_flight_other by simp
    moreover have "i \<notin> in_flight ?r2"
      unfolding in_flight_other(1) flight by simp
    moreover have "submit U i (?r2, w) = (r', w')"
      using assms(3) True by (simp add: handle_complete_def Let_def)
    ultimately show ?thesis
      using submit_counted [of ?r2 i U w r' w'] i True by simp
  next
    case False
    then have same: "br_submitted r' = br_submitted ?r1 \<and> br_outstanding r' = br_outstanding ?r1 \<and>
        br_queue r' = br_queue r \<and> br_stopping r' = br_stopping r"
      using assms(3) by (auto simp: handle_complete_def Let_def split: if_splits)
    then have flight': "in_flight r' = in_flight ?r1"
      unfolding in_flight_def by (simp only: same)
    have "ring_counted r' = ring_counted ?r1"
      unfolding ring_counted_def by (simp only: same flight')
    with r1 have "ring_counted r'"
      by (simp only:)
    then show ?thesis
      using False by (auto simp: same)
  qed
qed

section \<open>What arrives is handed out\<close>

text \<open>What happens to a ring: a submitted transfer completes, or \<open>read\<close> runs its locked section.\<close>

datatype ring_event = Completion nat transfer_status bytes | Fetch bytes

primrec run_ring :: "'t libusb \<Rightarrow> ring_event list \<Rightarrow> bulk_ring \<times> 't \<Rightarrow> bytes \<times> bulk_ring \<times> 't" where
  "run_ring U [] c = ([], c)"
| "run_ring U (ev # evs) c =
     (case ev of
        Completion i st data \<Rightarrow> run_ring U evs (handle_complete U (i, st, data) c)
      | Fetch buf \<Rightarrow> (case c of (r, w) \<Rightarrow> case ring_take buf r of (res, r1) \<Rightarrow>
          apfst ((@) (case res of Some (Inr (n, bs)) \<Rightarrow> take n bs | _ \<Rightarrow> []))
            (run_ring U evs (r1, w))))"

text \<open>libusb completes only what was submitted.\<close>

primrec ring_may :: "'t libusb \<Rightarrow> ring_event list \<Rightarrow> bulk_ring \<times> 't \<Rightarrow> bool" where
  "ring_may U [] c = True"
| "ring_may U (ev # evs) c =
     (case ev of
        Completion i st data \<Rightarrow>
          i \<in> in_flight (fst c) \<and> ring_may U evs (handle_complete U (i, st, data) c)
      | Fetch buf \<Rightarrow> (case c of (r, w) \<Rightarrow> ring_may U evs (snd (ring_take buf r), w)))"

definition arrived :: "ring_event list \<Rightarrow> bytes" where
  "arrived evs = concat (map (\<lambda>ev. case ev of
     Completion i st data \<Rightarrow> if st = LIBUSB_TRANSFER_COMPLETED then data else [] | Fetch buf \<Rightarrow> []) evs)"

lemma ring_take_keeps:
  assumes "ring_take buf r = (res, r1)"
  shows "(case res of Some (Inr (n, bs)) \<Rightarrow> take n bs | _ \<Rightarrow> []) @ br_queue r1 = br_queue r"
    and "ring_counted r1 = ring_counted r" and "br_stopping r1 = br_stopping r"
proof -
  show "(case res of Some (Inr (n, bs)) \<Rightarrow> take n bs | _ \<Rightarrow> []) @ br_queue r1 = br_queue r"
    using assms by (auto simp: ring_take_def Let_def memcpy_at_def min_def split: option.splits if_splits)
  show "ring_counted r1 = ring_counted r" "br_stopping r1 = br_stopping r"
    using assms by (auto simp: ring_take_def Let_def ring_counted_def split: option.splits if_splits)
qed

lemma run_ring_conserves:
  assumes "ring_may U evs (r, w)" and "ring_counted r" and "\<not> br_stopping r"
    and "run_ring U evs (r, w) = (out, r', w')"
  shows "out @ br_queue r' = br_queue r @ arrived evs \<and> ring_counted r'"
  using assms
proof (induction evs arbitrary: r w out)
  case (Cons ev evs)
  show ?case
  proof (cases ev)
    case (Completion i st data)
    obtain r1 w1 where c: "handle_complete U (i, st, data) (r, w) = (r1, w1)"
      by fastforce
    show ?thesis
      using Cons.IH [of r1 w1 out] Cons.prems complete_counted [of r i U st data w r1 w1] c
      by (auto simp: Completion arrived_def)
  next
    case (Fetch buf)
    obtain res r1 where t: "ring_take buf r = (res, r1)"
      by fastforce
    obtain out1 where "run_ring U evs (r1, w) = (out1, r', w')"
      and "out = (case res of Some (Inr (n, bs)) \<Rightarrow> take n bs | _ \<Rightarrow> []) @ out1"
      using Cons.prems(4) t by (cases "run_ring U evs (r1, w)") (auto simp: Fetch)
    then show ?thesis
      using Cons.IH [of r1 w out1] Cons.prems ring_take_keeps [OF t] t
      by (auto simp: Fetch arrived_def)
  qed
qed (simp add: arrived_def)

text \<open>The ring as the constructor leaves it: nothing queued, and every accepted transfer counted.\<close>

lemma make_ring_counted:
  assumes "make_ring U w = (r, w')"
  shows "ring_counted r \<and> br_queue r = [] \<and> \<not> br_stopping r"
proof -
  have step: "fold (submit U) [n..<RingSize] (r0, w0) = (r1, w1) \<Longrightarrow> ring_counted r0 \<Longrightarrow>
      in_flight r0 \<subseteq> {..<n} \<Longrightarrow> br_queue r0 = [] \<Longrightarrow> \<not> br_stopping r0 \<Longrightarrow>
      ring_counted r1 \<and> br_queue r1 = [] \<and> \<not> br_stopping r1" for n r0 w0 r1 w1
  proof (induction "RingSize - n" arbitrary: n r0 w0)
    case (Suc k)
    then have n: "n < RingSize"
      by simp
    obtain r2 w2 where s: "submit U n (r0, w0) = (r2, w2)"
      by fastforce
    have "n \<notin> in_flight r0"
      using Suc.prems(3) by auto
    then have counted: "ring_counted r2 \<and> br_queue r2 = br_queue r0 \<and> br_stopping r2 = br_stopping r0"
      by (rule submit_counted [OF Suc.prems(2) n _ s])
    have "in_flight r2 \<subseteq> insert n (in_flight r0)"
      using s Suc.prems(2) n
      by (auto simp: submit_def in_flight_def ring_counted_def nth_list_update split: prod.splits if_splits)
    then have "in_flight r2 \<subseteq> {..<Suc n}"
      using Suc.prems(3) by auto
    moreover have "fold (submit U) [Suc n..<RingSize] (r2, w2) = (r1, w1)"
      using Suc.prems(1) n s by (simp add: upt_conv_Cons)
    ultimately show ?case
      using Suc.hyps(1) [of "Suc n" r2 w2] Suc.hyps(2) Suc.prems counted by simp
  qed simp
  have "ring_counted \<lparr>br_submitted = replicate RingSize False, br_queue = [], br_outstanding = 0,
      br_stopping = False, br_fatal = None\<rparr>"
    by (auto simp: ring_counted_def in_flight_def)
  then show ?thesis
    using step [of 0 _ w r w'] assms by (auto simp: make_ring_def in_flight_def)
qed

text \<open>C34. Whatever completes and whenever \<open>read\<close> looks, the bytes handed out followed by those still
  queued are the bytes that arrived, in order of arrival, and the count of outstanding transfers is
  that of the buffers in flight, at most eight.\<close>

theorem bulk_ring_hands_out_what_arrives:
  assumes "make_ring U w = (r0, w0)" and "ring_may U evs (r0, w0)"
    and "run_ring U evs (r0, w0) = (out, r, w1)"
  shows "out @ br_queue r = arrived evs \<and> br_outstanding r = int (card (in_flight r)) \<and>
    card (in_flight r) \<le> RingSize"
  using make_ring_counted [OF assms(1)] run_ring_conserves [OF assms(2) _ _ assms(3)] in_flight_bound
  by (auto simp: ring_counted_def)

section \<open>The destructor ends\<close>

text \<open>
  What the destructor relies on: an event loop run while transfers are pending completes some of
  them, each once, or brings the next completion nearer (\<open>patience\<close> goes down).  \<open>W\<close> tells the worlds
  in which the transfers have been cancelled.
\<close>

definition completes :: "'t libusb \<Rightarrow> ('t \<Rightarrow> bool) \<Rightarrow> ('t \<Rightarrow> nat set) \<Rightarrow> ('t \<Rightarrow> nat) \<Rightarrow> bool" where
  "completes U W pending patience \<longleftrightarrow> (\<forall>w ms cs w1. W w \<and> pending w \<noteq> {} \<and>
     handle_events U ms w = (cs, w1) \<longrightarrow>
       W w1 \<and> distinct (map fst cs) \<and> fst ` set cs \<subseteq> pending w \<and>
       pending w1 = pending w - fst ` set cs \<and> (cs = [] \<longrightarrow> patience w1 < patience w))"

lemma stopped_completions:
  assumes "ring_counted r" and "br_stopping r" and "distinct (map fst cs)"
    and "fst ` set cs \<subseteq> in_flight r" and "fold (handle_complete U) cs (r, w) = (r', w')"
  shows "ring_counted r' \<and> br_stopping r' \<and> br_queue r' = br_queue r \<and> w' = w \<and>
    in_flight r' = in_flight r - fst ` set cs"
  using assms
proof (induction cs arbitrary: r)
  case (Cons c cs)
  obtain i st data where c: "c = (i, st, data)"
    by (cases c) auto
  have i: "i \<in> in_flight r" "i < RingSize" "length (br_submitted r) = RingSize"
    using Cons.prems(1,4) by (auto simp: c in_flight_def ring_counted_def)
  let ?r1 = "r\<lparr>br_submitted := (br_submitted r)[i := False]\<rparr>\<lparr>br_outstanding := br_outstanding r - 1\<rparr>"
  have step: "handle_complete U c (r, w) = (?r1, w)"
    using Cons.prems(2) by (simp add: c handle_complete_def Let_def)
  have flight: "in_flight ?r1 = in_flight r - {i}"
    unfolding in_flight_other in_flight_update [OF i(3,2)] ..
  have "ring_counted ?r1"
    using complete_counted [OF Cons.prems(1) i(1) step [unfolded c]] by blast
  moreover have "fst ` set cs \<subseteq> in_flight ?r1"
    unfolding flight using Cons.prems(3,4) c by (auto simp: image_iff)
  moreover have "fold (handle_complete U) cs (?r1, w) = (r', w')"
    using Cons.prems(5) step by simp
  ultimately have "ring_counted r' \<and> br_stopping r' \<and> br_queue r' = br_queue ?r1 \<and> w' = w \<and>
      in_flight r' = in_flight ?r1 - fst ` set cs"
    using Cons.prems(2,3) by (intro Cons.IH) simp_all
  then show ?case
    unfolding flight by (auto simp: c)
qed simp

lemma drain_ring_ends:
  assumes "completes U W pending patience" and "W w" and "pending w = in_flight r"
    and "ring_counted r" and "br_stopping r"
  shows "\<exists>r' w'. drain_ring U r w = Some (r', w') \<and> br_outstanding r' = 0 \<and> br_queue r' = br_queue r"
  using assms(2-5)
proof (induction "(card (in_flight r), patience w)" arbitrary: r w rule: wf_induct_rule
    [OF wf_lex_prod [OF wf_less wf_less], consumes 0])
  case (1 r w)
  show ?case
  proof (cases "in_flight r = {}")
    case True
    then show ?thesis
      using 1 by (subst drain_ring.simps) (simp add: ring_counted_def)
  next
    case False
    obtain cs w1 where ev: "handle_events U 1000 w = (cs, w1)"
      by fastforce
    have c: "W w1" "distinct (map fst cs)" "fst ` set cs \<subseteq> in_flight r"
      "pending w1 = in_flight r - fst ` set cs" "cs = [] \<Longrightarrow> patience w1 < patience w"
      using assms(1) 1 False ev unfolding completes_def by metis+
    obtain r1 w2 where f: "fold (handle_complete U) cs (r, w1) = (r1, w2)"
      by fastforce
    note stop = stopped_completions [OF 1(4,5) c(2,3) f]
    have "0 < br_outstanding r"
      using False 1(4) by (simp add: ring_counted_def card_gt_0_iff)
    then have "drain_ring U r w = drain_ring U r1 w1"
      using ev f stop by (subst drain_ring.simps) simp
    moreover have "((card (in_flight r1), patience w1), (card (in_flight r), patience w)) \<in>
        {(x, y). x < y} <*lex*> {(x, y). x < y}"
    proof (cases "cs = []")
      case True
      then show ?thesis
        using c(5) stop by simp
    next
      case False
      then have "in_flight r1 \<subset> in_flight r"
        using stop c(3) by (cases cs) auto
      then show ?thesis
        by (simp add: psubset_card_mono)
    qed
    ultimately show ?thesis
      using 1(1) [of r1 w1] c(1,4) stop by auto
  qed
qed

text \<open>C35. Destroying the ring ends, whatever it has carried so far: provided libusb completes the
  transfers the destructor cancels, no transfer is outstanding any more when it returns, and the
  bytes already queued are left alone.\<close>

theorem destroying_the_ring_ends:
  assumes "make_ring U w = (r0, w0)" and "ring_may U evs (r0, w0)"
    and "run_ring U evs (r0, w0) = (out, r, w1)"
    and "completes U W pending patience" and "W (snd (cancel_all U r w1))"
    and "pending (snd (cancel_all U r w1)) = in_flight r"
  shows "\<exists>r' w'. destroy_ring U r w1 = Some (r', w') \<and> br_outstanding r' = 0 \<and>
    br_queue r' = br_queue r"
proof -
  have "ring_counted r"
    using run_ring_conserves [OF assms(2) _ _ assms(3)] make_ring_counted [OF assms(1)] by blast
  then have "ring_counted (r\<lparr>br_stopping := True\<rparr>)"
    unfolding ring_counted_def in_flight_other by simp
  moreover have "pending (snd (cancel_all U r w1)) = in_flight (r\<lparr>br_stopping := True\<rparr>)"
    unfolding in_flight_other by (rule assms(6))
  ultimately show ?thesis
    using drain_ring_ends [OF assms(4,5), of "r\<lparr>br_stopping := True\<rparr>"]
    by (auto simp: destroy_ring_def cancel_all_def)
qed

text \<open>A libusb that accepts every transfer and completes the oldest one at each event loop run.\<close>

definition prompt_usb :: "nat list libusb" where
  "prompt_usb = \<lparr>open_handle = (\<lambda>w. (0, w)), claim_interface = (\<lambda>_ w. (0, w)),
     release_interface = (\<lambda>_ w. w), close_handle = (\<lambda>w. w),
     control_transfer = (\<lambda>_ _ _ _ buf _ w. ((0, buf), w)),
     submit_transfer = (\<lambda>i w. (0, w @ [i])), cancel_transfer = (\<lambda>_ w. w),
     handle_events = (\<lambda>_ w. case w of [] \<Rightarrow> ([], [])
       | i # is \<Rightarrow> ([(i, LIBUSB_TRANSFER_CANCELLED, [])], is)),
     thread_sleep = (\<lambda>_ w. w), monotonic_clock = (\<lambda>w. (0, w))\<rparr>"

lemma prompt_ring:
  "make_ring prompt_usb [] = (\<lparr>br_submitted = replicate 8 True, br_queue = [], br_outstanding = 8,
     br_stopping = False, br_fatal = None\<rparr>, [0..<8])"
  by code_simp

lemma prompt_completes: "completes prompt_usb distinct set (\<lambda>_. 0)"
  by (auto simp: completes_def prompt_usb_def split: list.splits)

theorem bulk_ring_witness:
  "(case run_ring prompt_usb [Completion 3 LIBUSB_TRANSFER_COMPLETED [7, 8], Fetch [0]]
      (make_ring prompt_usb []) of (out, r, w) \<Rightarrow> out @ br_queue r = [7, 8])"
proof -
  let ?evs = "[Completion 3 LIBUSB_TRANSFER_COMPLETED [7, 8], Fetch [0]]"
  obtain out r w1 where run: "run_ring prompt_usb ?evs (make_ring prompt_usb []) = (out, r, w1)"
    by (metis prod.exhaust)
  have "ring_may prompt_usb ?evs (make_ring prompt_usb [])"
    by (simp add: prompt_ring in_flight_def RingSize_def nth_Cons split: prod.split)
  then show ?thesis
    using bulk_ring_hands_out_what_arrives [of prompt_usb "[]" "fst (make_ring prompt_usb [])"
        "snd (make_ring prompt_usb [])" ?evs out r w1] run
    by (simp add: arrived_def)
qed

theorem destroying_the_ring_witness:
  "destroy_ring prompt_usb (fst (make_ring prompt_usb [])) (snd (make_ring prompt_usb [])) \<noteq> None"
proof -
  let ?r = "fst (make_ring prompt_usb [])" and ?w = "snd (make_ring prompt_usb [])"
  have "snd (cancel_all prompt_usb ?r ?w) = [0..<8]"
    by code_simp
  moreover have "in_flight ?r = set [0..<8]"
    by (auto simp: prompt_ring in_flight_def RingSize_def)
  ultimately show ?thesis
    using destroying_the_ring_ends [of prompt_usb "[]" ?r ?w "[]" "[]" ?r ?w, OF _ _ _ prompt_completes]
    by auto
qed

end
