(* ===== verification/HostSession.thy ===== *)
theory HostSession
  imports HostGuarantees
begin

text \<open>
  A whole session of a host with a device: any sequence of operations of \<open>HostDevice\<close> on one link,
  with the sketch running in between.  The device stays in a sound state, and what the driver read
  when it connected stays true.
\<close>

section \<open>The description of the board never changes\<close>

lemma link_board_kept:
  assumes "link_ok b lt l" and "same_board s0 (link_fw l)"
  shows "length buf < 65536 \<Longrightarrow> same_board s0 (link_fw (snd (control_in (link_transport b A lt) code
      val index buf timeout l)))"
    and "same_board s0 (link_fw (snd (control_out (link_transport b A lt) code val index timeout l)))"
    and "same_board s0 (link_fw (advance b A l))"
proof -
  show adv: "same_board s0 (link_fw (advance b A l))"
    by (rule same_board_trans [OF assms(2) advance_board [OF assms(1)]])
  show "same_board s0 (link_fw (snd (control_in (link_transport b A lt) code val index buf timeout l)))"
    if "length buf < 65536"
  proof (cases "fits lt index")
    case True
    obtain reply s h where hi: "handle_in b A code index (of_nat (length buf))
        (link_fw (advance b A l)) (link_world (advance b A l)) = (reply, s, h)"
      by (metis prod.exhaust)
    show ?thesis
      using link_in [OF assms(1) True that hi] same_board_trans [OF adv handle_in_board [OF hi]]
      by simp
  next
    case False
    then show ?thesis
      using assms(2) by (simp add: link_misfit)
  qed
  show "same_board s0 (link_fw (snd (control_out (link_transport b A lt) code val index timeout l)))"
  proof (cases "fits lt index")
    case True
    obtain ok s where ho: "handle_out b code val index 0 (link_fw (advance b A l)) = (ok, s)"
      by (metis prod.exhaust)
    show ?thesis
      using link_out [OF assms(1) True ho] handle_out_board [of "link_fw (advance b A l)" b code val index 0]
        same_board_trans [OF adv] ho by simp
  next
    case False
    then show ?thesis
      using assms(2) by (simp add: link_misfit)
  qed
qed

interpretation linked: transport_contract "link_transport b A lt"
    "\<lambda>l. link_ok b lt l \<and> same_board s0 (link_fw l)"
  for b :: board and A :: "'h arduino" and lt :: LibusbTransport and s0 :: fw
proof
  fix w :: "'h link" and buf :: bytes and req val index timeout
  assume w: "link_ok b lt w \<and> same_board s0 (link_fw w)" "length buf < 65536"
  show "link_ok b lt (snd (control_in (link_transport b A lt) req val index buf timeout w)) \<and>
      same_board s0 (link_fw (snd (control_in (link_transport b A lt) req val index buf timeout w)))"
    using w link.in_keeps link_board_kept(1) by blast
next
  fix w w' :: "'h link" and buf buf' :: bytes and req val index timeout n
  assume "link_ok b lt w \<and> same_board s0 (link_fw w)" "length buf < 65536"
    "control_in (link_transport b A lt) req val index buf timeout w = (Inr (n, buf'), w')"
  then show "n \<le> length buf \<and> length buf' = length buf"
    using link.in_fits by blast
next
  fix w :: "'h link" and req val index timeout
  assume "link_ok b lt w \<and> same_board s0 (link_fw w)"
  then show "link_ok b lt (snd (control_out (link_transport b A lt) req val index timeout w)) \<and>
      same_board s0 (link_fw (snd (control_out (link_transport b A lt) req val index timeout w)))"
    using link.out_keeps link_board_kept(2) by blast
next
  fix w :: "'h link" and us
  assume w: "link_ok b lt w \<and> same_board s0 (link_fw w)"
  have "link_ok b lt (w\<lparr>link_clock := link_clock w + us * 1000\<rparr>)"
    "same_board s0 (link_fw (w\<lparr>link_clock := link_clock w + us * 1000\<rparr>))"
    using w by (simp_all add: link_ok_def)
  from link_board_kept(3) [OF this, of A] link.sleep_keeps [of b lt w A us] w
  show "link_ok b lt (sleep_for (link_transport b A lt) us w) \<and>
      same_board s0 (link_fw (sleep_for (link_transport b A lt) us w))"
    by (simp add: link_transport_def libusb_transport_def link_usb_def link_sleep_def)
next
  fix w :: "'h link"
  assume "link_ok b lt w \<and> same_board s0 (link_fw w)"
  then show "link_ok b lt (snd (steady_clock (link_transport b A lt) w)) \<and>
      same_board s0 (link_fw (snd (steady_clock (link_transport b A lt) w)))"
    by (simp add: link_transport_def libusb_transport_def link_usb_def)
qed

section \<open>The loops that may wait\<close>

context transport_contract
begin

lemma pop_step:
  "I w \<Longrightarrow> pop_events_once T d limit w = (res, w1) \<Longrightarrow> I w1"
  using io_keepsD [OF input_keeps(5), of w d limit] by simp

lemma drain_events_keeps:
  assumes "drain_events T d so_far lost w = Some r" and "I w"
  shows "I (snd r)"
proof -
  have "T' = T \<Longrightarrow> I w \<Longrightarrow> I (snd r)" if "drain_events T' d so_far lost w = Some r" for T'
    using that
  proof (induction T' d so_far lost w r rule: drain_events.raw_induct [rotated, consumes 1, case_names 1])
    case (1 f T' d so_far lost w r)
    obtain res w1 where pop: "pop_events_once T d 0 w = (res, w1)"
      by (metis prod.exhaust)
    then have "I w1"
      using pop_step 1(4) by blast
    then show ?case
      using 1 pop \<open>I w1\<close> by (cases r) (fastforce split: sum.splits if_splits)
  qed
  then show ?thesis
    using assms by blast
qed

lemma wait_until_keeps:
  assumes "wait_until T d deadline interval w = Some r" and "I w"
  shows "I (snd r)"
proof -
  have "T' = T \<Longrightarrow> I w \<Longrightarrow> I (snd r)" if "wait_until T' d deadline interval w = Some r" for T'
    using that
  proof (induction T' d deadline interval w r rule: wait_until.raw_induct [rotated, consumes 1, case_names 1])
    case (1 f T' d deadline interval w r)
    obtain res w1 where pop: "pop_events_once T d 1 w = (res, w1)"
      by (metis prod.exhaust)
    then have w1: "I w1"
      using pop_step 1(4) by blast
    obtain t w2 where clock: "steady_clock T w1 = (t, w2)"
      by (metis prod.exhaust)
    then have "I w2"
      using clock_keeps [OF w1] by simp
    then have "I (snd (pause T delay w2))" for delay
      by (rule io_keepsD [OF pause_keeps])
    then show ?case
      using 1 pop w1 clock \<open>I w2\<close> by (cases r) (fastforce split: sum.splits if_splits)
  qed
  then show ?thesis
    using assms by blast
qed

lemma poll_events_keeps: "poll_events T d w = Some r \<Longrightarrow> I w \<Longrightarrow> I (snd r)"
  using drain_events_keeps [of d "[]" 0]
  by (auto simp: poll_events_def io_bind_def check_not_streaming_def require_events_def require_def
      ret_def throw_def split: if_splits)

lemma wait_event_keeps: "wait_event T d timeout interval w = Some r \<Longrightarrow> I w \<Longrightarrow> I (snd r)"
  using wait_until_keeps clock_keeps [of w]
  by (auto simp: wait_event_def io_bind_def check_not_streaming_def require_events_def require_def
      ret_def throw_def split: if_splits prod.splits)

end

section \<open>Sessions\<close>

text \<open>
  One call of a public operation of \<open>Device\<close>, whether it returns or throws; the waiting calls are
  those that return, and between two calls the host may wait.
\<close>

inductive host_step :: "'t transport \<Rightarrow> device \<times> 't \<Rightarrow> device \<times> 't \<Rightarrow> bool" for T where
  pin_mode: "host_step T (d, w) (d, snd (pin_mode T d pin mode w))"
| digital_write: "host_step T (d, w) (d, snd (digital_write T d pin high w))"
| pwm_write: "host_step T (d, w) (d, snd (pwm_write T d pin duty w))"
| dac_write: "host_step T (d, w) (d, snd (dac_write T d pin code w))"
| digital_read: "host_step T (d, w) (d, snd (digital_read T d pin w))"
| analog_read: "host_step T (d, w) (d, snd (analog_read T d pin w))"
| read_all_digital: "host_step T (d, w) (d, snd (read_all_digital T d w))"
| read_all_analog: "host_step T (d, w) (d, snd (read_all_analog T d w))"
| status: "host_step T (d, w) (d, snd (status T d w))"
| sync: "host_step T (d, w) (d, snd (sync T d w))"
| read_time: "host_step T (d, w) (d, snd (read_time T d w))"
| configure_event: "host_step T (d, w) (d, snd (configure_event T d pin edge debounce w))"
| event_counts: "host_step T (d, w) (d, snd (event_counts T d w))"
| poll_events: "poll_events T d w = Some (r, w1) \<Longrightarrow> host_step T (d, w) (d, w1)"
| wait_event: "wait_event T d timeout interval w = Some (r, w1) \<Longrightarrow> host_step T (d, w) (d, w1)"
| reset: "reset T d w = (Inr d1, w1) \<Longrightarrow> host_step T (d, w) (d1, w1)"
| reset_throws: "reset T d w = (Inl e, w1) \<Longrightarrow> host_step T (d, w) (d, w1)"
| start_stream: "start_stream T d cfg w = (Inr (d1, us), w1) \<Longrightarrow> host_step T (d, w) (d1, w1)"
| start_throws: "start_stream T d cfg w = (Inl e, w1) \<Longrightarrow> host_step T (d, w) (d, w1)"
| poll_status: "host_step T (d, w) (d, snd (read_stream_status T (dev_options d) w))"
| idle: "host_step T (d, w) (d, snd (pause T delay w))"
| end_stream: "end_stream T d w = (Inr d1, w1) \<Longrightarrow> host_step T (d, w) (d1, w1)"

abbreviation host_session :: "'t transport \<Rightarrow> device \<times> 't \<Rightarrow> device \<times> 't \<Rightarrow> bool" where
  "host_session T \<equiv> (host_step T)\<^sup>*\<^sup>*"

text \<open>What a session never changes in the driver.\<close>

definition same_tables :: "device \<Rightarrow> device \<Rightarrow> bool" where
  "same_tables d d' \<longleftrightarrow> dev_options d' = dev_options d \<and> dev_info d' = dev_info d \<and>
     dev_caps d' = dev_caps d \<and> dev_analog_pins d' = dev_analog_pins d"

lemma host_step_tables: "host_step T (d, w) (d', w') \<Longrightarrow> same_tables d d'"
  by (erule host_step.cases)
    (auto simp: same_tables_def reset_def start_stream_def end_stream_def ret_def
      elim!: io_bind_InrE split: if_splits)

lemma io_keeps_result: "f w = (r, w1) \<Longrightarrow> io_keeps I f \<Longrightarrow> I w \<Longrightarrow> I w1"
  using io_keepsD [of I f w] by simp

context transport_contract
begin

lemma host_step_keeps: "host_step T (d, w) (d', w') \<Longrightarrow> I w \<Longrightarrow> I w'"
proof (erule host_step.cases)
qed (auto intro: io_keepsD output_keeps input_keeps read_all_keeps sync_keeps stream_parts_keep
      pause_keeps
    dest: poll_events_keeps wait_event_keeps io_keeps_result [OF _ output_keeps(5)]
      io_keeps_result [OF _ start_stream_keeps] io_keeps_result [OF _ stream_parts_keep(4)])

lemma session_keeps:
  assumes "host_session T (d, w) (d', w')" and "I w"
  shows "I w' \<and> same_tables d d'"
  using assms
proof (induction "(d', w')" arbitrary: d' w' rule: rtranclp_induct)
  case base
  then show ?case
    by (simp add: same_tables_def)
next
  case (step c)
  obtain d1 w1 where c: "c = (d1, w1)"
    by fastforce
  show ?case
    using step c host_step_keeps [of d1 w1 d' w'] host_step_tables [of T d1 w1 d' w']
    by (auto simp: same_tables_def)
qed

end

text \<open>C36. Once connected, a driver keeps a true picture of the device through any session, whatever it
  calls, whatever fails and whatever the sketch does meanwhile: the device stays in a sound state,
  and the description, the capability table and the list of analog pins the driver holds are the
  device's own.\<close>

theorem session_keeps_the_picture:
  assumes "link_ok b lt l" and "make_device (link_transport b A lt) opts l = (Inr d, l1)"
    and "host_session (link_transport b A lt) (d, l1) (d', l')"
  shows "link_ok b lt l' \<and> dev_info d' = device_info b (link_fw l') \<and>
    dev_caps d' = map (fw_caps (link_fw l')) (pins_below (fw_n_pins (link_fw l'))) \<and>
    dev_analog_pins d' = ain_pins (link_fw l')"
proof -
  let ?T = "link_transport b A lt" and ?s = "link_fw l"
  have d: "d = \<lparr>dev_options = opts, dev_info = device_info b ?s,
      dev_caps = map (fw_caps ?s) (pins_below (fw_n_pins ?s)), dev_analog_pins = ain_pins ?s,
      dev_streaming = False, dev_selected = []\<rparr>"
    using connected_device [OF assms(1), of A opts] assms(2) by (simp split: if_splits)
  have "link_ok b lt l1 \<and> same_board ?s (link_fw l1)"
    using io_keeps_result [OF assms(2) linked.make_device_keeps, of ?s] assms(1) by simp
  then have "(link_ok b lt l' \<and> same_board ?s (link_fw l')) \<and> same_tables d d'"
    using linked.session_keeps [OF assms(3), of ?s] by blast
  moreover have "ain_pins (link_fw l') = ain_pins ?s" if "same_board ?s (link_fw l')"
    using that by (simp add: ain_pins_def same_board_def)
  ultimately show ?thesis
    using same_info [of ?s "link_fw l'" b] by (simp add: d same_tables_def same_board_def)
qed

theorem session_witness:
  "(let l1 = snd (make_device bench_transport default_options (bench_link started [2, 1]));
        l2 = snd (digital_write bench_transport (bench_driver started) 3 True l1)
    in device_info bench_board (link_fw l2) = device_info bench_board (fst started))"
proof -
  let ?l = "bench_link started [2, 1]"
  obtain l1 where l1: "make_device bench_transport default_options ?l = (Inr (bench_driver started), l1)"
    using connected_device [OF started_link, of bench_arduino default_options "[2, 1]"]
    by (simp add: started_facts(2) bench_driver_def prod_eq_iff)
  have "host_session bench_transport (bench_driver started, l1)
      (bench_driver started, snd (digital_write bench_transport (bench_driver started) 3 True l1))"
    by (intro r_into_rtranclp host_step.digital_write)
  note picture = session_keeps_the_picture [OF started_link l1 this]
  have "dev_info (bench_driver started) = device_info bench_board (fst started)"
    by (simp add: bench_driver_def)
  then show ?thesis
    using picture unfolding l1 snd_conv Let_def by metis
qed

end
