(* ===== verification/HostEnumerator.thy ===== *)
theory HostEnumerator
  imports HostUsb
begin

text \<open>
  Finding the devices (\<open>extras/driver/src/Enumerator.cpp\<close>): which of the USB devices on the buses
  run the firmware, and opening one of them.  What libusb knows of a device that is not open (its
  bus, address and descriptors), the functions on it once it is open, and its string descriptors
  are the record \<open>libusb_device\<close>, a parameter; so is the list of devices of a context.  The texts of
  the exceptions are not modelled: \<open>probe_error\<close> holds the exception itself.
\<close>

section \<open>Classification\<close>

text \<open>The probe timeout is in milliseconds.\<close>

record EnumerateOptions =
  en_vid :: "u16 option"
  en_pid :: "u16 option"
  en_probe :: bool
  en_probe_timeout :: int

definition default_enumerate :: EnumerateOptions where
  "default_enumerate = \<lparr>en_vid = None, en_pid = None, en_probe = True, en_probe_timeout = 100\<rparr>"

abbreviation (input) USBIO_VID_ARDUINO :: u16 where "USBIO_VID_ARDUINO \<equiv> 0x2341"
abbreviation (input) USBIO_VID_RASPBERRY_PI :: u16 where "USBIO_VID_RASPBERRY_PI \<equiv> 0x2E8A"
abbreviation (input) USBIO_VID_ESPRESSIF :: u16 where "USBIO_VID_ESPRESSIF \<equiv> 0x303A"

definition matches_filter :: "u16 \<Rightarrow> u16 \<Rightarrow> EnumerateOptions \<Rightarrow> bool" where
  "matches_filter vid pid options \<longleftrightarrow>
     (en_vid options = None \<or> en_vid options = Some vid) \<and>
     (en_pid options = None \<or> en_pid options = Some pid)"

definition is_probe_candidate :: "u16 \<Rightarrow> u16 \<Rightarrow> EnumerateOptions \<Rightarrow> bool" where
  "is_probe_candidate vid pid options \<longleftrightarrow>
     (if \<not> matches_filter vid pid options then False
      else if en_vid options \<noteq> None \<or> en_pid options \<noteq> None then True
      else vid = USBIO_VID_ARDUINO \<or> vid = USBIO_VID_RASPBERRY_PI \<or> vid = USBIO_VID_ESPRESSIF)"

definition keep_unprobed_candidate :: "int \<Rightarrow> bool" where
  "keep_unprobed_candidate libusb_code \<longleftrightarrow>
     libusb_code = LIBUSB_ERROR_ACCESS \<or> libusb_code = LIBUSB_ERROR_NOT_SUPPORTED \<or>
     libusb_code = LIBUSB_ERROR_BUSY"

section \<open>Devices and contexts\<close>

record device_descriptor =
  idVendor :: u16
  idProduct :: u16
  iManufacturer :: u8
  iProduct :: u8
  iSerialNumber :: u8

text \<open>
  \<open>descriptor\<close> is \<open>None\<close> when \<open>libusb_get_device_descriptor\<close> fails; \<open>string_descriptor_ascii\<close>
  returns the number of characters or an error, and the characters.
\<close>

record 't libusb_device =
  bus_number :: u8
  device_address :: u8
  descriptor :: "device_descriptor option"
  config_descriptor :: "configuration option"
  open_device_usb :: "'t libusb"
  string_descriptor_ascii :: "u8 \<Rightarrow> 't \<Rightarrow> (int \<times> string) \<times> 't"

record 't libusb_context =
  context_id :: nat
  get_device_list :: "'t \<Rightarrow> (int + 't libusb_device list) \<times> 't"

record 't DeviceInfo =
  di_vid :: u16
  di_pid :: u16
  di_bus :: u8
  di_address :: u8
  di_serial :: string
  di_manufacturer :: string
  di_product :: string
  di_identified :: bool
  di_has_vendor_interface :: bool
  di_interface_number :: "u8 option"
  di_info :: "usbio_info option"
  di_probe_error :: "error option"
  di_context :: "'t libusb_context option"
  di_device :: "'t libusb_device option"

section \<open>Probing\<close>

definition read_string :: "'t libusb_device \<Rightarrow> u8 \<Rightarrow> 't \<Rightarrow> string \<times> 't" where
  "read_string dev index w =
     (if index = 0 then ('''', w)
      else case string_descriptor_ascii dev index w of ((n, s), w1) \<Rightarrow>
        (if n \<le> 0 then '''' else take (nat n) s, w1))"

definition probe_info ::
  "'t libusb \<Rightarrow> LibusbTransport \<Rightarrow> EnumerateOptions \<Rightarrow> ('t, usbio_info) io"
where
  "probe_info U lt options =
     io_bind (libusb_control_in U lt (request_code USBIO_REQ_GET_INFO) 0 0 (replicate 24 0)
                (en_probe_timeout options)) (\<lambda>(n, reply).
       if n < 24 then throw ProtocolError else lift_result (decode_info reply))"

text \<open>
  \<open>probe\<close> fills the entry it is given as far as it gets, whether it returns or throws; its
  transport is closed on the way out.
\<close>

definition probe ::
  "'t libusb_device \<Rightarrow> device_descriptor \<Rightarrow> EnumerateOptions \<Rightarrow> 't DeviceInfo \<Rightarrow> 't \<Rightarrow>
   ((error + unit) \<times> 't DeviceInfo) \<times> 't"
where
  "probe dev desc options info w =
     (case open_libusb (open_device_usb dev) (config_descriptor dev) RecipientDevice True w of
        (Inl e, w1) \<Rightarrow> ((Inl e, info), w1)
      | (Inr lt, w1) \<Rightarrow>
          case read_string dev (iManufacturer desc) w1 of (manufacturer, w2) \<Rightarrow>
          case read_string dev (iProduct desc) w2 of (product, w3) \<Rightarrow>
          case read_string dev (iSerialNumber desc) w3 of (serial, w4) \<Rightarrow>
          let info1 = info\<lparr>di_manufacturer := manufacturer, di_product := product,
                           di_serial := serial\<rparr> in
          case probe_info (open_device_usb dev) lt options w4 of (r, w5) \<Rightarrow>
            ((case r of
                Inl e \<Rightarrow> (Inl e, info1)
              | Inr i \<Rightarrow> (Inr (), info1\<lparr>di_info := Some i\<rparr>)),
             give_back (open_device_usb dev) lt w5))"

section \<open>Listing\<close>

text \<open>What is known of a device before it is opened.\<close>

definition unprobed_entry :: "'t libusb_device \<Rightarrow> device_descriptor \<Rightarrow> 't DeviceInfo" where
  "unprobed_entry dev desc =
     (let itf = find_vendor_interface (read_interfaces (config_descriptor dev)) in
      \<lparr>di_vid = idVendor desc, di_pid = idProduct desc, di_bus = bus_number dev,
       di_address = device_address dev, di_serial = '''', di_manufacturer = '''', di_product = '''',
       di_identified = itf \<noteq> None, di_has_vendor_interface = itf \<noteq> None,
       di_interface_number = itf, di_info = None, di_probe_error = None, di_context = None,
       di_device = None\<rparr>)"

text \<open>One round of the loop of \<open>list_devices\<close>: the entry to append, if any.\<close>

definition list_device ::
  "'t libusb_context \<Rightarrow> EnumerateOptions \<Rightarrow> 't libusb_device \<Rightarrow> ('t, 't DeviceInfo option) io"
where
  "list_device ctx options dev =
     (case descriptor dev of
        None \<Rightarrow> ret None
      | Some desc \<Rightarrow>
          if \<not> matches_filter (idVendor desc) (idProduct desc) options then ret None
          else let info = unprobed_entry dev desc;
                   complete = (\<lambda>info. info\<lparr>di_context := Some ctx, di_device := Some dev\<rparr>) in
            if \<not> di_identified info \<and>
               \<not> (en_probe options \<and> is_probe_candidate (idVendor desc) (idProduct desc) options)
            then ret None
            else if \<not> en_probe options then ret (Some (complete info))
            else (\<lambda>w. case probe dev desc options info w of
                ((Inr _, info1), w1) \<Rightarrow> (Inr (Some (complete (info1\<lparr>di_identified := True\<rparr>))), w1)
              | ((Inl e, info1), w1) \<Rightarrow>
                  if \<not> is_Error e then (Inl e, w1)
                  else if di_has_vendor_interface info1 \<or>
                       (case usb_error_code e of None \<Rightarrow> False | Some c \<Rightarrow> keep_unprobed_candidate c)
                  then (Inr (Some (complete (info1\<lparr>di_probe_error := Some e\<rparr>))), w1)
                  else (Inr None, w1)))"

primrec list_loop ::
  "'t libusb_context \<Rightarrow> EnumerateOptions \<Rightarrow> 't libusb_device list \<Rightarrow> ('t, 't DeviceInfo list) io"
where
  "list_loop ctx options [] = ret []"
| "list_loop ctx options (dev # devs) =
     io_bind (list_device ctx options dev) (\<lambda>entry.
     io_bind (list_loop ctx options devs) (\<lambda>found.
       ret (case entry of None \<Rightarrow> found | Some info \<Rightarrow> info # found)))"

definition device_list :: "'t libusb_context \<Rightarrow> ('t, 't libusb_device list) io" where
  "device_list ctx w =
     (case get_device_list ctx w of
        (Inl count, w1) \<Rightarrow> (Inl (throw_usb_error count), w1)
      | (Inr devices, w1) \<Rightarrow> (Inr devices, w1))"

definition list_devices ::
  "'t libusb_context option \<Rightarrow> EnumerateOptions \<Rightarrow> ('t, 't DeviceInfo list) io"
where
  "list_devices context options =
     (case context of
        None \<Rightarrow> throw invalid_argument
      | Some ctx \<Rightarrow> io_bind (device_list ctx) (list_loop ctx options))"

section \<open>Opening\<close>

definition find_device ::
  "'t libusb_context \<Rightarrow> 't DeviceInfo \<Rightarrow> ('t, 't libusb_device) io"
where
  "find_device ctx info =
     io_bind (device_list ctx) (\<lambda>devices.
       case find (\<lambda>dev. bus_number dev = di_bus info \<and> device_address dev = di_address info \<and>
                 (case descriptor dev of
                    None \<Rightarrow> False
                  | Some desc \<Rightarrow> idVendor desc = di_vid info \<and> idProduct desc = di_pid info)) devices of
         None \<Rightarrow> throw DeviceNotFound
       | Some dev \<Rightarrow> ret dev)"

record LibusbTransportOptions =
  lto_recipient :: recipient
  lto_claim_interface :: bool

definition default_transport_options :: LibusbTransportOptions where
  "default_transport_options = \<lparr>lto_recipient = RecipientDevice, lto_claim_interface = True\<rparr>"

text \<open>
  \<open>open_transport\<close> returns the transport with the device it is open on; \<open>open_device\<close> the driver
  with its transport, which is closed again when the driver's constructor throws.
\<close>

definition open_transport ::
  "'t libusb_context option \<Rightarrow> 't DeviceInfo \<Rightarrow> LibusbTransportOptions \<Rightarrow>
   ('t, 't libusb_device \<times> LibusbTransport) io"
where
  "open_transport context info options =
     (case context of
        None \<Rightarrow> throw invalid_argument
      | Some ctx \<Rightarrow>
          io_bind (case (di_device info, di_context info) of
                (Some dev, Some own) \<Rightarrow>
                  if context_id own = context_id ctx then ret dev else find_device ctx info
              | _ \<Rightarrow> find_device ctx info) (\<lambda>dev.
          io_bind (open_libusb (open_device_usb dev) (config_descriptor dev)
                (lto_recipient options) (lto_claim_interface options)) (\<lambda>lt. ret (dev, lt))))"

definition open_device ::
  "'t DeviceInfo \<Rightarrow> DeviceOptions \<Rightarrow> LibusbTransportOptions \<Rightarrow> ('t, device \<times> 't transport) io"
where
  "open_device info device_options transport_options =
     (if di_context info = None then throw invalid_argument
      else io_bind (open_transport (di_context info) info transport_options) (\<lambda>(dev, lt) w.
        let T = libusb_transport (open_device_usb dev) lt in
        case make_device T device_options w of
          (Inl e, w1) \<Rightarrow> (Inl e, give_back (open_device_usb dev) lt w1)
        | (Inr d, w1) \<Rightarrow> (Inr (d, T), w1)))"

definition open_first ::
  "'t libusb_context option \<Rightarrow> EnumerateOptions \<Rightarrow> DeviceOptions \<Rightarrow> LibusbTransportOptions \<Rightarrow>
   ('t, device \<times> 't transport) io"
where
  "open_first context enumerate_options device_options transport_options =
     io_bind (list_devices context enumerate_options) (\<lambda>devices.
       case find di_identified devices of
         Some info \<Rightarrow> open_device info device_options transport_options
       | None \<Rightarrow> throw DeviceNotFound)"

definition open_by_serial ::
  "'t libusb_context option \<Rightarrow> string \<Rightarrow> EnumerateOptions \<Rightarrow> DeviceOptions \<Rightarrow>
   LibusbTransportOptions \<Rightarrow> ('t, device \<times> 't transport) io"
where
  "open_by_serial context serial enumerate_options device_options transport_options =
     io_bind (list_devices context enumerate_options) (\<lambda>devices.
       case find (\<lambda>info. di_identified info \<and> di_serial info = serial) devices of
         Some info \<Rightarrow> open_device info device_options transport_options
       | None \<Rightarrow> throw DeviceNotFound)"

end
