(* ===== verification/HostDiscovery.thy ===== *)
theory HostDiscovery
  imports HostEnumerator HostGuarantees "HOL-Library.Sublist"
begin

text \<open>
  What \<open>list_devices\<close> promises on any bus, and how a board is found and opened over the link of
  \<open>HostLink\<close>.
\<close>

section \<open>Listing never fails for one device's sake\<close>

lemma throw_usb_error_is_Error: "is_Error (throw_usb_error code)"
  by (simp add: throw_usb_error_def)

lemma open_libusb_result:
  "open_libusb U cfg rcp claim w = (Inr lt, w1) \<Longrightarrow> lt_recipient lt = rcp"
  "open_libusb U cfg rcp claim w = (Inl e, w1) \<Longrightarrow> is_Error e"
  by (auto simp: open_libusb_def Let_def io_bind_def require_def ret_def throw_def
      throw_usb_error_is_Error split: if_splits option.splits prod.splits)

lemma transfer_throws:
  "transfer U bm req val index data timeout w = (Inl e, w1) \<Longrightarrow> length data \<le> 0xFFFF \<Longrightarrow> is_Error e"
  by (auto simp: transfer_def Let_def throw_usb_error_is_Error split: if_splits prod.splits)

lemma decode_info_throws: "decode_info bs = Inl e \<Longrightarrow> is_Error e"
  by (auto simp: decode_info_def split: if_splits)

lemma probe_info_throws:
  assumes "probe_info U lt options w = (Inl e, w1)" and "lt_recipient lt = RecipientDevice"
  shows "is_Error e"
proof (cases "transfer U (bm_request_type False RecipientDevice) (request_code USBIO_REQ_GET_INFO)
    0 0 (replicate 24 0) (en_probe_timeout options) w")
  case (Pair r w2)
  then show ?thesis
    using assms decode_info_throws
    by (cases r) (auto simp: probe_info_def libusb_control_in_def wire_index_def io_bind_def
        lift_result_def throw_def dest: transfer_throws split: if_splits)
qed

lemma probe_result:
  assumes "probe dev desc options info w = ((r, info1), w1)"
  shows "info1 = info\<lparr>di_manufacturer := di_manufacturer info1, di_product := di_product info1,
        di_serial := di_serial info1, di_info := di_info info1\<rparr>"
    and "r = Inr u \<Longrightarrow> di_info info1 \<noteq> None"
    and "r = Inl e \<Longrightarrow> is_Error e \<and> di_info info1 = di_info info"
  using assms
  by (auto simp: probe_def Let_def split: sum.splits prod.splits
      dest: open_libusb_result probe_info_throws)

text \<open>A device the filter lets through, and one that carries the vendor interface.\<close>

definition passes :: "EnumerateOptions \<Rightarrow> 't libusb_device \<Rightarrow> bool" where
  "passes options dev \<longleftrightarrow> (case descriptor dev of
     None \<Rightarrow> False | Some desc \<Rightarrow> matches_filter (idVendor desc) (idProduct desc) options)"

definition carries_interface :: "'t libusb_device \<Rightarrow> bool" where
  "carries_interface dev \<longleftrightarrow>
     find_vendor_interface (read_interfaces (config_descriptor dev)) \<noteq> None"

text \<open>
  What an entry says of its device: it is identified when the device carries the interface or has
  answered GET_INFO, and otherwise the device could not be opened.
\<close>

definition sound_entry ::
  "'t libusb_context \<Rightarrow> EnumerateOptions \<Rightarrow> 't libusb_device \<Rightarrow> 't DeviceInfo \<Rightarrow> bool"
where
  "sound_entry ctx options dev info \<longleftrightarrow>
     di_context info = Some ctx \<and> di_device info = Some dev \<and> passes options dev \<and>
     di_bus info = bus_number dev \<and> di_address info = device_address dev \<and>
     di_has_vendor_interface info = carries_interface dev \<and>
     di_identified info = (carries_interface dev \<or> di_info info \<noteq> None) \<and>
     (di_identified info \<or>
       (case di_probe_error info of
          None \<Rightarrow> False
        | Some e \<Rightarrow> (case usb_error_code e of None \<Rightarrow> False | Some c \<Rightarrow> keep_unprobed_candidate c)))"

lemma list_device_result:
  obtains entry w1 where "list_device ctx options dev w = (Inr entry, w1)"
    and "case entry of None \<Rightarrow> \<not> (passes options dev \<and> carries_interface dev)
       | Some info \<Rightarrow> sound_entry ctx options dev info"
proof (cases "descriptor dev")
  case None
  then show ?thesis
    by (intro that [of None w]) (simp_all add: list_device_def ret_def passes_def)
next
  case (Some desc)
  let ?info = "unprobed_entry dev desc"
  have identified: "di_identified ?info = carries_interface dev"
    by (simp add: unprobed_entry_def Let_def carries_interface_def)
  consider (filtered) "\<not> matches_filter (idVendor desc) (idProduct desc) options"
    | (other) "matches_filter (idVendor desc) (idProduct desc) options" "\<not> carries_interface dev"
        "\<not> (en_probe options \<and> is_probe_candidate (idVendor desc) (idProduct desc) options)"
    | (unprobed) "passes options dev" "carries_interface dev" "\<not> en_probe options"
    | (probed) "passes options dev" "en_probe options"
        "carries_interface dev \<or> is_probe_candidate (idVendor desc) (idProduct desc) options"
    using Some by (auto simp: passes_def)
  then show ?thesis
  proof cases
    case filtered
    then show ?thesis
      using Some by (intro that [of None w]) (simp_all add: list_device_def ret_def passes_def)
  next
    case other
    then show ?thesis
      using Some identified
      by (intro that [of None w]) (simp_all add: list_device_def ret_def passes_def Let_def)
  next
    case unprobed
    then show ?thesis
      using Some identified
      by (intro that [of "Some (?info\<lparr>di_context := Some ctx, di_device := Some dev\<rparr>)" w])
        (auto simp: list_device_def ret_def passes_def Let_def sound_entry_def unprobed_entry_def
          carries_interface_def)
  next
    case probed
    obtain r info1 w1 where run: "probe dev desc options ?info w = ((r, info1), w1)"
      by (metis prod.exhaust)
    note kept = probe_result(1) [OF run]
    have fields: "di_has_vendor_interface info1 = carries_interface dev"
      "di_identified info1 = carries_interface dev" "di_bus info1 = bus_number dev"
      "di_address info1 = device_address dev" "di_probe_error info1 = None"
      by (subst kept, simp add: unprobed_entry_def Let_def carries_interface_def)+
    show ?thesis
    proof (cases r)
      case (Inr u)
      then show ?thesis
        using Some probed identified run fields probe_result(2) [OF run, of "()"]
        by (intro that [of "Some (info1\<lparr>di_identified := True, di_context := Some ctx,
              di_device := Some dev\<rparr>)" w1])
          (auto simp: list_device_def passes_def Let_def sound_entry_def)
    next
      case (Inl e)
      have e: "is_Error e" "di_info info1 = None"
        using probe_result(3) [OF run Inl] by (simp_all add: unprobed_entry_def Let_def)
      show ?thesis
      proof (cases "carries_interface dev \<or>
          (case usb_error_code e of None \<Rightarrow> False | Some c \<Rightarrow> keep_unprobed_candidate c)")
        case True
        then show ?thesis
          using Some probed identified run fields Inl e
          by (intro that [of "Some (info1\<lparr>di_probe_error := Some e, di_context := Some ctx,
                di_device := Some dev\<rparr>)" w1])
            (auto simp: list_device_def passes_def Let_def sound_entry_def)
      next
        case False
        then show ?thesis
          using Some probed identified run fields Inl e
          by (intro that [of None w1]) (auto simp: list_device_def passes_def Let_def)
      qed
    qed
  qed
qed

lemma list_loop_result:
  obtains found w1 where "list_loop ctx options devs w = (Inr found, w1)"
    and "subseq (map di_device found) (map Some devs)"
    and "\<forall>info \<in> set found. \<exists>dev \<in> set devs. sound_entry ctx options dev info"
    and "\<forall>dev \<in> set devs. passes options dev \<and> carries_interface dev \<longrightarrow>
           Some dev \<in> di_device ` set found"
proof (induction devs arbitrary: w thesis)
  case Nil
  then show ?case
    by (simp add: ret_def)
next
  case (Cons dev devs)
  obtain entry w1 where one: "list_device ctx options dev w = (Inr entry, w1)"
    and entry: "case entry of None \<Rightarrow> \<not> (passes options dev \<and> carries_interface dev)
       | Some info \<Rightarrow> sound_entry ctx options dev info"
    by (rule list_device_result)
  obtain found w2 where rest: "list_loop ctx options devs w1 = (Inr found, w2)"
    "subseq (map di_device found) (map Some devs)"
    "\<forall>info \<in> set found. \<exists>dev \<in> set devs. sound_entry ctx options dev info"
    "\<forall>dev \<in> set devs. passes options dev \<and> carries_interface dev \<longrightarrow>
       Some dev \<in> di_device ` set found"
    by (rule Cons.IH)
  have run: "list_loop ctx options (dev # devs) w =
      (Inr (case entry of None \<Rightarrow> found | Some info \<Rightarrow> info # found), w2)"
    by (simp add: io_bind_def one rest(1) ret_def)
  show ?case
  proof (cases entry)
    case None
    then show ?thesis
      using run rest entry by (intro Cons.prems) auto
  next
    case (Some info)
    then have se: "sound_entry ctx options dev info"
      using entry by simp
    then have "di_device info = Some dev"
      by (simp add: sound_entry_def)
    then show ?thesis
      using run rest Some se by (intro Cons.prems) auto
  qed
qed

text \<open>C37. Listing fails only when the bus itself cannot be enumerated: whatever a device answers, it
  neither hides nor reorders the others.  Every entry passes the filter and is identified exactly
  when its device carries the vendor interface or has answered GET_INFO; the others could not be
  opened, for one of three reasons.  A device with the vendor interface that passes the filter is
  always listed.\<close>

theorem listed_devices_are_judged_alone:
  assumes "get_device_list ctx w = (Inr devs, w0)"
  shows "\<exists>found w1. list_devices (Some ctx) options w = (Inr found, w1) \<and>
    subseq (map di_device found) (map Some devs) \<and>
    (\<forall>info \<in> set found. \<exists>dev \<in> set devs. sound_entry ctx options dev info) \<and>
    (\<forall>dev \<in> set devs. passes options dev \<and> carries_interface dev \<longrightarrow>
       Some dev \<in> di_device ` set found)"
proof -
  obtain found w1 where "list_loop ctx options devs w0 = (Inr found, w1)"
    "subseq (map di_device found) (map Some devs)"
    "\<forall>info \<in> set found. \<exists>dev \<in> set devs. sound_entry ctx options dev info"
    "\<forall>dev \<in> set devs. passes options dev \<and> carries_interface dev \<longrightarrow>
       Some dev \<in> di_device ` set found"
    by (rule list_loop_result)
  moreover from this have "list_devices (Some ctx) options w = (Inr found, w1)"
    using assms by (simp add: list_devices_def device_list_def io_bind_def)
  ultimately show ?thesis
    by blast
qed

section \<open>A bus with a board on it\<close>

text \<open>The transport \<open>open_libusb\<close> makes on the link.\<close>

definition opened_as :: "'t libusb_device \<Rightarrow> LibusbTransportOptions \<Rightarrow> LibusbTransport" where
  "opened_as dev options =
     (let itf = find_vendor_interface (read_interfaces (config_descriptor dev)) in
      \<lparr>lt_recipient = lto_recipient options, lt_interface = itf,
       lt_bulk_in = (case itf of None \<Rightarrow> None | Some n \<Rightarrow> find_bulk_in_endpoint (config_descriptor dev) n),
       lt_claimed = (itf \<noteq> None \<and> lto_claim_interface options)\<rparr>)"

lemma open_over_link:
  assumes "open_device_usb dev = link_usb b A"
    and "lto_recipient options = RecipientInterface \<longrightarrow> carries_interface dev"
  shows "open_libusb (open_device_usb dev) (config_descriptor dev) (lto_recipient options)
    (lto_claim_interface options) l = (Inr (opened_as dev options), l)"
  using assms
  by (auto simp: open_libusb_def opened_as_def carries_interface_def Let_def io_bind_def require_def
      ret_def link_usb_def split: option.split)

lemma probe_over_link:
  assumes "link_ok b lt l" and "lt_recipient lt = RecipientDevice"
  shows "probe_info (link_usb b A) lt options l = (Inr (device_info b (link_fw l)), advance b A l)"
proof -
  let ?l = "advance b A l"
  have reply: "handle_in b A (request_code USBIO_REQ_GET_INFO) 0 (of_nat (length (replicate 24 (0 :: u8))))
      (link_fw ?l) (link_world ?l) = (Some (reply_info b (link_fw ?l)), link_fw ?l, link_world ?l)"
    by (simp add: handle_in_def in_reply_def reply_info_def del: request_code.simps)
  have "libusb_control_in (link_usb b A) lt (request_code USBIO_REQ_GET_INFO) 0 0 (replicate 24 0)
      (en_probe_timeout options) l = (Inr (24, reply_info b (link_fw ?l)), ?l)"
    using link_in [OF assms(1) _ _ reply, of 0 "en_probe_timeout options"]
    by (simp add: fits_def link_transport_def libusb_transport_def memcpy_all reply_info_def)
  moreover have "device_info b (link_fw ?l) = device_info b (link_fw l)"
    by (rule same_info [OF advance_board [OF assms(1)]])
  ultimately show ?thesis
    by (simp add: probe_info_def io_bind_def lift_result_def reply_info_def decode_info_bytes)
qed

text \<open>Devices the filter rejects are not touched.\<close>

lemma io_bind_then_ret: "io_bind m ret = m"
  by (rule ext) (simp add: io_bind_def ret_def split: prod.split sum.split)

lemma list_loop_filter:
  "list_loop ctx options devs = list_loop ctx options (filter (passes options) devs)"
proof (induction devs)
  case (Cons dev devs)
  have "list_device ctx options dev = ret None" if "\<not> passes options dev"
    using that by (simp add: list_device_def passes_def split: option.splits)
  then show ?case
    using Cons by (simp add: io_bind_then_ret)
qed simp

text \<open>A board of this repository on a bus: its strings are read without disturbing it.\<close>

definition board_on_bus ::
  "board \<Rightarrow> 'h arduino \<Rightarrow> (u8 \<Rightarrow> string) \<Rightarrow> 'h link libusb_device \<Rightarrow> bool"
where
  "board_on_bus b A strings dev \<longleftrightarrow> open_device_usb dev = link_usb b A \<and>
     (\<forall>i l. string_descriptor_ascii dev i l = ((int (length (strings i)), strings i), l))"

lemma read_string_over_link:
  "board_on_bus b A strings dev \<Longrightarrow>
     read_string dev i l = (if i = 0 then '''' else strings i, l)"
  by (auto simp: read_string_def board_on_bus_def)

text \<open>The serial number the device reports.\<close>

definition serial_of :: "(u8 \<Rightarrow> string) \<Rightarrow> 't libusb_device \<Rightarrow> string" where
  "serial_of strings dev =
     (let i = iSerialNumber (the (descriptor dev)) in if i = 0 then '''' else strings i)"

definition candidate :: "EnumerateOptions \<Rightarrow> 't libusb_device \<Rightarrow> bool" where
  "candidate options dev \<longleftrightarrow> en_probe options \<and> (case descriptor dev of
     None \<Rightarrow> False
   | Some desc \<Rightarrow> is_probe_candidate (idVendor desc) (idProduct desc) options)"

lemma list_board:
  assumes "link_ok b lt l" and "board_on_bus b A strings dev" and "passes options dev"
    and "carries_interface dev \<or> candidate options dev"
  obtains info l1 where "list_device ctx options dev l = (Inr (Some info), l1)"
    and "link_ok b lt l1" and "same_board (link_fw l) (link_fw l1)"
    and "di_identified info" and "di_device info = Some dev" and "di_context info = Some ctx"
    and "di_serial info = (if en_probe options then serial_of strings dev else '''')"
    and "l1 = (if en_probe options then advance b A l else l)"
proof -
  obtain desc where desc: "descriptor dev = Some desc"
      "matches_filter (idVendor desc) (idProduct desc) options"
    using assms(3) by (auto simp: passes_def split: option.splits)
  let ?info = "unprobed_entry dev desc"
  have identified: "di_identified ?info = carries_interface dev"
    by (simp add: unprobed_entry_def Let_def carries_interface_def)
  show ?thesis
  proof (cases "en_probe options")
    case False
    then have "carries_interface dev"
      using assms(4) by (simp add: candidate_def)
    then show ?thesis
      using False desc identified assms(1)
      by (intro that [of "?info\<lparr>di_context := Some ctx, di_device := Some dev\<rparr>" l])
        (auto simp: list_device_def ret_def Let_def unprobed_entry_def)
  next
    case True
    let ?lt = "opened_as dev default_transport_options"
    have usb: "open_device_usb dev = link_usb b A"
      using assms(2) by (simp add: board_on_bus_def)
    have opened: "open_libusb (link_usb b A) (config_descriptor dev) RecipientDevice True l =
        (Inr ?lt, l)"
      using open_over_link [OF usb, of default_transport_options l] usb
      by (simp add: default_transport_options_def)
    have "link_ok b ?lt l"
      using assms(1) by (simp add: link_ok_def opened_as_def default_transport_options_def Let_def)
    from probe_over_link [OF this, of A options]
    have answer: "probe_info (link_usb b A) ?lt options l = (Inr (device_info b (link_fw l)), advance b A l)"
      by (simp add: opened_as_def default_transport_options_def Let_def)
    have closed: "give_back (link_usb b A) ?lt l' = l'" for l'
      by (simp add: give_back_def link_usb_def)
    obtain info1 where probed: "probe dev desc options ?info l = ((Inr (), info1), advance b A l)"
      "di_serial info1 = serial_of strings dev"
      using read_string_over_link [OF assms(2)] desc(1)
      by (simp add: probe_def Let_def usb opened answer closed serial_of_def)
    have go: "carries_interface dev \<or> is_probe_candidate (idVendor desc) (idProduct desc) options"
      using assms(4) desc(1) by (auto simp: candidate_def)
    show ?thesis
    proof (rule that)
      show "list_device ctx options dev l = (Inr (Some (info1\<lparr>di_identified := True,
          di_context := Some ctx, di_device := Some dev\<rparr>)), advance b A l)"
        using probed(1) desc go identified True by (auto simp: list_device_def Let_def)
    qed (use advance_ok(1) [OF assms(1)] advance_board [OF assms(1)] probed(2) True in simp_all)
  qed
qed

lemma open_listed_board:
  assumes "link_ok b (opened_as dev topts) l" and "board_on_bus b A strings dev"
    and "di_device info = Some dev" and "di_context info = Some ctx"
  shows "fst (open_device info dopts topts l) =
    (if fw_n_pins (link_fw l) = 0 then Inl NotReady
     else Inr (\<lparr>dev_options = dopts, dev_info = device_info b (link_fw l),
       dev_caps = map (fw_caps (link_fw l)) (pins_below (fw_n_pins (link_fw l))),
       dev_analog_pins = ain_pins (link_fw l), dev_streaming = False, dev_selected = []\<rparr>,
       link_transport b A (opened_as dev topts)))"
proof -
  have usb: "open_device_usb dev = link_usb b A"
    using assms(2) by (simp add: board_on_bus_def)
  have "lto_recipient topts = RecipientInterface \<longrightarrow> carries_interface dev"
    using assms(1) by (auto simp: link_ok_def opened_as_def Let_def carries_interface_def)
  from open_over_link [OF usb this]
  have "open_transport (di_context info) info topts l = (Inr (dev, opened_as dev topts), l)"
    using assms(3,4) by (simp add: open_transport_def io_bind_def ret_def)
  moreover obtain r l1 where make: "make_device (link_transport b A (opened_as dev topts)) dopts l = (r, l1)"
    by (metis prod.exhaust)
  ultimately show ?thesis
    using connected_device [OF assms(1), of A dopts] assms(4) usb
    by (cases r) (auto simp: open_device_def io_bind_def Let_def link_transport_def split: if_splits)
qed

text \<open>C38. A board that is the only device on the bus to pass the filter is found and opened, by its
  interface or, without one, by its answer to GET_INFO: \<open>open_first\<close> returns the driver that mirrors
  it, on the transport the options ask for, or \<open>NotReady\<close> before \<open>begin()\<close>.  \<open>open_by_serial\<close> does
  the same for the serial number the board reports and finds nothing for any other.\<close>

theorem the_board_on_the_bus_is_opened:
  assumes "link_ok b (opened_as dev topts) l" and "board_on_bus b A strings dev"
    and "get_device_list ctx l = (Inr devs, l)" and "filter (passes options) devs = [dev]"
    and "carries_interface dev \<or> candidate options dev"
  shows "fst (open_first (Some ctx) options dopts topts l) =
      (if fw_n_pins (link_fw l) = 0 then Inl NotReady
       else Inr (\<lparr>dev_options = dopts, dev_info = device_info b (link_fw l),
         dev_caps = map (fw_caps (link_fw l)) (pins_below (fw_n_pins (link_fw l))),
         dev_analog_pins = ain_pins (link_fw l), dev_streaming = False, dev_selected = []\<rparr>,
         link_transport b A (opened_as dev topts))) \<and>
    (en_probe options \<longrightarrow>
      fst (open_by_serial (Some ctx) serial options dopts topts l) =
        (if serial = serial_of strings dev then fst (open_first (Some ctx) options dopts topts l)
         else Inl DeviceNotFound))"
proof -
  have "passes options dev"
    using assms(4) by (metis filter_eq_ConsD)
  from list_board [OF assms(1,2) this assms(5), of ctx]
  obtain info l1 where info: "list_device ctx options dev l = (Inr (Some info), l1)"
    "link_ok b (opened_as dev topts) l1" "same_board (link_fw l) (link_fw l1)"
    "di_identified info" "di_device info = Some dev" "di_context info = Some ctx"
    "di_serial info = (if en_probe options then serial_of strings dev else '''')" by blast
  have listed: "list_devices (Some ctx) options l = (Inr [info], l1)"
    using assms(3,4) info(1) list_loop_filter [of ctx options devs]
    by (simp add: list_devices_def device_list_def io_bind_def ret_def)
  have opened: "fst (open_device info dopts topts l1) =
    (if fw_n_pins (link_fw l) = 0 then Inl NotReady
     else Inr (\<lparr>dev_options = dopts, dev_info = device_info b (link_fw l),
       dev_caps = map (fw_caps (link_fw l)) (pins_below (fw_n_pins (link_fw l))),
       dev_analog_pins = ain_pins (link_fw l), dev_streaming = False, dev_selected = []\<rparr>,
       link_transport b A (opened_as dev topts)))"
    using open_listed_board [OF info(2) assms(2) info(5,6), of dopts] info(3)
      same_info [OF info(3), of b] by (simp add: same_board_def ain_pins_def)
  then show ?thesis
    using info(4,7) by (auto simp: open_first_def open_by_serial_def io_bind_def listed throw_def)
qed

section \<open>The bench on a bus\<close>

text \<open>The board of the bench behind its vendor interface, and a keyboard the filter does not know.\<close>

definition bench_device :: "bench link libusb_device" where
  "bench_device = \<lparr>bus_number = 1, device_address = 7,
     descriptor = Some \<lparr>idVendor = 0x2341, idProduct = 0x0070, iManufacturer = 1, iProduct = 2,
       iSerialNumber = 3\<rparr>,
     config_descriptor = Some [[(\<lparr>itf_number = 2, itf_class = 0xFF, itf_subclass = 0x49,
       itf_protocol = 0x4F\<rparr>, [])]],
     open_device_usb = link_usb bench_board bench_arduino,
     string_descriptor_ascii = (\<lambda>i l. if i = 3 then ((5, ''B1C2D''), l) else ((2, ''IO''), l))\<rparr>"

definition bench_keyboard :: "bench link libusb_device" where
  "bench_keyboard = bench_device\<lparr>device_address := 3, config_descriptor := None,
     descriptor := Some \<lparr>idVendor = 0x046D, idProduct = 0xC31C, iManufacturer = 1, iProduct = 2,
       iSerialNumber = 0\<rparr>\<rparr>"

definition bench_context :: "bench link libusb_context" where
  "bench_context = \<lparr>context_id = 0, get_device_list = (\<lambda>l. (Inr [bench_keyboard, bench_device], l))\<rparr>"

definition only_arduino :: EnumerateOptions where
  "only_arduino = default_enumerate\<lparr>en_vid := Some 0x2341\<rparr>"

lemma bench_device_facts:
  "passes options bench_device = matches_filter 0x2341 0x0070 options"
  "carries_interface bench_device"
  "board_on_bus bench_board bench_arduino (\<lambda>i. if i = 3 then ''B1C2D'' else ''IO'') bench_device"
  "serial_of (\<lambda>i. if i = 3 then ''B1C2D'' else ''IO'') bench_device = ''B1C2D''"
  "filter (passes only_arduino) [bench_keyboard, bench_device] = [bench_device]"
  "link_ok bench_board (opened_as bench_device default_transport_options) (bench_link started sched)"
  using started_link [of sched]
  by (simp_all add: bench_device_def bench_keyboard_def passes_def carries_interface_def board_on_bus_def
      serial_of_def only_arduino_def default_enumerate_def matches_filter_def find_vendor_interface_def
      read_interfaces_def opened_as_def default_transport_options_def link_ok_def Let_def)

theorem listed_devices_witness:
  "\<exists>found w1. list_devices (Some bench_context) default_enumerate (bench_link started [1]) =
      (Inr found, w1) \<and> Some bench_device \<in> di_device ` set found"
proof -
  have bus: "get_device_list bench_context (bench_link started [1]) =
      (Inr [bench_keyboard, bench_device], bench_link started [1])"
    by (simp add: bench_context_def)
  have "passes default_enumerate bench_device"
    by (simp add: bench_device_facts(1) matches_filter_def default_enumerate_def)
  then show ?thesis
    using listed_devices_are_judged_alone [OF bus, of default_enumerate] bench_device_facts(2)
    by fastforce
qed

theorem the_board_on_the_bus_witness:
  "fst (open_first (Some bench_context) only_arduino default_options default_transport_options
      (bench_link started [0, 1, 2])) =
    Inr (bench_driver started,
      link_transport bench_board bench_arduino (opened_as bench_device default_transport_options)) \<and>
   fst (open_by_serial (Some bench_context) ''ABC'' only_arduino default_options
      default_transport_options (bench_link started [0, 1, 2])) = Inl DeviceNotFound"
proof -
  have bus: "get_device_list bench_context (bench_link started [0, 1, 2]) =
      (Inr [bench_keyboard, bench_device], bench_link started [0, 1, 2])"
    by (simp add: bench_context_def)
  have probe: "en_probe only_arduino"
    by (simp add: only_arduino_def default_enumerate_def)
  note found = the_board_on_the_bus_is_opened [OF bench_device_facts(6) bench_device_facts(3) bus
      bench_device_facts(5) disjI1 [OF bench_device_facts(2)], of default_options "''ABC''"]
  show ?thesis
    using found started_facts(2) probe by (simp add: bench_device_facts(4) bench_driver_def)
qed

end
