(* ===== verification/HostWatcher.thy ===== *)
theory HostWatcher
  imports HostDevice
begin

text \<open>
  \<open>class EventWatcher\<close> (\<open>extras/driver/src/EventWatcher.cpp\<close>): it arms a list of pins, polls their
  events in a worker thread and hands each to a callback, and disarms the pins when it is stopped.

  Every operation on the device is one the caller could make; the worker is the sequence of its
  rounds, given the device as each round finds it, and other threads may act between two of
  them.  The callback is an operation that may throw.
\<close>

section \<open>Configuration and state\<close>

text \<open>The debounce time and the poll interval are in milliseconds.\<close>

record WatchedPin =
  wp_pin :: u8
  wp_edge :: u8
  wp_debounce :: int

record EventWatcherConfig =
  ew_pins :: "WatchedPin list"
  ew_poll_interval :: int

record EventWatcherStats =
  events_delivered :: u64
  events_dropped :: u64

record EventWatcher =
  ew_config :: EventWatcherConfig
  ew_stats :: EventWatcherStats
  ew_stop_requested :: bool
  ew_running :: bool
  ew_stop_once :: bool

section \<open>The worker\<close>

primrec deliver_events ::
  "(usbio_event \<Rightarrow> ('t, unit) io) option \<Rightarrow> usbio_event list \<Rightarrow> EventWatcherStats \<Rightarrow> 't \<Rightarrow>
   ((error + unit) \<times> EventWatcherStats) \<times> 't"
where
  "deliver_events callback [] stats w = ((Inr (), stats), w)"
| "deliver_events callback (e # es) stats w =
     (case (case callback of None \<Rightarrow> ret () | Some f \<Rightarrow> f e) w of
        (Inl x, w1) \<Rightarrow> ((Inl x, stats), w1)
      | (Inr _, w1) \<Rightarrow>
          deliver_events callback es (stats\<lparr>events_delivered := events_delivered stats + 1\<rparr>) w1)"

text \<open>
  The body of the loop of \<open>worker_main\<close>: an \<open>Error\<close> is caught, any other exception ends the thread
  (and the program).  \<open>None\<close> stands for not returning.
\<close>

definition watcher_round ::
  "'t transport \<Rightarrow> device \<Rightarrow> (usbio_event \<Rightarrow> ('t, unit) io) option \<Rightarrow> int \<Rightarrow> EventWatcherStats \<Rightarrow> 't \<Rightarrow>
   (((error + unit) \<times> EventWatcherStats) \<times> 't) option"
where
  "watcher_round T d callback interval stats w =
     map_option
       (\<lambda>(polled, w1). case (case polled of
             Inl e \<Rightarrow> ((Inl e, stats), w1)
           | Inr (es, dropped) \<Rightarrow>
               deliver_events callback es
                 (if dropped > 0 then stats\<lparr>events_dropped := events_dropped stats + ucast dropped\<rparr>
                  else stats) w1) of
          ((r, stats1), w2) \<Rightarrow>
            (case r of
               Inl e \<Rightarrow> if is_Error e then ((Inr (), stats1), snd (pause T (interval * 1000) w2))
                        else ((Inl e, stats1), w2)
             | Inr _ \<Rightarrow> ((Inr (), stats1), snd (pause T (interval * 1000) w2))))
       (poll_events T d w)"

text \<open>
  \<open>worker_main\<close>: one round for each element of \<open>ds\<close>, the device as the round finds it; then
  \<open>stop_requested\<close> is seen.
\<close>

primrec watcher_main ::
  "'t transport \<Rightarrow> (usbio_event \<Rightarrow> ('t, unit) io) option \<Rightarrow> device list \<Rightarrow> EventWatcher \<Rightarrow> 't \<Rightarrow>
   (((error + unit) \<times> EventWatcher) \<times> 't) option"
where
  "watcher_main T callback [] ew w = Some ((Inr (), ew\<lparr>ew_running := False\<rparr>), w)"
| "watcher_main T callback (d # ds) ew w =
     (case watcher_round T d callback (ew_poll_interval (ew_config ew)) (ew_stats ew) w of
        None \<Rightarrow> None
      | Some ((Inl e, stats), w1) \<Rightarrow> Some ((Inl e, ew\<lparr>ew_stats := stats\<rparr>), w1)
      | Some ((Inr _, stats), w1) \<Rightarrow> watcher_main T callback ds (ew\<lparr>ew_stats := stats\<rparr>) w1)"

section \<open>Construction and stop\<close>

definition disarm :: "'t transport \<Rightarrow> device \<Rightarrow> u8 \<Rightarrow> ('t, unit) io" where
  "disarm T d pin =
     io_catch (configure_event T d pin (edge_code USBIO_EDGE_OFF) 0) (\<lambda>_. ret ())"

text \<open>The loop that arms the pins, with the list \<open>armed\<close> it leaves when it stops.\<close>

primrec arm_pins ::
  "'t transport \<Rightarrow> device \<Rightarrow> WatchedPin list \<Rightarrow> u8 list \<Rightarrow> 't \<Rightarrow> ((error + unit) \<times> u8 list) \<times> 't"
where
  "arm_pins T d [] armed w = ((Inr (), armed), w)"
| "arm_pins T d (p # ps) armed w =
     (case configure_event T d (wp_pin p) (wp_edge p) (wp_debounce p) w of
        (Inl e, w1) \<Rightarrow> ((Inl e, armed), w1)
      | (Inr _, w1) \<Rightarrow> arm_pins T d ps (armed @ [wp_pin p]) w1)"

definition make_watcher ::
  "'t transport \<Rightarrow> device \<Rightarrow> EventWatcherConfig \<Rightarrow> ('t, EventWatcher) io"
where
  "make_watcher T d config =
     (if ew_pins config = [] then throw invalid_argument
      else (\<lambda>w. case arm_pins T d (ew_pins config) [] w of
          ((Inl e, armed), w1) \<Rightarrow> (Inl e, snd (io_each (disarm T d) (rev armed) w1))
        | ((Inr _, armed), w1) \<Rightarrow>
            (Inr \<lparr>ew_config = config, ew_stats = \<lparr>events_delivered = 0, events_dropped = 0\<rparr>,
               ew_stop_requested = False, ew_running = True, ew_stop_once = False\<rparr>, w1)))"

text \<open>
  \<open>stop\<close> joins the worker, so the worker has left its loop when the pins are disarmed.  Only the
  first call does anything.
\<close>

definition stop_watcher ::
  "'t transport \<Rightarrow> device \<Rightarrow> EventWatcher \<Rightarrow> 't \<Rightarrow> EventWatcher \<times> 't"
where
  "stop_watcher T d ew w =
     (let ew1 = ew\<lparr>ew_stop_requested := True\<rparr> in
      if ew_stop_once ew then (ew1, w)
      else (ew1\<lparr>ew_running := False, ew_stop_once := True\<rparr>,
            snd (io_each (\<lambda>p. disarm T d (wp_pin p)) (ew_pins (ew_config ew)) w)))"

end
