(* ===== verification/WatcherGuarantees.thy ===== *)
theory WatcherGuarantees
  imports HostWatcher HostSession EventGuarantees
begin

text \<open>
  An \<open>EventWatcher\<close> over the link: which pins the device watches when it is constructed, when its
  construction fails, and when it is stopped, with the sketch running all the while.
\<close>

section \<open>The watch list under loop()\<close>

lemma detect_kept [simp]:
  "w_active (fst (detect t level w)) = w_active w" "w_pin (fst (detect t level w)) = w_pin w"
  "w_edge_mode (fst (detect t level w)) = w_edge_mode w"
  "w_debounce_ms (fst (detect t level w)) = w_debounce_ms w"
  by (simp_all add: detect_def)

lemma watching_kept:
  assumes "\<And>i. w_active (fw_watch t i) = w_active (fw_watch s i)"
    and "\<And>i. w_pin (fw_watch t i) = w_pin (fw_watch s i)"
    and "\<And>i. w_edge_mode (fw_watch t i) = w_edge_mode (fw_watch s i)"
    and "\<And>i. w_debounce_ms (fw_watch t i) = w_debounce_ms (fw_watch s i)"
  shows "watching t = watching s"
  using assms by (simp add: fun_eq_iff watching_def event_watch_index_def)

lemma fw_watch_puts [simp]: "fw_watch (fold put_event es s) = fw_watch s"
  by (rule fold_keeps [where P = "\<lambda>t. fw_watch t = fw_watch s"])
    (simp_all add: put_event_def push_event_def)

lemma event_poll_watching: "watching (fst (event_poll A s h)) = watching s"
  by (rule watching_kept) (simp_all add: event_poll_eq scanned_def detect_slot_def)

lemma shadow_change_watch: "shadow_change s s' \<Longrightarrow> fw_watch s' = fw_watch s"
  by (drule shadow_change_def [THEN iffD1], drule arg_cong [where f = fw_watch]) simp

lemma poll_watching: "watching (fst (poll b A s h)) = watching s"
proof -
  obtain s1 h1 s2 h2 s3 h3 where steps: "poll_loop b A s h = (s1, h1)"
    "event_poll A s2 h2 = (s3, h3)" "shadow_change s1 s2" "same_core s3 (fst (poll b A s h))"
    by (rule poll_stages)
  have "watching t = watching s'" if "fw_watch t = fw_watch s'" for s' t
    by (rule watching_kept) (simp_all add: that)
  moreover have "fw_watch s2 = fw_watch s"
    using shadow_change_watch [OF steps(3)] shadow_change_watch [OF poll_loop_shadow [of s b A h]]
    by (simp add: steps(1) empty_queue_def)
  moreover have "fw_watch (fst (poll b A s h)) = fw_watch s3"
    using steps(4) by (simp add: same_core_def)
  ultimately show ?thesis
    using event_poll_watching [of A s2 h2] steps(2) by (metis fst_conv)
qed

lemma advance_watching: "watching (link_fw (advance b A l)) = watching (link_fw l)"
proof -
  have "watching (fst ((loop_step b A ^^ n) c)) = watching (fst c)" for n c
    by (induction n) (simp_all add: loop_step_def poll_watching case_prod_beta)
  from this [of _ "(link_fw l, link_world l)"] show ?thesis
    by (simp add: advance_def case_prod_beta split: list.split)
qed

section \<open>configure_event over the link\<close>

text \<open>The entry an accepted \<open>configure_event\<close> leaves.\<close>

definition watch_entry :: "u8 \<Rightarrow> int \<Rightarrow> (usbio_edge_mode \<times> u8) option" where
  "watch_entry edge debounce =
     (if edge = 0 then None else Some (the (edge_of edge), word_of_int debounce))"

lemma configure_event_keeps:
  assumes "link_ok b lt l" and "mirrors b (link_fw l) d"
    and "configure_event (link_transport b A lt) d pin edge debounce l = (r, l')"
  shows "link_ok b lt l'" and "mirrors b (link_fw l') d" and "same_board (link_fw l) (link_fw l')"
proof -
  have "io_keeps (\<lambda>l'. link_ok b lt l' \<and> same_board (link_fw l) (link_fw l'))
      (configure_event (link_transport b A lt) d pin edge debounce)"
    by (rule linked.output_keeps)
  from io_keepsD [OF this, of l] assms(1,3) mirrors_board [OF assms(2)]
  show "link_ok b lt l'" "mirrors b (link_fw l') d" "same_board (link_fw l) (link_fw l')"
    by simp_all
qed

lemma event_request_verdict:
  assumes "link_ok b lt l" and "pin < fw_n_pins (link_fw l)"
  shows "handle_out b (request_code USBIO_REQ_EVENT_CONFIG) v (ucast pin) 0 (link_fw l) =
    handle_event_config pin v (link_fw l)"
proof -
  have "\<not> ucast (fw_n_pins (link_fw l)) \<le> (ucast pin :: u16)"
    using assms(2) by (simp add: word_le_nat_alt word_less_nat_alt)
  then show ?thesis
    by (simp add: handle_out_def handle_pin_request_def pin_index(2) del: request_code.simps)
qed

lemma link_configure_event:
  assumes "link_ok b lt l" and "mirrors b (link_fw l) d"
    and "configure_event (link_transport b A lt) d pin edge debounce l = (r, l')"
  shows "r = Inl e \<Longrightarrow> watching (link_fw l') = watching (link_fw l)"
    and "r = Inr () \<Longrightarrow> watching (link_fw l') =
      (watching (link_fw l))(pin := watch_entry edge debounce) \<and>
      pin < fw_n_pins (link_fw l) \<and> events (dev_info d)"
    and "pin < fw_n_pins (link_fw l) \<Longrightarrow> events (dev_info d) \<Longrightarrow> edge < 4 \<Longrightarrow> 0 \<le> debounce \<Longrightarrow>
      debounce \<le> 255 \<Longrightarrow> fst (handle_event_config pin (encode_event_config_value (word_of_int debounce) edge)
        (link_fw (advance b A l))) \<Longrightarrow> r = Inr ()"
proof -
  let ?T = "link_transport b A lt" and ?l = "advance b A l"
  let ?v = "encode_event_config_value (word_of_int debounce) edge"
  let ?request = "handle_event_config pin ?v (link_fw ?l)"
  have ok: "link_ok b lt ?l" and pins: "fw_n_pins (link_fw ?l) = fw_n_pins (link_fw l)"
    using advance_ok(1) [OF assms(1)] advance_board [OF assms(1)] by (auto simp: same_board_def)
  consider (local) e where "r = Inl e" "l' = l"
      "\<not> (pin < fw_n_pins (link_fw l) \<and> events (dev_info d) \<and> edge < 4 \<and> 0 \<le> debounce \<and> debounce \<le> 255)"
    | (sent) "send_out ?T (dev_options d) USBIO_REQ_EVENT_CONFIG ?v (ucast pin) l = (r, l')"
      "pin < fw_n_pins (link_fw l)" "events (dev_info d)" 
    using assms(2,3) mirrors_caps [OF assms(2), of pin]
    by (auto dest: leD simp: mirrors_def USBIO_EDGE_COUNT_def configure_event_def check_not_streaming_def require_events_def range_check_def
        io_bind_require io_bind_assoc io_bind_def lift_result_def throw_def ret_def not_le require_def
        split: if_splits)
  then have "(\<exists>e. r = Inl e \<and> watching (link_fw l') = watching (link_fw l) \<and>
        \<not> (pin < fw_n_pins (link_fw l) \<and> events (dev_info d) \<and> edge < 4 \<and> 0 \<le> debounce \<and> debounce \<le> 255 \<and>
          fst ?request)) \<or>
      (r = Inr () \<and> watching (link_fw l') = (watching (link_fw l))(pin := watch_entry edge debounce) \<and>
        pin < fw_n_pins (link_fw l) \<and> events (dev_info d))"
  proof cases
    case sent
    have pin: "pin < fw_n_pins (link_fw ?l)"
      using sent(2) pins by simp
    have "distinct (stream_channels (link_fw ?l))"
      using ok by (simp add: link_ok_def fw_inv_def stream_inv_def)
    note verdict = handle_out_spec [OF this, of b "request_code USBIO_REQ_EVENT_CONFIG" ?v "ucast pin" 0,
        unfolded event_request_verdict [OF ok pin]]
    note send = link_send_out [OF assms(1) fits_pin, of A "dev_options d" USBIO_REQ_EVENT_CONFIG ?v pin,
        unfolded event_request_verdict [OF ok pin] sent(1)]
    show ?thesis
    proof (cases "out_error b (request_code USBIO_REQ_EVENT_CONFIG) ?v (ucast pin) 0 (link_fw ?l)")
      case None
      have "watch_inv (link_fw ?l)"
        using ok by (simp add: link_ok_def fw_inv_parts)
      then show ?thesis
        using None send verdict sent(2,3) event_config_watching [OF _ pin, of ?v] advance_watching [of b A l]
        by (simp add: watch_entry_def config_value_parts Let_def del: request_code.simps)
    next
      case (Some e)
      have "\<not> fst ?request"
        using Some verdict by simp
      moreover have "watching (fw\<lparr>fw_last_error := x\<rparr>) = watching fw" for fw x
        by (rule watching_kept) simp_all
      ultimately show ?thesis
        using Some send by (simp add: Let_def advance_watching del: request_code.simps)
    qed
  qed blast
  then show "r = Inl e \<Longrightarrow> watching (link_fw l') = watching (link_fw l)"
    "r = Inr () \<Longrightarrow> watching (link_fw l') = (watching (link_fw l))(pin := watch_entry edge debounce) \<and>
      pin < fw_n_pins (link_fw l) \<and> events (dev_info d)"
    "pin < fw_n_pins (link_fw l) \<Longrightarrow> events (dev_info d) \<Longrightarrow> edge < 4 \<Longrightarrow> 0 \<le> debounce \<Longrightarrow>
      debounce \<le> 255 \<Longrightarrow> fst ?request \<Longrightarrow> r = Inr ()"
    by auto
qed

section \<open>Construction and stop\<close>

definition watch_pin ::
  "WatchedPin \<Rightarrow> (u8 \<Rightarrow> (usbio_edge_mode \<times> u8) option) \<Rightarrow> u8 \<Rightarrow> (usbio_edge_mode \<times> u8) option"
where
  "watch_pin p m = m(wp_pin p := watch_entry (wp_edge p) (wp_debounce p))"

lemma link_disarm:
  assumes "link_ok b lt l" and "mirrors b (link_fw l) d" and "pin < fw_n_pins (link_fw l)"
    and "events (dev_info d)"
  obtains l' where "disarm (link_transport b A lt) d pin l = (Inr (), l')" and "link_ok b lt l'"
    and "mirrors b (link_fw l') d" and "same_board (link_fw l) (link_fw l')"
    and "watching (link_fw l') = (watching (link_fw l))(pin := None)"
proof -
  obtain r l' where run: "configure_event (link_transport b A lt) d pin (edge_code USBIO_EDGE_OFF) 0 l = (r, l')"
    by (metis prod.exhaust)
  then have run0: "configure_event (link_transport b A lt) d pin 0 0 l = (r, l')"
    by simp
  note effect = link_configure_event [OF assms(1,2) run0]
  have r: "r = Inr ()"
    using effect(3) assms(3,4) by (simp add: event_off_eq config_value_parts)
  have "watching (link_fw l') = (watching (link_fw l))(pin := None)"
    using effect(2) [OF r] by (simp add: watch_entry_def)
  then show ?thesis
    using run r configure_event_keeps [OF assms(1,2) run0]
    by (intro that) (simp_all add: disarm_def io_catch_def)
qed

lemma link_disarm_all:
  assumes "link_ok b lt l" and "mirrors b (link_fw l) d" and "events (dev_info d)"
    and "\<forall>x \<in> set xs. pin_of x < fw_n_pins (link_fw l)"
  shows "watching (link_fw (snd (io_each (\<lambda>x. disarm (link_transport b A lt) d (pin_of x)) xs l))) =
    (\<lambda>p. if p \<in> pin_of ` set xs then None else watching (link_fw l) p)"
  using assms
proof (induction xs arbitrary: l)
  case Nil
  then show ?case
    by (simp add: ret_def)
next
  case (Cons x xs)
  obtain l' where "disarm (link_transport b A lt) d (pin_of x) l = (Inr (), l')"
    and l': "link_ok b lt l'" "mirrors b (link_fw l') d" "same_board (link_fw l) (link_fw l')"
      "watching (link_fw l') = (watching (link_fw l))(pin_of x := None)"
    using link_disarm [OF Cons.prems(1,2) _ Cons.prems(3), of "pin_of x" A] Cons.prems(4) by auto
  moreover have "\<forall>x \<in> set xs. pin_of x < fw_n_pins (link_fw l')"
    using Cons.prems(4) l'(3) by (simp add: same_board_def)
  ultimately show ?case
    using Cons.IH [OF l'(1,2) Cons.prems(3)] by (auto simp: io_bind_def fun_eq_iff)
qed

lemma arm_pins_extends:
  "arm_pins T d ps so_far w = ((r, so_far'), w') \<Longrightarrow> set so_far \<subseteq> set so_far'"
proof (induction ps arbitrary: so_far w)
  case (Cons p ps)
  show ?case
    using Cons.prems Cons.IH [of "so_far @ [wp_pin p]"] by (auto split: prod.splits sum.splits)
qed simp

lemma link_arm_pins:
  assumes "link_ok b lt l" and "mirrors b (link_fw l) d"
    and "arm_pins (link_transport b A lt) d ps so_far l = ((r, so_far'), l')"
    and "\<forall>p \<in> set so_far. p < fw_n_pins (link_fw l) \<and> events (dev_info d)"
  shows "link_ok b lt l' \<and> mirrors b (link_fw l') d \<and>
    (\<forall>p \<in> set so_far'. p < fw_n_pins (link_fw l') \<and> events (dev_info d)) \<and>
    (\<forall>p. p \<notin> set so_far' \<longrightarrow> watching (link_fw l') p = watching (link_fw l) p) \<and>
    (r = Inr () \<longrightarrow> so_far' = so_far @ map wp_pin ps \<and>
      watching (link_fw l') = fold watch_pin ps (watching (link_fw l)))"
  using assms
proof (induction ps arbitrary: l so_far)
  case (Cons p ps)
  obtain r1 l1 where run: "configure_event (link_transport b A lt) d (wp_pin p) (wp_edge p)
      (wp_debounce p) l = (r1, l1)"
    by (metis prod.exhaust)
  note effect = link_configure_event [OF Cons.prems(1,2) run]
  note keeps = configure_event_keeps [OF Cons.prems(1,2) run]
  have pins: "fw_n_pins (link_fw l1) = fw_n_pins (link_fw l)"
    using keeps(3) by (simp add: same_board_def)
  show ?case
  proof (cases r1)
    case (Inl e)
    then show ?thesis
      using Cons.prems(3,4) run effect(1) keeps pins by auto
  next
    case (Inr u)
    have on: "watching (link_fw l1) = watch_pin p (watching (link_fw l))"
      "wp_pin p < fw_n_pins (link_fw l)" "events (dev_info d)"
      using effect(2) Inr by (simp_all add: watch_pin_def)
    have rest: "arm_pins (link_transport b A lt) d ps (so_far @ [wp_pin p]) l1 = ((r, so_far'), l')"
      using Cons.prems(3) run Inr by simp
    have valid: "\<forall>q \<in> set (so_far @ [wp_pin p]). q < fw_n_pins (link_fw l1) \<and> events (dev_info d)"
      using Cons.prems(4) on pins by auto
    note IH = Cons.IH [OF keeps(1,2) rest valid]
    have "wp_pin p \<in> set so_far'"
      using arm_pins_extends [OF rest] by simp
    then show ?thesis
      using IH on(1) by (auto simp: watch_pin_def)
  qed
qed auto

text \<open>The worker does nothing to the device that a caller of \<open>poll_events\<close> could not do.\<close>

lemma deliver_session:
  assumes "deliver_events callback es stats w = ((r, stats1), w1)"
    and "\<forall>f. callback = Some f \<longrightarrow> (\<forall>e w. host_session T (d, w) (d, snd (f e w)))"
  shows "host_session T (d, w) (d, w1)"
  using assms(1)
proof (induction es arbitrary: stats w)
  case (Cons e es)
  obtain r2 w2 where run: "(case callback of None \<Rightarrow> ret () | Some f \<Rightarrow> f e) w = (r2, w2)"
    by (metis prod.exhaust)
  have "host_session T (d, w) (d, w2)"
    using run assms(2) by (cases callback) (auto simp: ret_def, metis snd_conv)
  then show ?case
    using Cons.prems Cons.IH run by (auto split: sum.splits) (meson rtranclp_trans)
qed simp

lemma watcher_round_session:
  assumes "watcher_round T d callback interval stats w = Some ((r, stats1), w1)"
    and "\<forall>f. callback = Some f \<longrightarrow> (\<forall>e w. host_session T (d, w) (d, snd (f e w)))"
  shows "host_session T (d, w) (d, w1)"
proof -
  obtain polled w2 where polled: "poll_events T d w = Some (polled, w2)"
    using assms(1) by (auto simp: watcher_round_def)
  define after where "after = (case polled of
      Inl e \<Rightarrow> ((Inl e, stats), w2)
    | Inr (es, dropped) \<Rightarrow>
        deliver_events callback es
          (if dropped > 0 then stats\<lparr>events_dropped := events_dropped stats + ucast dropped\<rparr>
           else stats) w2)"
  have "host_session T (d, w) (d, w2)"
    by (rule r_into_rtranclp, rule host_step.poll_events [OF polled])
  moreover have "host_session T (d, w2) (d, snd after)"
  proof (cases polled)
    case (Inr x)
    obtain r2 stats2 where "after = ((r2, stats2), snd after)"
      by (metis prod.collapse)
    then show ?thesis
      using deliver_session [OF _ assms(2)] Inr
      by (auto simp: after_def split: prod.splits)
  qed (simp add: after_def)
  moreover have "host_session T (d, snd after) (d, snd (pause T delay (snd after)))" for delay
    by (intro r_into_rtranclp host_step.idle)
  moreover have "w1 = snd after \<or> w1 = snd (pause T (interval * 1000) (snd after))"
    using assms(1)
    by (auto simp: watcher_round_def polled after_def split: sum.splits prod.splits if_splits)
  ultimately show ?thesis
    by (metis rtranclp_trans)
qed

text \<open>C39. An \<open>EventWatcher\<close> leaves nothing behind: when its construction fails, every pin is watched
  as it was before or no more; when it succeeds, its pins are watched as configured; and after any
  session of calls, \<open>stop\<close> leaves none of its pins watched and touches no other.  Only while a
  stream runs does \<open>stop\<close> do nothing to the device.\<close>

theorem watchers_come_and_go:
  assumes "link_ok b lt l" and "mirrors b (link_fw l) d"
    and "make_watcher (link_transport b A lt) d cfg l = (r, l1)"
  shows "case r of
      Inl e \<Rightarrow> \<forall>p. watching (link_fw l1) p \<in> {None, watching (link_fw l) p}
    | Inr ew \<Rightarrow> watching (link_fw l1) = fold watch_pin (ew_pins cfg) (watching (link_fw l)) \<and>
        (\<forall>d2 l2. host_session (link_transport b A lt) (d, l1) (d2, l2) \<longrightarrow>
          (if dev_streaming d2 then snd (stop_watcher (link_transport b A lt) d2 ew l2) = l2
           else watching (link_fw (snd (stop_watcher (link_transport b A lt) d2 ew l2))) =
             (\<lambda>p. if p \<in> wp_pin ` set (ew_pins cfg) then None else watching (link_fw l2) p)))"
proof (cases "ew_pins cfg = []")
  case True
  then show ?thesis
    using assms(3) by (auto simp: make_watcher_def throw_def)
next
  case False
  let ?T = "link_transport b A lt"
  obtain r1 so_far l2 where arm: "arm_pins ?T d (ew_pins cfg) [] l = ((r1, so_far), l2)"
    by (metis prod.exhaust)
  have l2: "link_ok b lt l2" "mirrors b (link_fw l2) d"
    "\<forall>p \<in> set so_far. p < fw_n_pins (link_fw l2) \<and> events (dev_info d)"
    "\<forall>p. p \<notin> set so_far \<longrightarrow> watching (link_fw l2) p = watching (link_fw l) p"
    "r1 = Inr () \<longrightarrow> so_far = map wp_pin (ew_pins cfg) \<and>
      watching (link_fw l2) = fold watch_pin (ew_pins cfg) (watching (link_fw l))"
    using link_arm_pins [OF assms(1,2) arm] by simp_all
  show ?thesis
  proof (cases r1)
    case (Inl e)
    have l1: "l1 = snd (io_each (disarm ?T d) (rev so_far) l2)" and "r = Inl e"
      using assms(3) False arm Inl by (simp_all add: make_watcher_def)
    have on: "events (dev_info d)" if "so_far \<noteq> []"
      using l2(3) that by (auto simp: neq_Nil_conv)
    have "watching (link_fw l1) =
        (\<lambda>p. if p \<in> set so_far then None else watching (link_fw l2) p)"
    proof (cases "so_far = []")
      case False
      have "\<forall>x \<in> set (rev so_far). x < fw_n_pins (link_fw l2)"
        using l2(3) by simp
      from link_disarm_all [OF l2(1,2) on [OF False] this, where A = A] l1
      show ?thesis
        by simp
    qed (simp add: ret_def l1)
    then have "watching (link_fw l1) p = None \<or> watching (link_fw l1) p = watching (link_fw l) p" for p
      using l2(4) by simp
    then show ?thesis
      by (simp add: \<open>r = Inl e\<close>)
  next
    case (Inr u)
    let ?ew = "\<lparr>ew_config = cfg, ew_stats = \<lparr>events_delivered = 0, events_dropped = 0\<rparr>,
      ew_stop_requested = False, ew_running = True, ew_stop_once = False\<rparr>"
    have "r = Inr ?ew" and l1: "l1 = l2"
      using assms(3) False arm Inr by (simp_all add: make_watcher_def)
    then obtain ew where ew: "r = Inr ew" "ew_config ew = cfg" "\<not> ew_stop_once ew"
      by (intro that [of ?ew]) simp_all
    have pins: "\<forall>p \<in> set (ew_pins cfg). wp_pin p < fw_n_pins (link_fw l1)" and on: "events (dev_info d)"
      using l2(3,5) Inr False l1 by (auto simp: neq_Nil_conv)
    have "if dev_streaming d3 then snd (stop_watcher ?T d3 ew l3) = l3
        else watching (link_fw (snd (stop_watcher ?T d3 ew l3))) =
          (\<lambda>p. if p \<in> wp_pin ` set (ew_pins cfg) then None else watching (link_fw l3) p)"
      if session: "host_session ?T (d, l1) (d3, l3)" for d3 l3
    proof (cases "dev_streaming d3")
      case True
      then have "disarm ?T d3 pin w = (Inr (), w)" for pin w
        by (simp add: disarm_def configure_event_def check_not_streaming_def io_simps io_catch_def
            io_bind_def)
      then have "io_each (\<lambda>p. disarm ?T d3 (wp_pin p)) ps w = (Inr (), w)"
        for ps :: "WatchedPin list" and w
        by (induction ps) (simp_all add: io_simps)
      then show ?thesis
        using True ew by (simp add: stop_watcher_def Let_def)
    next
      case streaming: False
      have "(link_ok b lt l3 \<and> same_board (link_fw l1) (link_fw l3)) \<and> same_tables d d3"
        using linked.session_keeps [OF session, of "link_fw l1"] l2(1) l1 by simp
      moreover from this have "mirrors b (link_fw l3) d3"
        using mirrors_board [OF l2(2) [folded l1], of "link_fw l3"] streaming
        by (simp add: mirrors_def same_tables_def)
      ultimately show ?thesis
        using link_disarm_all [of b lt l3 d3 "ew_pins cfg" wp_pin A] pins on streaming ew
        by (simp add: stop_watcher_def Let_def same_tables_def same_board_def)
    qed
    then show ?thesis
      using l2(5) Inr l1 ew(1) by simp
  qed
qed

text \<open>A watcher on pin 2 of the bench, with a session of one read in between.\<close>

definition bench_watch :: EventWatcherConfig where
  "bench_watch = \<lparr>ew_pins = [\<lparr>wp_pin = 2, wp_edge = 3, wp_debounce = 5\<rparr>], ew_poll_interval = 20\<rparr>"

lemma armed_link: "link_ok bench_board bench_lt (bench_link armed_run sched)"
proof (rule bench_link_ok [OF armed_run_reachable])
  show "fw_flags (fst armed_run) AND USBIO_FLAG_VENDOR_INTERFACE \<noteq> 0"
    by code_simp
qed

lemma bench_watch_arms:
  obtains ew l1 where "make_watcher bench_transport (bench_driver armed_run) bench_watch
      (bench_link armed_run [0, 1]) = (Inr ew, l1)"
proof -
  let ?l = "bench_link armed_run [0, 1]"
  obtain r l1 where run: "configure_event bench_transport (bench_driver armed_run) 2 3 5 ?l = (r, l1)"
    by (metis prod.exhaust)
  have mirror: "mirrors bench_board (link_fw ?l) (bench_driver armed_run)"
    by (simp add: bench_driver_mirrors)
  have "fst (handle_event_config 2 (encode_event_config_value 5 3) (fst armed_run))"
    "2 < fw_n_pins (fst armed_run)" "events (device_info bench_board (fst armed_run))"
    by code_simp+
  then have "r = Inr ()"
    using link_configure_event(3) [OF armed_link mirror run] by (simp add: bench_driver_def)
  then show ?thesis
    using run by (intro that) (simp add: make_watcher_def bench_watch_def)
qed

theorem watchers_witness:
  "\<exists>ew l1. make_watcher bench_transport (bench_driver armed_run) bench_watch (bench_link armed_run [0, 1]) =
      (Inr ew, l1) \<and> watching (link_fw l1) 2 = Some (USBIO_EDGE_CHANGE, 5) \<and>
    watching (link_fw (snd (stop_watcher bench_transport (bench_driver armed_run) ew
      (snd (digital_read bench_transport (bench_driver armed_run) 2 l1))))) 2 = None"
proof -
  obtain ew l1 where run: "make_watcher bench_transport (bench_driver armed_run) bench_watch
      (bench_link armed_run [0, 1]) = (Inr ew, l1)"
    by (rule bench_watch_arms)
  have session: "host_session bench_transport (bench_driver armed_run, l1)
      (bench_driver armed_run, snd (digital_read bench_transport (bench_driver armed_run) 2 l1))"
    by (intro r_into_rtranclp host_step.digital_read)
  have mirror: "mirrors bench_board (link_fw (bench_link armed_run [0, 1])) (bench_driver armed_run)"
    by (simp add: bench_driver_mirrors)
  note found = watchers_come_and_go [OF armed_link mirror run]
  have "watching (link_fw l1) 2 = Some (USBIO_EDGE_CHANGE, 5)"
    using found by (simp add: bench_watch_def watch_pin_def watch_entry_def edge_of_def all_edges_def)
  moreover have "\<not> dev_streaming (bench_driver armed_run)"
    by (simp add: bench_driver_def)
  moreover have "watching (link_fw (snd (stop_watcher bench_transport (bench_driver armed_run) ew
      (snd (digital_read bench_transport (bench_driver armed_run) 2 l1))))) 2 = None"
    if "\<not> dev_streaming (bench_driver armed_run)"
    using found session that by (simp add: bench_watch_def)
  ultimately show ?thesis
    using run by blast
qed

end
