(* ===== verification/HostCApi.thy ===== *)
theory HostCApi
  imports HostEnumerator HostStream
begin

text \<open>
  The C interface of the host library (\<open>extras/c_api\<close>): every entry point checks its pointers,
  runs one operation of the C++ library under \<open>adrv_guard\<close>, and turns an exception into a status
  code and a message kept per thread.

  A handle is an option, \<open>None\<close> being the null pointer; an out-parameter that may be null is a flag
  (or the length of the array), and what the call writes through it is part of the result.  The
  message is the literal text of the code, or \<open>what\<close> the exception caught says.
\<close>

section \<open>Statuses and errors\<close>

datatype adrv_status =
    ADRV_OK | ADRV_ERR_USB | ADRV_ERR_STALL | ADRV_ERR_TIMEOUT | ADRV_ERR_PROTOCOL
  | ADRV_ERR_DEVICE_BUSY | ADRV_ERR_INVALID_PIN | ADRV_ERR_INVALID_MODE | ADRV_ERR_INVALID_VALUE
  | ADRV_ERR_NOT_SUPPORTED | ADRV_ERR_QUEUE_FULL | ADRV_ERR_NOT_READY | ADRV_ERR_DEVICE_NOT_FOUND
  | ADRV_ERR_INVALID_ARGUMENT | ADRV_ERR_OTHER

datatype message = message_text string | what error

text \<open>The status \<open>handle_exception\<close> returns; \<open>StallError\<close> and \<open>TimeoutError\<close> come before \<open>UsbError\<close>.\<close>

fun handle_exception :: "error \<Rightarrow> adrv_status" where
  "handle_exception StallError = ADRV_ERR_STALL"
| "handle_exception TimeoutError = ADRV_ERR_TIMEOUT"
| "handle_exception (UsbError _) = ADRV_ERR_USB"
| "handle_exception ProtocolError = ADRV_ERR_PROTOCOL"
| "handle_exception DeviceBusy = ADRV_ERR_DEVICE_BUSY"
| "handle_exception InvalidPin = ADRV_ERR_INVALID_PIN"
| "handle_exception InvalidMode = ADRV_ERR_INVALID_MODE"
| "handle_exception InvalidValue = ADRV_ERR_INVALID_VALUE"
| "handle_exception NotSupported = ADRV_ERR_NOT_SUPPORTED"
| "handle_exception QueueFull = ADRV_ERR_QUEUE_FULL"
| "handle_exception NotReady = ADRV_ERR_NOT_READY"
| "handle_exception DeviceNotFound = ADRV_ERR_DEVICE_NOT_FOUND"
| "handle_exception _ = ADRV_ERR_OTHER"

text \<open>
  A call of the interface takes the world and the thread's last message to its status, what it
  wrote to its out-parameters (\<open>None\<close> when nothing), and both afterwards.
\<close>

type_synonym ('t, 'a) capi = "'t \<times> message \<Rightarrow> (adrv_status \<times> 'a option) \<times> ('t \<times> message)"

definition adrv_guard :: "('t, 'a) io \<Rightarrow> ('t, 'a) capi" where
  "adrv_guard body c =
     (case body (fst c) of
        (Inr x, w) \<Rightarrow> ((ADRV_OK, Some x), (w, message_text ''''))
      | (Inl e, w) \<Rightarrow>
          ((if is_Error e then handle_exception e else ADRV_ERR_OTHER, None), (w, what e)))"

definition invalid_call :: "string \<Rightarrow> ('t, 'a) capi" where
  "invalid_call text c = ((ADRV_ERR_INVALID_ARGUMENT, None), (fst c, message_text text))"

section \<open>Handles\<close>

record 't adrv_device =
  ad_device :: "device option"
  ad_transport :: "'t transport"
  ad_context :: "'t libusb_context option"

text \<open>\<open>!dev || !dev->device\<close> is \<open>usable dev = None\<close>.\<close>

definition usable :: "'t adrv_device option \<Rightarrow> (device \<times> 't transport) option" where
  "usable dev = (case dev of
     None \<Rightarrow> None
   | Some h \<Rightarrow> map_option (\<lambda>d. (d, ad_transport h)) (ad_device h))"

text \<open>The body of most entry points: a call on the device, when there is one.\<close>

definition with_device ::
  "'t adrv_device option \<Rightarrow> bool \<Rightarrow> string \<Rightarrow> (device \<Rightarrow> 't transport \<Rightarrow> ('t, 'a) io) \<Rightarrow> ('t, 'a) capi"
where
  "with_device dev arguments text f =
     (case usable dev of
        None \<Rightarrow> invalid_call text
      | Some (d, T) \<Rightarrow> if arguments then adrv_guard (f d T) else invalid_call text)"

section \<open>Opening\<close>

definition new_handle :: "'t libusb_context \<Rightarrow> device \<times> 't transport \<Rightarrow> 't adrv_device" where
  "new_handle ctx opened =
     \<lparr>ad_device = Some (fst opened), ad_transport = snd opened, ad_context = Some ctx\<rparr>"

definition adrv_device_open_first :: "'t libusb_context option \<Rightarrow> bool \<Rightarrow> ('t, 't adrv_device) capi" where
  "adrv_device_open_first ctx out =
     (case ctx of
        None \<Rightarrow> invalid_call ''adrv_device_open_first: null context or out-param''
      | Some c \<Rightarrow>
          if \<not> out then invalid_call ''adrv_device_open_first: null context or out-param''
          else adrv_guard (io_bind
            (open_first (Some c) default_enumerate default_options default_transport_options)
            (\<lambda>opened. ret (new_handle c opened))))"

definition adrv_device_open_by_serial ::
  "'t libusb_context option \<Rightarrow> string option \<Rightarrow> bool \<Rightarrow> ('t, 't adrv_device) capi"
where
  "adrv_device_open_by_serial ctx serial out =
     (case (ctx, serial) of
        (Some c, Some s) \<Rightarrow>
          if \<not> out then invalid_call ''adrv_device_open_by_serial: null context, serial or out-param''
          else adrv_guard (io_bind
            (open_by_serial (Some c) s default_enumerate default_options default_transport_options)
            (\<lambda>opened. ret (new_handle c opened)))
      | _ \<Rightarrow> invalid_call ''adrv_device_open_by_serial: null context, serial or out-param'')"

section \<open>Static information\<close>

record adrv_info =
  ci_protocol_version :: u16
  ci_board_id :: u16
  ci_n_pins :: u8
  ci_n_ain :: u8
  ci_adc_bits :: u8
  ci_pwm_bits :: u8
  ci_dac_bits :: u8
  ci_queue_depth :: u8
  ci_vref_mv :: u16
  ci_io_mv :: u16
  ci_flags :: u16
  ci_stream_max_channels :: u8
  ci_event_max_pins :: u8
  ci_stream_min_period_us :: u16

definition to_c_info :: "usbio_info \<Rightarrow> adrv_info" where
  "to_c_info i =
     \<lparr>ci_protocol_version = info_protocol_version i, ci_board_id = info_board_id i,
      ci_n_pins = info_n_pins i, ci_n_ain = info_n_ain i, ci_adc_bits = info_adc_bits i,
      ci_pwm_bits = info_pwm_bits i, ci_dac_bits = info_dac_bits i,
      ci_queue_depth = info_queue_depth i, ci_vref_mv = info_vref_mv i, ci_io_mv = info_io_mv i,
      ci_flags = info_flags i, ci_stream_max_channels = info_stream_max_channels i,
      ci_event_max_pins = info_event_max_pins i,
      ci_stream_min_period_us = info_stream_min_period_us i\<rparr>"

text \<open>This call neither clears nor sets the message when it succeeds.\<close>

definition adrv_device_get_info :: "'t adrv_device option \<Rightarrow> bool \<Rightarrow> ('t, adrv_info) capi" where
  "adrv_device_get_info dev out c =
     (case usable dev of
        None \<Rightarrow> invalid_call ''adrv_device_get_info: null argument'' c
      | Some (d, _) \<Rightarrow>
          if out then ((ADRV_OK, Some (to_c_info (dev_info d))), c)
          else invalid_call ''adrv_device_get_info: null argument'' c)"

definition adrv_pin_count :: "'t adrv_device option \<Rightarrow> nat" where
  "adrv_pin_count dev = (case usable dev of None \<Rightarrow> 0 | Some (d, _) \<Rightarrow> length (dev_caps d))"

definition adrv_board_name :: "u16 \<Rightarrow> string" where
  "adrv_board_name board_id = board_name board_id"

section \<open>Operations\<close>

text \<open>An \<open>adrv_pin_mode_t\<close> holds an integer; one that is no enumerator is taken for INPUT.\<close>

definition to_cpp_pin_mode :: "u32 \<Rightarrow> u8" where
  "to_cpp_pin_mode mode =
     (if mode = 0 then mode_code USBIO_MODE_INPUT
      else if mode = 1 then mode_code USBIO_MODE_OUTPUT
      else if mode = 2 then mode_code USBIO_MODE_INPUT_PULLUP
      else if mode = 3 then mode_code USBIO_MODE_INPUT_PULLDOWN
      else if mode = 4 then mode_code USBIO_MODE_ANALOG_IN
      else if mode = 5 then mode_code USBIO_MODE_PWM
      else if mode = 6 then mode_code USBIO_MODE_DAC
      else mode_code USBIO_MODE_INPUT)"

definition adrv_pin_mode :: "'t adrv_device option \<Rightarrow> u8 \<Rightarrow> u32 \<Rightarrow> ('t, unit) capi" where
  "adrv_pin_mode dev pin mode =
     with_device dev True ''adrv_pin_mode: null device''
       (\<lambda>d T. pin_mode T d pin (to_cpp_pin_mode mode))"

definition adrv_digital_write :: "'t adrv_device option \<Rightarrow> u8 \<Rightarrow> bool \<Rightarrow> ('t, unit) capi" where
  "adrv_digital_write dev pin high =
     with_device dev True ''adrv_digital_write: null device'' (\<lambda>d T. digital_write T d pin high)"

definition adrv_digital_read :: "'t adrv_device option \<Rightarrow> u8 \<Rightarrow> bool \<Rightarrow> ('t, bool) capi" where
  "adrv_digital_read dev pin out =
     with_device dev out ''adrv_digital_read: null argument'' (\<lambda>d T. digital_read T d pin)"

text \<open>
  The two bulk reads write the number of values read and the values that fit \<open>out_len\<close>; \<open>out\<close> is
  \<open>None\<close> for a null array.
\<close>

definition copy_out :: "nat option \<Rightarrow> 'a list \<Rightarrow> nat \<times> 'a list" where
  "copy_out out xs = (length xs, case out of None \<Rightarrow> [] | Some n \<Rightarrow> take (min n (length xs)) xs)"

definition adrv_read_all_digital ::
  "'t adrv_device option \<Rightarrow> nat option \<Rightarrow> ('t, nat \<times> bool list) capi"
where
  "adrv_read_all_digital dev out =
     with_device dev True ''adrv_read_all_digital: null device''
       (\<lambda>d T. io_bind (read_all_digital T d) (\<lambda>bits. ret (copy_out out bits)))"

definition adrv_analog_read :: "'t adrv_device option \<Rightarrow> u8 \<Rightarrow> bool \<Rightarrow> ('t, u16) capi" where
  "adrv_analog_read dev pin out =
     with_device dev out ''adrv_analog_read: null argument'' (\<lambda>d T. analog_read T d pin)"

definition adrv_read_all_analog ::
  "'t adrv_device option \<Rightarrow> nat option \<Rightarrow> ('t, nat \<times> u16 list) capi"
where
  "adrv_read_all_analog dev out =
     with_device dev True ''adrv_read_all_analog: null device''
       (\<lambda>d T. io_bind (read_all_analog T d) (\<lambda>samples. ret (copy_out out samples)))"

definition adrv_pwm_write :: "'t adrv_device option \<Rightarrow> u8 \<Rightarrow> u16 \<Rightarrow> ('t, unit) capi" where
  "adrv_pwm_write dev pin duty =
     with_device dev True ''adrv_pwm_write: null device'' (\<lambda>d T. pwm_write T d pin duty)"

definition adrv_dac_write :: "'t adrv_device option \<Rightarrow> u8 \<Rightarrow> u16 \<Rightarrow> ('t, unit) capi" where
  "adrv_dac_write dev pin val =
     with_device dev True ''adrv_dac_write: null device'' (\<lambda>d T. dac_write T d pin val)"

text \<open>Writes the last error and the number of pending commands.\<close>

definition adrv_device_status :: "'t adrv_device option \<Rightarrow> ('t, u8 \<times> u8) capi" where
  "adrv_device_status dev =
     with_device dev True ''adrv_device_status: null device'' (\<lambda>d T. status T d)"

definition adrv_sync :: "'t adrv_device option \<Rightarrow> ('t, unit) capi" where
  "adrv_sync dev = with_device dev True ''adrv_sync: null device'' (\<lambda>d T. sync T d)"

text \<open>The device behind the handle after the call is the result.\<close>

definition adrv_reset :: "'t adrv_device option \<Rightarrow> ('t, device) capi" where
  "adrv_reset dev = with_device dev True ''adrv_reset: null device'' (\<lambda>d T. reset T d)"

section \<open>Streams\<close>

record adrv_stream_config =
  sc_pins :: "u8 list option"
  sc_n_pins :: nat
  sc_period_us :: u32
  sc_flags :: u8
  sc_queue_capacity :: nat

abbreviation (input) DefaultStreamQueueCapacity :: nat where
  "DefaultStreamQueueCapacity \<equiv> 1024"

definition to_cpp_config :: "adrv_stream_config \<Rightarrow> StreamConfig" where
  "to_cpp_config cfg =
     \<lparr>cfg_pins = take (sc_n_pins cfg) (case sc_pins cfg of None \<Rightarrow> [] | Some ps \<Rightarrow> ps),
      cfg_period = uint (sc_period_us cfg), cfg_flags = sc_flags cfg,
      cfg_queue_capacity = (if sc_queue_capacity cfg \<noteq> 0 then sc_queue_capacity cfg
                            else DefaultStreamQueueCapacity)\<rparr>"

text \<open>The new handle holds the stream; the device behind \<open>dev\<close> is the second part of the result.\<close>

definition adrv_start_stream ::
  "'t adrv_device option \<Rightarrow> adrv_stream_config option \<Rightarrow> bool \<Rightarrow>
   ('t, (stream_env \<times> worker) \<times> device) capi"
where
  "adrv_start_stream dev config out =
     (case config of
        None \<Rightarrow> invalid_call ''adrv_start_stream: null argument''
      | Some cfg \<Rightarrow>
          with_device dev (out \<and> \<not> (sc_n_pins cfg > 0 \<and> sc_pins cfg = None))
            ''adrv_start_stream: null argument''
            (\<lambda>d T. io_bind (start_stream T d (to_cpp_config cfg)) (\<lambda>(d1, start_us).
               ret (new_stream d1 (to_cpp_config cfg) start_us, d1))))"

text \<open>
  \<open>stream\<close> is the worker's state when \<open>read()\<close> has waited for its samples, \<open>out\<close> the length of the
  array unless it is null; the result is the number of samples, the samples and the stream.
\<close>

definition adrv_stream_read ::
  "worker option \<Rightarrow> nat \<Rightarrow> bool \<Rightarrow> ('t, (nat \<times> Sample list) \<times> worker) capi"
where
  "adrv_stream_read stream out_len out =
     (case stream of
        None \<Rightarrow> invalid_call ''adrv_stream_read: null argument''
      | Some wk \<Rightarrow>
          if out_len > 0 \<and> \<not> out then invalid_call ''adrv_stream_read: null argument''
          else adrv_guard (case read_samples out_len wk of (samples, wk1) \<Rightarrow>
            ret ((length samples, samples), wk1)))"

definition adrv_stream_stats :: "worker option \<Rightarrow> bool \<Rightarrow> ('t, StreamStats) capi" where
  "adrv_stream_stats stream out c =
     (case stream of
        None \<Rightarrow> invalid_call ''adrv_stream_stats: null argument'' c
      | Some wk \<Rightarrow>
          if out then ((ADRV_OK, Some (wk_stats wk)), c)
          else invalid_call ''adrv_stream_stats: null argument'' c)"

definition adrv_stream_running :: "worker option \<Rightarrow> bool" where
  "adrv_stream_running stream = (case stream of None \<Rightarrow> False | Some wk \<Rightarrow> wk_running wk)"

end
