(* ===== verification/CApiGuarantees.thy ===== *)
theory CApiGuarantees
  imports HostCApi HostGuarantees
begin

text \<open>
  What a C program learns from a status: the outcome of the call, and through the driver, the
  link and the firmware the reason of a refusal.
\<close>

section \<open>Statuses tell the exceptions apart\<close>

lemma handle_exception_inj:
  assumes "is_Error e" and "is_Error e'" and "handle_exception e = handle_exception e'"
  shows "e = e' \<or> (\<exists>code code'. e = UsbError code \<and> e' = UsbError code')"
  using assms by (cases e; cases e') simp_all

lemma handle_exception_not_ok: "handle_exception e \<noteq> ADRV_OK"
  by (cases e) simp_all

text \<open>What a call leaves behind: its status, whether it wrote its out-parameters, and the message.\<close>

lemma adrv_guard_outcome:
  "case adrv_guard f (w, m) of ((st, out), (w1, m1)) \<Rightarrow>
     w1 = snd (f w) \<and> (st = ADRV_OK \<longleftrightarrow> out \<noteq> None) \<and> (\<forall>x. out = Some x \<longleftrightarrow> fst (f w) = Inr x) \<and>
     m1 = (case fst (f w) of Inr _ \<Rightarrow> message_text '''' | Inl e \<Rightarrow> what e)"
proof -
  obtain r w1 where run: "f w = (r, w1)"
    by (metis prod.exhaust)
  show ?thesis
    by (cases r) (simp_all add: adrv_guard_def run handle_exception_not_ok)
qed

lemma adrv_guard_tells:
  assumes "fst (f w) = Inl e" and "fst (f w') = Inl e'" and "is_Error e" and "is_Error e'"
    and "fst (fst (adrv_guard f (w, m))) = fst (fst (adrv_guard f (w', m')))"
  shows "e = e' \<or> (\<exists>code code'. e = UsbError code \<and> e' = UsbError code')"
proof -
  obtain w1 w1' where "f w = (Inl e, w1)" "f w' = (Inl e', w1')"
    using assms(1,2) by (metis prod.collapse)
  then show ?thesis
    using assms(3-5) handle_exception_inj by (simp add: adrv_guard_def)
qed

section \<open>The firmware's verdict, in C\<close>

lemma with_device_status:
  assumes "usable dev = Some (d, T)"
  shows "fst (fst (with_device dev True text f (w, m))) = (case fst (f d T w) of
      Inr _ \<Rightarrow> ADRV_OK | Inl e \<Rightarrow> if is_Error e then handle_exception e else ADRV_ERR_OTHER)"
proof -
  obtain r w1 where run: "f d T w = (r, w1)"
    by (metis prod.exhaust)
  show ?thesis
    by (cases r) (simp_all add: with_device_def assms adrv_guard_def run)
qed

lemma mode_of_to_cpp:
  "mode_of (to_cpp_pin_mode mode) =
     Some (if unat mode < 7 then the (mode_of (ucast mode)) else USBIO_MODE_INPUT)"
proof (cases "unat mode < 7")
  case True
  then have "unat mode \<in> {0, 1, 2, 3, 4, 5, 6}"
    by auto
  then have "mode \<in> {0, 1, 2, 3, 4, 5, 6}"
    by (auto simp: word_unat_eq_iff)
  then show ?thesis
    by (auto simp: to_cpp_pin_mode_def mode_of_values)
next
  case False
  then show ?thesis
    by (auto simp: to_cpp_pin_mode_def simp del: mode_code.simps)
qed

text \<open>C40. Through the C interface, the driver and the link, a C program gets the firmware's own verdict
  on an operation that drives a pin: \<open>ADRV_OK\<close> when the command was queued, and otherwise one
  status for each reason it was not - no such pin, no such capability, a value out of range,
  another pin mode, a full queue.  A mode that is no enumerator is taken for INPUT.\<close>

theorem c_calls_report_the_verdict:
  assumes "link_ok b lt l" and "mirrors b (link_fw l) d" and "pulldown_reported b (link_fw l)"
    and "usable dev = Some (d, link_transport b A lt)"
  shows "fst (fst (adrv_pin_mode dev pin mode (l, m))) =
      (if fw_n_pins (link_fw l) \<le> pin then ADRV_ERR_INVALID_PIN
       else if \<not> mode_allowed b (fw_caps (link_fw l) pin)
           (if unat mode < 7 then the (mode_of (ucast mode)) else USBIO_MODE_INPUT)
         then ADRV_ERR_NOT_SUPPORTED
       else if 32 \<le> length (commands (link_fw (advance b A l))) then ADRV_ERR_QUEUE_FULL else ADRV_OK) \<and>
    fst (fst (adrv_digital_write dev pin high (l, m))) =
      (if fw_n_pins (link_fw l) \<le> pin then ADRV_ERR_INVALID_PIN
       else if fw_caps (link_fw l) pin AND USBIO_CAP_DIO = 0 then ADRV_ERR_NOT_SUPPORTED
       else if fw_mode (link_fw l) pin \<noteq> Some USBIO_MODE_OUTPUT then ADRV_ERR_INVALID_MODE
       else if 32 \<le> length (commands (link_fw (advance b A l))) then ADRV_ERR_QUEUE_FULL else ADRV_OK) \<and>
    fst (fst (adrv_pwm_write dev pin duty (l, m))) =
      (if fw_n_pins (link_fw l) \<le> pin then ADRV_ERR_INVALID_PIN
       else if fw_caps (link_fw l) pin AND USBIO_CAP_PWM = 0 then ADRV_ERR_NOT_SUPPORTED
       else if full_scale (PwmBits b) < duty then ADRV_ERR_INVALID_VALUE
       else if fw_mode (link_fw l) pin \<noteq> Some USBIO_MODE_PWM then ADRV_ERR_INVALID_MODE
       else if 32 \<le> length (commands (link_fw (advance b A l))) then ADRV_ERR_QUEUE_FULL else ADRV_OK)"
proof -
  note verdicts = driven_pin_verdicts [OF assms(1-3), of A pin _ high duty]
  have "mode_of (to_cpp_pin_mode mode) =
      Some (if unat mode < 7 then the (mode_of (ucast mode)) else USBIO_MODE_INPUT)"
    by (rule mode_of_to_cpp)
  then show ?thesis
    using verdicts [of "to_cpp_pin_mode mode"]
    by (simp add: adrv_pin_mode_def adrv_digital_write_def adrv_pwm_write_def
        with_device_status [OF assms(4)])
qed

text \<open>Driving an output pin of the bench, and a pin it does not have.\<close>

definition bench_handle :: "bench link adrv_device" where
  "bench_handle = \<lparr>ad_device = Some (bench_driver output_run), ad_transport = bench_transport,
     ad_context = None\<rparr>"

theorem c_calls_witness:
  "fst (fst (adrv_digital_write (Some bench_handle) 200 True (bench_link output_run [0], message_text ''''))) =
     ADRV_ERR_INVALID_PIN"
proof -
  have "fw_n_pins (fst output_run) \<le> 200"
    by code_simp
  moreover have "usable (Some bench_handle) = Some (bench_driver output_run, bench_transport)"
    by (simp add: usable_def bench_handle_def)
  ultimately show ?thesis
    using c_calls_report_the_verdict [OF output_link [of "[0]"], of "bench_driver output_run"
        "Some bench_handle" bench_arduino 200 0 "message_text ''''" True 0] output_facts(2)
    by (simp add: bench_driver_mirrors pulldown_reported_def)
qed

end
