(* ===== verification/Interleaving.thy ===== *)
theory Interleaving
  imports Effects Unchanged
begin

text \<open>
  \<open>poll()\<close> with SETUP packets arriving in its middle.  \<open>Loop\<close> gives \<open>poll\<close> as one function; here it
  is a machine of small steps with a program counter, so that an interrupt (a packet or a
  disconnect) can come between any two of them.  On the way of a command a step is what the code does
  between two looks at state the interrupt side writes: one test of a loop, one pin of a reset or of a
  refresh, taking one command, testing its epoch, executing it.  Further on the steps are coarser:
  the turn of one analog pin, the scan of one watch and each of the four stages of the stream
  count as one step, although the code reads fields of the interrupt side several times in them.
  Nothing interrupts a step itself.
\<close>

section \<open>The machine\<close>

text \<open>Where \<open>poll()\<close> is; the list arguments are what is left of a \<open>for\<close> loop.\<close>

datatype loop_pc =
    Outside
  | Reset_test | Resetting u8 "u8 list"
  | Command_test | Taken command | Approved command | Repeat_test
  | Refreshing "u8 list" | Analog_turn
  | Scan_start | Scanning u32 "nat list"
  | Stream_started | Stream_due | Stream_pack | Stream_send

definition after_scan :: "board \<Rightarrow> loop_pc" where
  "after_scan b = (if has_stream_transport b then Stream_started else Outside)"

fun loop_micro :: "board \<Rightarrow> 'h arduino \<Rightarrow> loop_pc \<Rightarrow> fw \<Rightarrow> 'h \<Rightarrow> loop_pc \<times> fw \<times> 'h" where
  "loop_micro b A Outside s h = (Reset_test, s, h)"
| "loop_micro b A Reset_test s h =
     (if fw_reset_done s \<noteq> fw_reset_requests s
      then (Resetting (fw_reset_requests s) (pins_below (fw_n_pins s)), s, h)
      else (Command_test, s, h))"
| "loop_micro b A (Resetting seen []) s h =
     (Reset_test, s\<lparr>fw_ain_cursor := 0, fw_reset_done := seen\<rparr>, h)"
| "loop_micro b A (Resetting seen (p # ps)) s h = (Resetting seen ps, reset_pin A p (s, h))"
| "loop_micro b A Command_test s h =
     (if ring_tail (fw_queue s) \<noteq> ring_head (fw_queue s)
      then (Taken (ring_front USBIO_QUEUE_DEPTH (fw_queue s)),
            s\<lparr>fw_queue := ring_drop (fw_queue s)\<rparr>, h)
      else (Repeat_test, s, h))"
| "loop_micro b A (Taken c) s h =
     (if cmd_epoch c = fw_epoch s then Approved c else Command_test, s, h)"
| "loop_micro b A (Approved c) s h = (Command_test, execute b A c s h)"
| "loop_micro b A Repeat_test s h =
     (if fw_reset_done s \<noteq> fw_reset_requests s then Reset_test
      else Refreshing (pins_below (fw_n_pins s)), s, h)"
| "loop_micro b A (Refreshing []) s h = (Analog_turn, s, h)"
| "loop_micro b A (Refreshing (p # ps)) s h = (Refreshing ps, refresh_pin A p (s, h))"
| "loop_micro b A Analog_turn s h =
     (Scan_start, sample_next_analog A (unat (fw_n_pins s)) s h)"
| "loop_micro b A Scan_start s h =
     (if fw_n_pins s = 0 then (after_scan b, s, h)
      else let (now, h1) = millis A h in (Scanning now [0..<USBIO_MAX_EVENT_PINS], s, h1))"
| "loop_micro b A (Scanning now []) s h = (after_scan b, s, h)"
| "loop_micro b A (Scanning now (i # is)) s h = (Scanning now is, scan_watch now i s, h)"
| "loop_micro b A Stream_started s h = (Stream_due, apply_start A s h)"
| "loop_micro b A Stream_due s h = (Stream_pack, take_due_sample A s h)"
| "loop_micro b A Stream_pack s h = (Stream_send, pack_records b A s h)"
| "loop_micro b A Stream_send s h = (Outside, send_packet b A s h)"

section \<open>Without interrupts the machine is poll\<close>

definition micro :: "board \<Rightarrow> 'h arduino \<Rightarrow> loop_pc \<times> fw \<times> 'h \<Rightarrow> loop_pc \<times> fw \<times> 'h" where
  "micro b A c = (case c of (pc, s, h) \<Rightarrow> loop_micro b A pc s h)"

lemma micro_eq: "micro b A (pc, s, h) = loop_micro b A pc s h"
  by (simp add: micro_def)

definition runs_to :: "board \<Rightarrow> 'h arduino \<Rightarrow> loop_pc \<times> fw \<times> 'h \<Rightarrow> loop_pc \<times> fw \<times> 'h \<Rightarrow> bool" where
  "runs_to b A c c' \<longleftrightarrow> (\<exists>n. (micro b A ^^ n) c = c')"

lemma runs_refl [intro]: "runs_to b A c c"
  unfolding runs_to_def by (rule exI [of _ 0]) simp

lemma runs_step: "runs_to b A (loop_micro b A pc s h) c' \<Longrightarrow> runs_to b A (pc, s, h) c'"
proof -
  assume "runs_to b A (loop_micro b A pc s h) c'"
  then obtain n where "(micro b A ^^ n) (loop_micro b A pc s h) = c'"
    by (auto simp: runs_to_def)
  then have "(micro b A ^^ Suc n) (pc, s, h) = c'"
    by (simp add: funpow_Suc_right micro_eq del: funpow.simps)
  then show ?thesis
    unfolding runs_to_def by blast
qed

lemma runs_trans: "runs_to b A c c1 \<Longrightarrow> runs_to b A c1 c2 \<Longrightarrow> runs_to b A c c2"
proof -
  assume "runs_to b A c c1" "runs_to b A c1 c2"
  then obtain n m where "(micro b A ^^ n) c = c1" "(micro b A ^^ m) c1 = c2"
    by (auto simp: runs_to_def)
  then have "(micro b A ^^ (m + n)) c = c2"
    by (simp add: funpow_add)
  then show ?thesis
    unfolding runs_to_def by blast
qed

lemma resets_run:
  "runs_to b A (Resetting seen ps, s, h)
     (Reset_test, case fold (reset_pin A) ps (s, h) of
        (s1, h1) \<Rightarrow> (s1\<lparr>fw_ain_cursor := 0, fw_reset_done := seen\<rparr>, h1))"
proof (induction ps arbitrary: s h)
  case Nil
  then show ?case
    by (intro runs_step) auto
next
  case (Cons p ps)
  obtain s1 h1 where step: "reset_pin A p (s, h) = (s1, h1)"
    by fastforce
  show ?case
    by (rule runs_step) (use Cons [of s1 h1] step in simp)
qed

lemma reset_loop_runs: "runs_to b A (Reset_test, s, h) (Command_test, reset_loop A s h)"
proof (cases "fw_reset_done s \<noteq> fw_reset_requests s")
  case True
  obtain s1 h1 where r: "fold (reset_pin A) (pins_below (fw_n_pins s)) (s, h) = (s1, h1)"
    by fastforce
  have "fw_reset_requests s1 = fw_reset_requests s"
    using shadow_change_fields(6) [OF apply_reset_shadow [of s A h]] by (simp add: apply_reset_def r)
  then have end_test: "runs_to b A (Reset_test, s1\<lparr>fw_ain_cursor := 0, fw_reset_done := fw_reset_requests s\<rparr>, h1)
      (Command_test, s1\<lparr>fw_ain_cursor := 0, fw_reset_done := fw_reset_requests s\<rparr>, h1)"
    by (intro runs_step) auto
  have "runs_to b A (Reset_test, s, h)
      (Reset_test, s1\<lparr>fw_ain_cursor := 0, fw_reset_done := fw_reset_requests s\<rparr>, h1)"
    using resets_run [of b A "fw_reset_requests s" "pins_below (fw_n_pins s)" s h] True
    by (intro runs_step) (simp add: r)
  from runs_trans [OF this end_test] show ?thesis
    using True by (simp add: reset_loop_eq apply_reset_def r)
next
  case False
  then show ?thesis
    by (intro runs_step) (auto simp: reset_loop_eq)
qed

lemma drain_loop_runs: "runs_to b A (Command_test, s, h) (Repeat_test, drain_loop b A s h)"
proof (induction b A s h rule: drain_loop.induct)
  case (1 b A s h)
  show ?case
  proof (cases "ring_tail (fw_queue s) \<noteq> ring_head (fw_queue s)")
    case True
    let ?c = "ring_front USBIO_QUEUE_DEPTH (fw_queue s)" and ?s1 = "s\<lparr>fw_queue := ring_drop (fw_queue s)\<rparr>"
    obtain s2 h2 where next_state: "(if cmd_epoch ?c = fw_epoch ?s1 then execute b A ?c ?s1 h else (?s1, h)) = (s2, h2)"
      by (metis prod.exhaust)
    have "runs_to b A (Command_test, s2, h2) (Repeat_test, drain_loop b A s2 h2)"
      using 1 [OF True refl refl next_state [symmetric] refl] by simp
    moreover have "drain_loop b A s h = drain_loop b A s2 h2"
      using True next_state by (subst drain_loop.simps) (simp add: Let_def)
    moreover have "runs_to b A (Command_test, s, h) (Command_test, s2, h2)"
    proof (cases "cmd_epoch ?c = fw_epoch s")
      case epoch: True
      show ?thesis
        using True next_state epoch
        by (intro runs_step) (simp, intro runs_step, simp, intro runs_step, auto)
    next
      case False
      show ?thesis
        using True next_state False
        by (intro runs_step) (simp, intro runs_step, auto)
    qed
    ultimately show ?thesis
      using runs_trans by metis
  next
    case False
    then show ?thesis
      by (intro runs_step) (auto simp: drain_loop.simps [of b A s h])
  qed
qed

lemma refreshes_run:
  "runs_to b A (Refreshing ps, s, h) (Analog_turn, fold (refresh_pin A) ps (s, h))"
proof (induction ps arbitrary: s h)
  case Nil
  then show ?case
    by (intro runs_step) auto
next
  case (Cons p ps)
  obtain s1 h1 where step: "refresh_pin A p (s, h) = (s1, h1)"
    by fastforce
  show ?case
    by (rule runs_step) (use Cons [of s1 h1] step in simp)
qed

lemma scans_run:
  "runs_to b A (Scanning now is, s, h) (after_scan b, fold (scan_watch now) is s, h)"
proof (induction "is" arbitrary: s)
  case Nil
  then show ?case
    by (intro runs_step) auto
next
  case (Cons i "is")
  show ?case
    by (rule runs_step) (use Cons [of "scan_watch now i s"] in simp)
qed

lemma refresh_runs: "runs_to b A (Refreshing (pins_below (fw_n_pins s)), s, h) (Scan_start, refresh_shadow A s h)"
proof -
  obtain s1 h1 where r: "fold (refresh_pin A) (pins_below (fw_n_pins s)) (s, h) = (s1, h1)"
    by fastforce
  have turn: "runs_to b A (Analog_turn, s1, h1) (Scan_start, sample_next_analog A (unat (fw_n_pins s1)) s1 h1)"
    by (intro runs_step) auto
  have "refresh_shadow A s h = sample_next_analog A (unat (fw_n_pins s1)) s1 h1"
    using r by (auto simp: refresh_shadow_def pins_below_def)
  then show ?thesis
    using runs_trans [OF refreshes_run [of b A "pins_below (fw_n_pins s)" s h, unfolded r] turn] by simp
qed

lemma scan_runs: "runs_to b A (Scan_start, s, h) (after_scan b, event_poll A s h)"
proof (cases "fw_n_pins s = 0")
  case True
  then show ?thesis
    by (intro runs_step) (auto simp: event_poll_def)
next
  case False
  obtain now h1 where m: "millis A h = (now, h1)"
    by fastforce
  show ?thesis
    using scans_run [of b A now "[0..<USBIO_MAX_EVENT_PINS]" s h1] False m
    by (intro runs_step) (simp add: event_poll_def del: upt_Suc)
qed

lemma stream_runs: "runs_to b A (Stream_started, s, h) (Outside, stream_poll b A s h)"
proof -
  obtain s1 h1 where 1: "apply_start A s h = (s1, h1)" by fastforce
  obtain s2 h2 where 2: "take_due_sample A s1 h1 = (s2, h2)" by fastforce
  obtain s3 h3 where 3: "pack_records b A s2 h2 = (s3, h3)" by fastforce
  obtain s4 h4 where 4: "send_packet b A s3 h3 = (s4, h4)" by fastforce
  have "runs_to b A (Stream_started, s, h) (Outside, s4, h4)"
    by (intro runs_step, simp add: 1, intro runs_step, simp add: 2, intro runs_step, simp add: 3,
        intro runs_step, auto simp: 4)
  then show ?thesis
    by (simp add: stream_poll_def 1 2 3 4)
qed

text \<open>One call of \<open>poll()\<close> that no interrupt hits is \<open>poll\<close>.\<close>

lemma poll_runs: "runs_to b A (Outside, s, h) (Outside, poll b A s h)"
proof -
  obtain s1 h1 where 1: "reset_loop A s h = (s1, h1)" by fastforce
  obtain s2 h2 where 2: "drain_loop b A s1 h1 = (s2, h2)" by fastforce
  obtain s3 h3 where 3: "refresh_shadow A s2 h2 = (s3, h3)" by fastforce
  obtain s4 h4 where 4: "event_poll A s3 h3 = (s4, h4)" by fastforce
  have served: "fw_reset_done s2 = fw_reset_requests s2"
    by (rule drain_after_reset [OF 1 [symmetric] 2 [symmetric]])
  have repeat: "runs_to b A (Repeat_test, s2, h2) (Scan_start, s3, h3)"
    by (rule runs_step) (simp add: served refresh_runs [of b A s2 h2, unfolded 3])
  have "runs_to b A (Outside, s, h) (Command_test, s1, h1)"
    by (rule runs_step) (simp add: reset_loop_runs [of b A s h, unfolded 1])
  then have "runs_to b A (Outside, s, h) (after_scan b, s4, h4)"
    using drain_loop_runs [of b A s1 h1, unfolded 2] repeat scan_runs [of b A s3 h3, unfolded 4]
    by (meson runs_trans)
  moreover have "runs_to b A (after_scan b, s4, h4) (Outside, poll b A s h)"
    using stream_runs [of b A s4 h4]
    by (auto simp: poll_def poll_loop_eq 1 2 3 4 after_scan_def)
  ultimately show ?thesis
    by (rule runs_trans)
qed

section \<open>Interrupts between the steps\<close>

text \<open>
  \<open>run_written\<close> remembers what the host last wrote to each pin by an accepted DIO_WRITE, until a
  PIN_MODE of the pin or a RESET; \<open>run_late\<close> that a RESET arrived while commands were being drained.
  The code keeps neither.
\<close>

record 'h run =
  run_pc :: loop_pc
  run_fw :: fw
  run_world :: 'h
  run_written :: "u8 \<Rightarrow> bool option"
  run_late :: bool

definition packet_index :: "setup_packet \<Rightarrow> u8" where
  "packet_index p =
     ucast (if bmRequestType p AND 0x1F = 0 then wIndex p else drop_bit 8 (wIndex p))"

definition out_request :: "setup_packet \<Rightarrow> usbio_request option" where
  "out_request p = (if bmRequestType p AND 0x80 \<noteq> 0 then None else request_of (bRequest p))"

definition note_written :: "setup_packet \<Rightarrow> (u8 \<Rightarrow> bool option) \<Rightarrow> u8 \<Rightarrow> bool option" where
  "note_written p written =
     (case out_request p of
        Some USBIO_REQ_RESET \<Rightarrow> (\<lambda>_. None)
      | Some USBIO_REQ_PIN_MODE \<Rightarrow> written(packet_index p := None)
      | Some USBIO_REQ_DIO_WRITE \<Rightarrow> written(packet_index p := Some (wValue p \<noteq> 0))
      | _ \<Rightarrow> written)"

fun draining :: "loop_pc \<Rightarrow> bool" where
  "draining Command_test = True"
| "draining (Taken c) = True"
| "draining (Approved c) = True"
| "draining _ = False"

definition run_loop :: "board \<Rightarrow> 'h arduino \<Rightarrow> 'h run \<Rightarrow> 'h run" where
  "run_loop b A r =
     (case loop_micro b A (run_pc r) (run_fw r) (run_world r) of
        (pc, s, h) \<Rightarrow> r\<lparr>run_pc := pc, run_fw := s, run_world := h\<rparr>)"

definition run_packet :: "board \<Rightarrow> 'h arduino \<Rightarrow> setup_packet \<Rightarrow> 'h run \<Rightarrow> bytes option \<times> 'h run" where
  "run_packet b A p r =
     (case handle_setup b A p (run_fw r) (run_world r) of
        (reply, s, h) \<Rightarrow>
          (reply, r\<lparr>run_fw := s, run_world := h,
             run_written := (if reply = None then run_written r else note_written p (run_written r)),
             run_late := (run_late r \<or>
               (reply \<noteq> None \<and> out_request p = Some USBIO_REQ_RESET \<and> draining (run_pc r)))\<rparr>))"

definition first_run :: "board \<Rightarrow> 'h arduino \<Rightarrow> 'h \<Rightarrow> 'h run" where
  "first_run b A h =
     (case begin_device b A (construct b) h of
        (s, h1) \<Rightarrow> \<lparr>run_pc = Outside, run_fw = s, run_world = h1, run_written = (\<lambda>_. None),
          run_late = False\<rparr>)"

inductive interleaved :: "board \<Rightarrow> 'h arduino \<Rightarrow> 'h run \<Rightarrow> bool" for b :: board and A :: "'h arduino"
where
  begun: "interleaved b A (first_run b A h)"
| loop: "interleaved b A r \<Longrightarrow> interleaved b A (run_loop b A r)"
| packet: "interleaved b A r \<Longrightarrow> interleaved b A (snd (run_packet b A p r))"
| unplugged: "interleaved b A r \<Longrightarrow>
    interleaved b A (r\<lparr>run_fw := handle_usb_disconnected b (run_fw r)\<rparr>)"
| elapsed: "interleaved b A r \<Longrightarrow> interleaved b A (r\<lparr>run_world := h\<rparr>)"

text \<open>What holds of the local variables of \<open>poll()\<close>.\<close>

fun pc_ok :: "board \<Rightarrow> fw \<Rightarrow> loop_pc \<Rightarrow> bool" where
  "pc_ok b s (Taken c) = command_ok b s c"
| "pc_ok b s (Approved c) = command_ok b s c"
| "pc_ok b s (Scanning now is) = (\<forall>i \<in> set is. i < 8)"
| "pc_ok b s _ = True"

lemma pc_ok_board: "same_board s s' \<Longrightarrow> pc_ok b s' pc = pc_ok b s pc"
  using command_ok_cong [of s' s b] by (cases pc) (simp_all add: same_board_def)

lemma fw_inv_take:
  assumes "fw_inv b s" and "ring_tail (fw_queue s) \<noteq> ring_head (fw_queue s)"
  shows "fw_inv b (s\<lparr>fw_queue := ring_drop (fw_queue s)\<rparr>)"
    and "command_ok b s (ring_front USBIO_QUEUE_DEPTH (fw_queue s))"
proof -
  let ?t = "s\<lparr>fw_queue := ring_drop (fw_queue s)\<rparr>"
  have q: "ring_ok USBIO_QUEUE_DEPTH (fw_queue s)" "\<forall>c \<in> set (commands s). command_ok b s c"
    using assms(1) by (simp_all add: fw_inv_def queue_inv_def)
  have front: "commands s = ring_front USBIO_QUEUE_DEPTH (fw_queue s) # commands ?t"
    using ring32.contents_front [OF assms(2)] by simp
  then show "command_ok b s (ring_front USBIO_QUEUE_DEPTH (fw_queue s))"
    using q(2) by simp
  have "command_ok b ?t c = command_ok b s c" for c
    by (rule command_ok_cong) simp_all
  then have "queue_inv b ?t"
    using q(2) front ring32.ok_drop [OF assms(2) q(1)] by (simp add: queue_inv_def)
  moreover have "pins_inv ?t = pins_inv s" "mode_inv b ?t = mode_inv b s" "watch_inv ?t = watch_inv s"
    "event_inv ?t = event_inv s" "stream_inv b ?t = stream_inv b s"
    by (intro inv_congs; simp)+
  ultimately show "fw_inv b ?t"
    using assms(1) by (simp add: fw_inv_def)
qed

lemma scan_watch_change: "event_change s (scan_watch now i s)"
  by (auto simp: scan_watch_eq put_reported_def put_event_def push_event_def event_change_def
      split: prod.split option.split)

lemma scan_watch_inv:
  assumes inv: "fw_inv b s" and i: "i < 8"
  shows "fw_inv b (scan_watch now i s)"
proof -
  obtain w e where d: "detect now (fw_dio s (w_pin (fw_watch s i))) (fw_watch s i) = (w, e)"
    by fastforce
  let ?t = "s\<lparr>fw_watch := (fw_watch s)(i := w)\<rparr>" and ?s' = "scan_watch now i s"
  have s': "?s' = put_reported e ?t"
    by (simp add: scan_watch_eq d)
  have "w = fst (detect now (fw_dio s (w_pin (fw_watch s i))) (fw_watch s i))"
    by (simp add: d)
  then have kept: "w_active w = w_active (fw_watch s i)" "w_pin w = w_pin (fw_watch s i)"
    "w_edge_mode w = w_edge_mode (fw_watch s i)"
    by (simp_all add: detect_keeps)
  note same = event_change_fields [OF scan_watch_change [of s now i]]
  have "pins_inv ?s' = pins_inv s" "mode_inv b ?s' = mode_inv b s" "queue_inv b ?s' = queue_inv b s"
    "stream_inv b ?s' = stream_inv b s"
    by (intro inv_congs same)+
  moreover have "watch_inv ?s'"
  proof -
    have watches: "w_active (fw_watch ?t j) = w_active (fw_watch s j)"
      "w_pin (fw_watch ?t j) = w_pin (fw_watch s j)"
      "w_edge_mode (fw_watch ?t j) = w_edge_mode (fw_watch s j)" for j
      using kept by simp_all
    have rest: "fw_n_pins ?t = fw_n_pins s" "fw_n_watched ?t = fw_n_watched s"
      "fw_mode ?t = fw_mode s" "fw_caps ?t = fw_caps s"
      by simp_all
    have "active_slots ?t = active_slots s"
      unfolding active_slots_def watches by (rule refl)
    then have "watch_inv ?t = watch_inv s"
      unfolding watch_inv_def watches rest by simp
    moreover have "watch_inv (put_event x ?t) = watch_inv ?t" for x
      by (rule watch_inv_cong) (simp_all add: put_event_def push_event_def)
    ultimately show ?thesis
      using inv by (simp add: s' put_reported_def fw_inv_def split: option.split)
  qed
  moreover have "event_inv ?s'"
  proof (cases e)
    case (Some x)
    have "w_active (fw_watch s i)" "ev_pin x = w_pin (fw_watch s i)"
      using d Some by (auto simp: detect_def split: if_splits)
    then have "ev_pin x < fw_n_pins s"
      using inv i by (simp add: fw_inv_def watch_inv_def active_slots_iff)
    then show ?thesis
      using event_inv_puts [of ?t "[x]"] inv
      by (simp add: s' Some put_reported_def fw_inv_def event_inv_def live_events_def)
  qed (use inv in \<open>simp add: s' put_reported_def fw_inv_def event_inv_def live_events_def\<close>)
  ultimately show ?thesis
    using inv same(5) by (simp add: fw_inv_def)
qed

lemma fw_inv_one_shadow:
  assumes "fw_inv b s" and "shadow_change s s'" and "levels s'"
  shows "fw_inv b s'"
  using fw_inv_shadow [OF assms(1,2)] assms(3) by (simp add: levels_def)

lemma stream_stages_inv:
  assumes "fw_inv b s" and "wf_board b"
  shows "fw_inv b (fst (apply_start A s h))" "fw_inv b (fst (take_due_sample A s h))"
    "fw_inv b (fst (pack_records b A s h))" "fw_inv b (fst (send_packet b A s h))"
proof -
  have inv: "stream_inv b s" "unat (fw_n_pins s) \<le> 128"
    using assms(1) by (simp_all add: fw_inv_def pins_inv_def)
  show "fw_inv b (fst (apply_start A s h))"
    by (rule fw_inv_stream [OF assms(1) apply_start_core apply_start_inv [OF inv(1)]])
  show "fw_inv b (fst (take_due_sample A s h))"
    by (rule fw_inv_stream [OF assms(1) take_due_sample_core take_due_sample_inv [OF inv]])
  show "fw_inv b (fst (pack_records b A s h))"
    by (rule fw_inv_stream [OF assms(1) pack_records_core pack_records_inv [OF inv(1) assms(2)]])
  show "fw_inv b (fst (send_packet b A s h))"
    by (rule fw_inv_stream [OF assms(1) send_packet_core send_packet_inv [OF inv(1)]])
qed


section \<open>The invariant at every point of poll\<close>

lemma same_core_board: "same_core s s' \<Longrightarrow> same_board s s'"
  by (simp add: same_core_def same_board_def)

lemma loop_micro_board: "same_board s (fst (snd (loop_micro b A pc s h)))"
proof -
  note shadow = shadow_change_keeps [unfolded loop_keeps_def, THEN conjunct1]
  note watch = event_change_keeps [unfolded loop_keeps_def, THEN conjunct1]
  show ?thesis
  proof (cases pc)
    case (Resetting seen ps)
    then show ?thesis
      using shadow [OF reset_pin_shadow [of s A _ h]] by (cases ps) (simp_all add: same_board_def)
  next
    case (Approved c)
    then show ?thesis
      using shadow [OF execute_shadow [of s b A c h]] by simp
  next
    case (Refreshing ps)
    then show ?thesis
      using shadow [OF refresh_pin_shadow [of s A _ h]] by (cases ps) simp_all
  next
    case Analog_turn
    then show ?thesis
      using shadow [OF sample_next_analog_shadow] by simp
  next
    case (Scanning now iz)
    then show ?thesis
      using watch [OF scan_watch_change] by (cases iz) simp_all
  qed (simp_all add: same_core_board apply_start_core take_due_sample_core pack_records_core
      send_packet_core split: prod.split, simp_all add: same_board_def)
qed

lemma loop_micro_inv:
  assumes inv: "fw_inv b s" and wf: "wf_board b" and ok: "pc_ok b s pc"
  shows "fw_inv b (fst (snd (loop_micro b A pc s h)))"
proof -
  note level = fw_inv_levels [OF inv]
  note shadow = fw_inv_one_shadow [OF inv]
  show ?thesis
  proof (cases pc)
    case (Resetting seen ps)
    have "fw_inv b (s\<lparr>fw_ain_cursor := 0\<rparr>)"
      by (rule shadow) (use level in \<open>simp_all add: levels_def\<close>)
    then show ?thesis
      using shadow [OF reset_pin_shadow reset_pin_levels [OF level]] Resetting
      by (cases ps) simp_all
  next
    case (Approved c)
    then show ?thesis
      using shadow [OF execute_shadow execute_levels [OF level]] by simp
  next
    case (Refreshing ps)
    then show ?thesis
      using shadow [OF refresh_pin_shadow refresh_pin_levels [OF level]] inv by (cases ps) simp_all
  next
    case Analog_turn
    then show ?thesis
      using shadow [OF sample_next_analog_shadow sample_next_analog_levels [OF level]] by simp
  next
    case Command_test
    then show ?thesis
      using fw_inv_take(1) [OF inv] inv by simp
  next
    case (Scanning now iz)
    then show ?thesis
      using scan_watch_inv [OF inv] ok inv by (cases iz) simp_all
  qed (use inv stream_stages_inv [OF inv wf] in \<open>simp_all split: prod.split\<close>)
qed

lemma loop_micro_pc:
  assumes inv: "fw_inv b s" and ok: "pc_ok b s pc"
  shows "pc_ok b (fst (snd (loop_micro b A pc s h))) (fst (loop_micro b A pc s h))"
proof (cases pc)
  case (Resetting seen ps)
  then show ?thesis
    by (cases ps) (simp_all split: prod.split)
next
  case Command_test
  then show ?thesis
    using fw_inv_take(2) [OF inv] command_ok_cong [of "s\<lparr>fw_queue := ring_drop (fw_queue s)\<rparr>" s b]
    by simp
next
  case (Refreshing ps)
  then show ?thesis
    by (cases ps) (simp_all split: prod.split)
next
  case (Scanning now iz)
  then show ?thesis
    using ok by (cases iz) (simp_all add: after_scan_def)
qed (use ok in \<open>simp_all add: after_scan_def split: prod.split del: upt_Suc\<close>)

lemma handle_setup_board: "same_board s (fst (snd (handle_setup b A p s h)))"
proof -
  have out: "same_board s (fst (snd (case handle_out b c v i l s of
      (ok, s1) \<Rightarrow> (if ok then Some [] else (None :: bytes option), s1, h))))" for c v i l
    using handle_out_board [of s b c v i l] by (cases "handle_out b c v i l s") simp
  have "same_board s (fst (snd (handle_in b A c i l s h)))" for c i l
    using handle_in_board [of b A c i l s h] by (cases "handle_in b A c i l s h") simp
  then show ?thesis
    using out stall_board [OF same_board_refl] by (simp add: handle_setup_def Let_def)
qed

lemma first_run_inv:
  assumes "wf_board b"
  shows "fw_inv b (run_fw (first_run b A h)) \<and>
    pc_ok b (run_fw (first_run b A h)) (run_pc (first_run b A h))"
  using begin_inv [OF assms, of A h] by (simp add: first_run_def case_prod_unfold)

lemma unplugged_board: "same_board s (handle_usb_disconnected b s)"
  by (simp add: handle_usb_disconnected_def same_board_def)

lemma interleaved_inv:
  assumes "interleaved b A r" and wf: "wf_board b"
  shows "fw_inv b (run_fw r)" and "pc_ok b (run_fw r) (run_pc r)"
proof -
  have "fw_inv b (run_fw r) \<and> pc_ok b (run_fw r) (run_pc r)"
    using assms(1)
  proof induction
    case (begun h)
    then show ?case
      by (rule first_run_inv [OF wf])
  next
    case (loop r)
    then show ?case
      using loop_micro_inv [of b "run_fw r" "run_pc r" A "run_world r"] wf
        loop_micro_pc [of b "run_fw r" "run_pc r" A "run_world r"]
      by (simp add: run_loop_def case_prod_unfold)
  next
    case (packet r p)
    then show ?case
      using handle_setup_inv [of b "run_fw r" A p "run_world r"]
        pc_ok_board [OF handle_setup_board [of "run_fw r" b A p "run_world r"]]
      by (simp add: run_packet_def case_prod_unfold)
  next
    case (unplugged r)
    then show ?case
      using stream_request_inv(4) pc_ok_board [OF unplugged_board] by simp
  qed simp_all
  then show "fw_inv b (run_fw r)" "pc_ok b (run_fw r) (run_pc r)"
    by blast+
qed

end
