(* ===== verification/Freshness.thy ===== *)
theory Freshness
  imports Interleaving
begin

text \<open>
  What a level the host wrote is worth while \<open>poll()\<close> runs: between the accepted DIO_WRITE and its
  execution the command is in flight (queued, or held in a local variable of \<open>poll()\<close>); from the
  execution on the shadow level is the written one, until a PIN_MODE of the pin or a RESET.
  The lemmas follow that through every small step of the loop and every packet.
\<close>

section \<open>Commands in flight\<close>

fun held :: "loop_pc \<Rightarrow> fw \<Rightarrow> command list" where
  "held (Taken c) s = (if cmd_epoch c = fw_epoch s then [c] else [])"
| "held (Approved c) s = [c]"
| "held _ s = []"

definition in_flight :: "loop_pc \<Rightarrow> fw \<Rightarrow> command list" where
  "in_flight pc s = held pc s @ live_commands s"

definition sets_level :: "u8 \<Rightarrow> command \<Rightarrow> bool" where
  "sets_level p c \<longleftrightarrow> cmd_pin c = p \<and>
     (cmd_request c = USBIO_REQ_PIN_MODE \<or> cmd_request c = USBIO_REQ_DIO_WRITE)"

fun resetting :: "loop_pc \<Rightarrow> bool" where
  "resetting (Resetting seen ps) = True"
| "resetting _ = False"

text \<open>The pin is an output, and the last command in flight for it (or its shadow) has the level.\<close>

definition written_ok :: "loop_pc \<Rightarrow> fw \<Rightarrow> u8 \<Rightarrow> bool \<Rightarrow> bool" where
  "written_ok pc s p v \<longleftrightarrow> p < fw_n_pins s \<and> fw_mode s p = Some USBIO_MODE_OUTPUT \<and>
     (let cs = filter (sets_level p) (in_flight pc s) in
      if cs = []
      then fw_dio s p = (if v then 1 else 0) \<and> fw_reset_done s = fw_reset_requests s \<and> \<not> resetting pc
      else cmd_request (last cs) = USBIO_REQ_DIO_WRITE \<and> (cmd_value (last cs) \<noteq> 0) = v)"

text \<open>The fields this depends on, and the steps that leave them alone.\<close>

definition pin_side :: "fw \<Rightarrow> u8 \<times> (u8 \<Rightarrow> usbio_pin_mode option) \<times> (u8 \<Rightarrow> u8) \<times> command ring \<times> u8 \<times> u8 \<times> u8" where
  "pin_side s = (fw_n_pins s, fw_mode s, fw_dio s, fw_queue s, fw_epoch s, fw_reset_requests s,
     fw_reset_done s)"

lemma held_same: "fw_epoch s' = fw_epoch s \<Longrightarrow> held pc s' = held pc s"
  by (cases pc) simp_all

lemma in_flight_same:
  "fw_epoch s' = fw_epoch s \<Longrightarrow> fw_queue s' = fw_queue s \<Longrightarrow> in_flight pc s' = in_flight pc s"
  using held_same [of s' s pc] by (simp add: in_flight_def live_commands_def)

lemma written_ok_step:
  assumes "written_ok pc s p v"
    and "fw_n_pins s' = fw_n_pins s" "fw_mode s' = fw_mode s" "in_flight pc' s' = in_flight pc s"
    and "\<not> resetting pc \<Longrightarrow> fw_reset_done s = fw_reset_requests s \<Longrightarrow>
      fw_dio s' p = fw_dio s p \<and> fw_reset_done s' = fw_reset_requests s' \<and> \<not> resetting pc'"
  shows "written_ok pc' s' p v"
proof (cases "filter (sets_level p) (in_flight pc s) = []")
  case True
  then have "fw_dio s p = (if v then 1 else 0)" "fw_reset_done s = fw_reset_requests s" "\<not> resetting pc"
    using assms(1) by (simp_all add: written_ok_def)
  with assms(5) have "fw_dio s' p = (if v then 1 else 0)" "fw_reset_done s' = fw_reset_requests s'"
    "\<not> resetting pc'"
    by simp_all
  with True show ?thesis
    using assms(1-4) by (simp add: written_ok_def)
next
  case False
  with assms(1-4) show ?thesis
    by (simp add: written_ok_def)
qed

lemma written_ok_pin_side:
  assumes "written_ok pc s p v" and "pin_side s' = pin_side s"
  shows "written_ok pc s' p v"
  by (rule written_ok_step [OF assms(1)]) (use assms(2) in \<open>auto simp: pin_side_def intro: in_flight_same\<close>)

lemma same_core_pin_side: "same_core s s' \<Longrightarrow> pin_side s' = pin_side s"
  by (simp add: same_core_def pin_side_def)

lemma event_change_pin_side: "event_change s s' \<Longrightarrow> pin_side s' = pin_side s"
  using event_change_fields [of s s'] by (simp add: pin_side_def)

section \<open>The steps of the loop\<close>

lemma execute_other: "\<not> sets_level p c \<Longrightarrow> fw_dio (fst (execute b A c s h)) p = fw_dio s p"
  by (cases "cmd_request c")
    (auto simp: execute_def apply_mode_def Let_def sets_level_def split: prod.split option.split usbio_pin_mode.split)

lemma execute_write:
  "sets_level p c \<Longrightarrow> cmd_request c = USBIO_REQ_DIO_WRITE \<Longrightarrow>
   fw_dio (fst (execute b A c s h)) p = (if cmd_value c \<noteq> 0 then 1 else 0)"
  by (auto simp: execute_def sets_level_def)

lemma sample_next_analog_dio: "fw_dio (fst (sample_next_analog A k s h)) = fw_dio s"
  by (induction k arbitrary: s h) (simp_all add: Let_def split: prod.split)

lemma refresh_pin_output:
  "fw_mode s p = Some USBIO_MODE_OUTPUT \<Longrightarrow> fw_dio (fst (refresh_pin A q (s, h))) p = fw_dio s p"
  by (auto simp: refresh_pin_def mode_is_input_def split: prod.split)

lemma written_ok_shadow:
  assumes "written_ok pc s p v" and "shadow_change s s'" and "held pc' s = held pc s"
    and "\<not> resetting pc \<Longrightarrow> fw_dio s' p = fw_dio s p \<and> \<not> resetting pc'"
  shows "written_ok pc' s' p v"
proof -
  note same = shadow_change_fields [OF assms(2)]
  show ?thesis
    by (rule written_ok_step [OF assms(1)])
      (use same assms(3,4) held_same [of s' s pc'] in \<open>simp_all add: in_flight_def live_commands_def\<close>)
qed

lemma written_ok_execute:
  assumes ok: "written_ok (Approved c) s p v" and drain: "fw_reset_done s = fw_reset_requests s"
  shows "written_ok Command_test (fst (execute b A c s h)) p v"
proof -
  let ?s' = "fst (execute b A c s h)" and ?rest = "filter (sets_level p) (live_commands s)"
  note same = shadow_change_fields [OF execute_shadow [of s b A c h]]
  have rest: "in_flight Command_test ?s' = live_commands s"
    using same by (simp add: in_flight_def live_commands_def)
  have before: "in_flight (Approved c) s = c # live_commands s"
    by (simp add: in_flight_def)
  show ?thesis
    using ok drain same execute_other [of p c b A s h] execute_write [of p c b A s h]
    by (cases "?rest = []"; cases "sets_level p c") (simp_all add: written_ok_def rest before)
qed

lemma written_ok_micro:
  assumes ok: "written_ok pc s p v"
    and drain: "draining pc \<Longrightarrow> fw_reset_done s = fw_reset_requests s"
  shows "written_ok (fst (loop_micro b A pc s h)) (fst (snd (loop_micro b A pc s h))) p v"
proof -
  have is_output: "fw_mode s p = Some USBIO_MODE_OUTPUT"
    using ok by (simp add: written_ok_def)
  show ?thesis
  proof (cases pc)
    case (Resetting seen ps)
    show ?thesis
    proof (cases ps)
      case Nil
      then show ?thesis
        using Resetting by (simp, intro written_ok_step [OF ok])
          (simp_all add: in_flight_def live_commands_def)
    next
      case (Cons q qs)
      then show ?thesis
        using Resetting written_ok_shadow [OF ok reset_pin_shadow [of s A q h], of "Resetting seen qs"]
        by simp
    qed
  next
    case Command_test
    let ?c = "ring_front USBIO_QUEUE_DEPTH (fw_queue s)" and ?t = "s\<lparr>fw_queue := ring_drop (fw_queue s)\<rparr>"
    show ?thesis
    proof (cases "ring_tail (fw_queue s) = ring_head (fw_queue s)")
      case True
      then show ?thesis
        using Command_test by (simp, intro written_ok_step [OF ok]) (simp_all add: in_flight_def)
    next
      case False
      have "in_flight (Taken ?c) ?t = in_flight pc s"
        using ring32.contents_front [OF False] Command_test by (simp add: in_flight_def live_commands_def)
      with False Command_test show ?thesis
        by (simp, intro written_ok_step [OF ok]) simp_all
    qed
  next
    case (Taken c)
    then show ?thesis
      by (simp, intro conjI impI written_ok_step [OF ok]) (simp_all add: in_flight_def)
  next
    case (Approved c)
    then show ?thesis
      using written_ok_execute [of c s p v b A h] ok drain by simp
  next
    case (Refreshing ps)
    show ?thesis
    proof (cases ps)
      case Nil
      then show ?thesis
        using Refreshing by (simp, intro written_ok_step [OF ok]) (simp_all add: in_flight_def)
    next
      case (Cons q qs)
      then show ?thesis
        using Refreshing refresh_pin_output [OF is_output, of A q h]
          written_ok_shadow [OF ok refresh_pin_shadow [of s A q h], of "Refreshing qs"]
        by simp
    qed
  next
    case Analog_turn
    then show ?thesis
      using written_ok_shadow [OF ok sample_next_analog_shadow, of Scan_start]
      by (simp add: sample_next_analog_dio)
  next
    case (Scanning now iz)
    have move: "written_ok (Scanning now js) s p v" "written_ok (after_scan b) s p v" for js
      using Scanning by (auto intro!: written_ok_step [OF ok] simp: in_flight_def after_scan_def)
    show ?thesis
      using Scanning move written_ok_pin_side [OF _ event_change_pin_side [OF scan_watch_change]]
      by (cases iz) simp_all
  next
    case Scan_start
    then show ?thesis
      by (auto intro!: written_ok_step [OF ok] simp: in_flight_def after_scan_def split: prod.split simp del: upt_Suc)
  next
    case Stream_started
    have "written_ok Stream_due s p v"
      using Stream_started by (auto intro!: written_ok_step [OF ok] simp: in_flight_def)
    then show ?thesis
      using Stream_started written_ok_pin_side [OF _ same_core_pin_side [OF apply_start_core]] by simp
  next
    case Stream_due
    have "written_ok Stream_pack s p v"
      using Stream_due by (auto intro!: written_ok_step [OF ok] simp: in_flight_def)
    then show ?thesis
      using Stream_due written_ok_pin_side [OF _ same_core_pin_side [OF take_due_sample_core]] by simp
  next
    case Stream_pack
    have "written_ok Stream_send s p v"
      using Stream_pack by (auto intro!: written_ok_step [OF ok] simp: in_flight_def)
    then show ?thesis
      using Stream_pack written_ok_pin_side [OF _ same_core_pin_side [OF pack_records_core]] by simp
  next
    case Stream_send
    have "written_ok Outside s p v"
      using Stream_send by (auto intro!: written_ok_step [OF ok] simp: in_flight_def)
    then show ?thesis
      using Stream_send written_ok_pin_side [OF _ same_core_pin_side [OF send_packet_core]] by simp
  qed (auto intro!: written_ok_step [OF ok] simp: in_flight_def)
qed


lemma draining_micro:
  assumes "draining pc \<Longrightarrow> fw_reset_done s = fw_reset_requests s"
    and "draining (fst (loop_micro b A pc s h))"
  shows "fw_reset_done (fst (snd (loop_micro b A pc s h))) =
    fw_reset_requests (fst (snd (loop_micro b A pc s h)))"
proof (cases pc)
  case (Approved c)
  then show ?thesis
    using assms(1) shadow_change_fields(6,7) [OF execute_shadow [of s b A c h]] by simp
next
  case (Resetting seen ps)
  then show ?thesis
    using assms(2) by (cases ps) simp_all
next
  case (Refreshing ps)
  then show ?thesis
    using assms(2) by (cases ps) simp_all
next
  case (Scanning now iz)
  then show ?thesis
    using assms(2) by (cases iz) (simp_all add: after_scan_def split: if_splits)
qed (use assms in \<open>auto simp: after_scan_def split: if_splits prod.splits simp del: upt_Suc\<close>)

section \<open>The packets\<close>

text \<open>\<open>s'\<close> is \<open>s\<close> with one more command queued; of the modes only that of a PIN_MODE's pin changed.\<close>

definition queues :: "usbio_request \<Rightarrow> u8 \<Rightarrow> u16 \<Rightarrow> fw \<Rightarrow> fw \<Rightarrow> bool" where
  "queues req pin v s s' \<longleftrightarrow> pin < fw_n_pins s \<and> fst (enqueue req pin v s) \<and>
     fw_queue s' = fw_queue (snd (enqueue req pin v s)) \<and>
     (\<forall>q. q \<noteq> pin \<or> req \<noteq> USBIO_REQ_PIN_MODE \<longrightarrow> fw_mode s' q = fw_mode s q) \<and>
     (req = USBIO_REQ_DIO_WRITE \<longrightarrow> fw_mode s pin = Some USBIO_MODE_OUTPUT) \<and>
     fw_n_pins s' = fw_n_pins s \<and> fw_dio s' = fw_dio s \<and> fw_epoch s' = fw_epoch s \<and>
     fw_reset_requests s' = fw_reset_requests s \<and> fw_reset_done s' = fw_reset_done s"

lemma queues_in_flight:
  assumes "queues req pin v s s'"
  shows "in_flight pc s' = in_flight pc s @
    [\<lparr>cmd_request = req, cmd_pin = pin, cmd_epoch = fw_epoch s, cmd_value = v\<rparr>]"
proof -
  have "commands s' = commands s @
      [\<lparr>cmd_request = req, cmd_pin = pin, cmd_epoch = fw_epoch s, cmd_value = v\<rparr>]"
    using assms enqueue_commands [of req pin v s] by (simp add: queues_def)
  then show ?thesis
    using assms held_same [of s' s pc] by (simp add: in_flight_def live_commands_def queues_def)
qed

lemma stall_pin_side: "pin_side (snd (stall e s)) = pin_side s"
  by (simp add: stall_def pin_side_def)

lemma event_config_pin_side: "pin_side (snd (handle_event_config pin v s)) = pin_side s"
  by (auto simp: handle_event_config_def arm_event_def discard_events_for_pin_def unwatch_def
      pin_side_def stall_def Let_def split: option.split)

lemma stream_requests_pin_side:
  "pin_side (snd (handle_stream_select v i s)) = pin_side s"
  "pin_side (snd (handle_stream_start v i s)) = pin_side s"
  "pin_side (snd (handle_stream_stop s)) = pin_side s"
  "pin_side (handle_usb_disconnected b s) = pin_side s"
  by (auto simp: handle_stream_select_def handle_stream_start_def handle_stream_stop_def
      handle_usb_disconnected_def remove_channel_def pin_side_def stall_def Let_def split: option.split)

lemma record_mode_resets:
  "fw_reset_requests (record_mode b pin m s) = fw_reset_requests s"
  "fw_reset_done (record_mode b pin m s) = fw_reset_done s"
  by (simp_all add: record_mode_def Let_def unwatch_def split: option.split)

lemma enqueue_or_stall_queues:
  assumes "enqueue_or_stall req pin v s = (True, s')" and "pin < fw_n_pins s"
    and "req = USBIO_REQ_DIO_WRITE \<longrightarrow> fw_mode s pin = Some USBIO_MODE_OUTPUT"
  shows "queues req pin v s s'"
  using assms
  by (cases "32 \<le> length (commands s)")
    (auto simp: enqueue_or_stall_def stall_def queues_def enqueue_def split: if_splits prod.splits)

lemma pin_mode_queues:
  assumes "handle_pin_mode b pin v s = (True, s')" and "pin < fw_n_pins s"
  shows "queues USBIO_REQ_PIN_MODE pin v s s'"
proof -
  have room: "\<not> 32 \<le> length (commands s)"
    using assms(1) by (auto simp: handle_pin_mode_def stall_def Let_def split: if_splits option.splits)
  have "\<not> 7 \<le> unat v" "mode_allowed b (fw_caps s pin) (the (mode_of (ucast v)))"
    using assms(1) by (auto simp: handle_pin_mode_def stall_def mode_count_iff Let_def
        split: if_splits option.splits prod.splits)
  from pin_mode_accepted [OF this room] show ?thesis
    using assms enqueue_room [OF room, of USBIO_REQ_PIN_MODE pin v]
    by (auto simp: queues_def record_mode_resets enqueue_def split: if_splits)
qed

text \<open>What an accepted OUT request does to the pins.\<close>

lemma handle_out_pins:
  assumes "handle_out b code v i len s = (ok, s')" and req: "request_of code = Some req"
    and dist: "distinct (stream_channels s)"
  shows "if \<not> ok then pin_side s' = pin_side s
    else if req = USBIO_REQ_RESET then s' = request_reset b s
    else if req = USBIO_REQ_PIN_MODE \<or> req = USBIO_REQ_PWM_WRITE \<or> req = USBIO_REQ_DAC_WRITE
      then queues req (ucast i) v s s'
    else if req = USBIO_REQ_DIO_WRITE
      then queues req (ucast i) (if v \<noteq> 0 then 1 else 0) s s'
    else pin_side s' = pin_side s"
proof (cases ok)
  case False
  have "pin_side s' = pin_side s"
    using handle_out_spec [OF dist, of b code v i len] assms(1) False
    by (cases "out_error b code v i len s") (simp_all add: pin_side_def)
  with False show ?thesis
    by simp
next
  case True
  show ?thesis
  proof (cases "is_pin_request req")
    case pin: True
    have range: "\<not> unat (fw_n_pins s) \<le> unat i" and
      eq: "handle_pin_request b req (ucast i) v s = (True, s')"
      using assms(1) req pin True by (cases req; auto simp: handle_out_def stall_def word_le_nat_alt
          split: if_splits)+
    have "unat i < 256"
      using order_less_trans [OF _ unat_lt_u8] range by (metis linorder_not_less)
    then have "(ucast i :: u8) < fw_n_pins s"
      using range by (simp add: word_less_nat_alt unat_ucast_u16_u8)
    with eq True pin show ?thesis
      using pin_mode_queues [of b "ucast i" v s s'] enqueue_or_stall_queues [of req "ucast i" _ s s']
        event_config_pin_side [of "ucast i" v s]
      by (cases req) (auto simp: handle_pin_request_def stall_def split: if_splits)
  next
    case False
    then show ?thesis
      using assms(1) req True stream_requests_pin_side(1,2) [of v i s] stream_requests_pin_side(3) [of s]
      by (cases req) (auto simp: handle_out_def stall_def split: if_splits)
  qed
qed

lemma handle_in_pin_side:
  assumes "handle_in b A code i len s h = (reply, s', h')"
  shows "pin_side s' = pin_side s"
proof (cases "request_of code")
  case None
  then show ?thesis
    using assms by (auto simp: handle_in_def stall_pin_side)
next
  case (Some req)
  obtain r s1 h1 where r: "in_reply b A req i len s h = (r, s1, h1)"
    by (metis prod.exhaust)
  have pop: "pin_side (snd (reply_event_pop i s)) = pin_side s"
    by (subst event_pop_frame) (simp add: pin_side_def)
  have "pin_side s1 = pin_side s"
    using pop by (subst in_reply_state [OF r]) (auto simp: pin_side_def split: usbio_request.split option.split)
  then show ?thesis
    using assms r by (auto simp: handle_in_def Some)
qed


section \<open>Every packet, every step\<close>

lemma written_ok_queues:
  assumes ok: "written_ok pc s p v" and q: "queues req pin w s s'"
    and "pin = p \<Longrightarrow> req \<noteq> USBIO_REQ_PIN_MODE \<and> req \<noteq> USBIO_REQ_DIO_WRITE"
  shows "written_ok pc s' p v"
proof -
  have "filter (sets_level p) (in_flight pc s') = filter (sets_level p) (in_flight pc s)"
    using assms(3) by (auto simp: queues_in_flight [OF q] sets_level_def)
  moreover have "fw_n_pins s' = fw_n_pins s" "fw_mode s' p = fw_mode s p" "fw_dio s' = fw_dio s"
    "fw_reset_requests s' = fw_reset_requests s" "fw_reset_done s' = fw_reset_done s"
    using q assms(3) by (auto simp: queues_def)
  ultimately show ?thesis
    using ok by (simp only: written_ok_def)
qed

lemma written_ok_write:
  assumes q: "queues USBIO_REQ_DIO_WRITE p (if v \<noteq> 0 then 1 else 0) s s'"
  shows "written_ok pc s' p (v \<noteq> 0)"
proof -
  have "fw_n_pins s' = fw_n_pins s" "fw_mode s' p = Some USBIO_MODE_OUTPUT" "p < fw_n_pins s"
    using q by (auto simp: queues_def)
  then show ?thesis
    by (simp add: written_ok_def queues_in_flight [OF q] sets_level_def)
qed

definition fresh :: "loop_pc \<Rightarrow> fw \<Rightarrow> (u8 \<Rightarrow> bool option) \<Rightarrow> bool" where
  "fresh pc s written \<longleftrightarrow> (\<forall>p v. written p = Some v \<longrightarrow> written_ok pc s p v)"

lemma freshI: "(\<And>p v. written p = Some v \<Longrightarrow> written_ok pc s p v) \<Longrightarrow> fresh pc s written"
  by (simp add: fresh_def)

lemma freshD: "fresh pc s written \<Longrightarrow> written p = Some v \<Longrightarrow> written_ok pc s p v"
  by (simp add: fresh_def)

lemma fresh_pin_side: "fresh pc s written \<Longrightarrow> pin_side s' = pin_side s \<Longrightarrow> fresh pc s' written"
  unfolding fresh_def by (blast intro: written_ok_pin_side)

lemma fresh_accepted:
  assumes fresh: "fresh pc s written"
    and out: "handle_out b (bRequest k) (wValue k) i len s = (True, s')"
    and index: "ucast i = packet_index k" and dir: "bmRequestType k AND 0x80 = 0"
    and dist: "distinct (stream_channels s)"
  shows "fresh pc s' (note_written k written)"
proof -
  have "request_of (bRequest k) \<noteq> None"
    using out by (auto simp: handle_out_def stall_def split: if_splits option.splits)
  then obtain req where req: "request_of (bRequest k) = Some req"
    by auto
  have noted: "out_request k = Some req"
    using dir req by (simp add: out_request_def)
  note effect = handle_out_pins [OF out req dist, unfolded index]
  show ?thesis
  proof (rule freshI)
    fix p v
    assume later: "note_written k written p = Some v"
    consider "req = USBIO_REQ_DIO_WRITE" "p = packet_index k"
      | "req = USBIO_REQ_DIO_WRITE" "p \<noteq> packet_index k"
      | "req = USBIO_REQ_PIN_MODE" | "req = USBIO_REQ_PWM_WRITE \<or> req = USBIO_REQ_DAC_WRITE"
      | "req = USBIO_REQ_RESET"
      | "\<not> (req = USBIO_REQ_DIO_WRITE \<or> req = USBIO_REQ_PIN_MODE \<or> req = USBIO_REQ_PWM_WRITE
          \<or> req = USBIO_REQ_DAC_WRITE \<or> req = USBIO_REQ_RESET)"
      by blast
    then show "written_ok pc s' p v"
    proof cases
      case 1
      then show ?thesis
        using later noted effect written_ok_write [of p "wValue k" s s' pc]
        by (simp add: note_written_def)
    next
      case 2
      then show ?thesis
        using later noted effect freshD [OF fresh] written_ok_queues [of pc s p v req "packet_index k" _ s']
        by (simp add: note_written_def)
    next
      case 3
      then show ?thesis
        using later noted effect freshD [OF fresh] written_ok_queues [of pc s p v req "packet_index k" _ s']
        by (simp add: note_written_def split: if_splits)
    next
      case 4
      then show ?thesis
        using later noted effect freshD [OF fresh] written_ok_queues [of pc s p v req "packet_index k" _ s']
        by (auto simp: note_written_def)
    next
      case 5
      then show ?thesis
        using later noted by (simp add: note_written_def)
    next
      case 6
      then have "written p = Some v"
        using later noted by (cases req) (simp_all add: note_written_def)
      from written_ok_pin_side [OF freshD [OF fresh this]] show ?thesis
        using 6 effect by simp
    qed
  qed
qed

lemma handle_setup_cases:
  assumes "handle_setup b A k s h = (reply, s', h')"
  obtains (refused) "reply = None" "\<exists>e. s' = s \<or> s' = snd (stall e s)"
  | (dispatched_in) i where "bmRequestType k AND 0x80 \<noteq> 0"
      "handle_in b A (bRequest k) i (wLength k) s h = (reply, s', h')"
  | (dispatched_out) i ok where "bmRequestType k AND 0x80 = 0" "ucast i = packet_index k"
      "handle_out b (bRequest k) (wValue k) i (wLength k) s = (ok, s')" "reply = (if ok then Some [] else None)"
proof -
  have direct: thesis
    if "(if bmRequestType k AND 0x80 \<noteq> 0 then handle_in b A (bRequest k) i (wLength k) s h
        else let (ok, s1) = handle_out b (bRequest k) (wValue k) i (wLength k) s
             in (if ok then Some [] else None, s1, h)) = (reply, s', h')" and "ucast i = packet_index k" for i
    using that dispatched_in dispatched_out [of i] by (auto split: if_splits prod.splits)
  show thesis
  proof (cases "bmRequestType k AND 0x60 = 0x40 \<and>
      (bmRequestType k AND 0x1F = 0 \<or>
       bmRequestType k AND 0x1F = 1 \<and> fw_flags s AND USBIO_FLAG_VENDOR_INTERFACE \<noteq> 0)")
    case True
    show thesis
    proof (cases "bmRequestType k AND 0x1F = 0")
      case device: True
      show thesis
        by (rule direct [of "wIndex k"])
          (use assms True device in \<open>simp_all add: handle_setup_def packet_index_def\<close>)
    next
      case False
      show thesis
        by (rule direct [of "drop_bit 8 (wIndex k)"])
          (use assms True False in \<open>simp_all add: handle_setup_def packet_index_def\<close>)
    qed
  next
    case False
    then show thesis
      using assms refused by (fastforce simp: handle_setup_def Let_def split: if_splits)
  qed
qed


text \<open>One packet keeps the promise, unless it is a RESET that comes while commands are drained.\<close>

lemma fresh_packet:
  assumes "fresh (run_pc r) (run_fw r) (run_written r)"
    and drain: "draining (run_pc r) \<longrightarrow> fw_reset_done (run_fw r) = fw_reset_requests (run_fw r)"
    and dist: "distinct (stream_channels (run_fw r))"
    and late: "\<not> run_late (snd (run_packet b A k r))"
  shows "fresh (run_pc (snd (run_packet b A k r))) (run_fw (snd (run_packet b A k r)))
      (run_written (snd (run_packet b A k r))) \<and>
    (draining (run_pc (snd (run_packet b A k r))) \<longrightarrow>
      fw_reset_done (run_fw (snd (run_packet b A k r))) =
      fw_reset_requests (run_fw (snd (run_packet b A k r))))"
proof -
  obtain reply s' h' where step: "handle_setup b A k (run_fw r) (run_world r) = (reply, s', h')"
    by (metis prod.exhaust)
  have same: "fresh (run_pc r) s' (run_written r) \<and>
      (draining (run_pc r) \<longrightarrow> fw_reset_done s' = fw_reset_requests s')" if "pin_side s' = pin_side (run_fw r)"
    using fresh_pin_side [OF assms(1) that] drain that by (simp add: pin_side_def)
  from step show ?thesis
  proof (cases rule: handle_setup_cases)
    case refused
    then have "pin_side s' = pin_side (run_fw r)"
      using stall_pin_side by auto
    with same refused show ?thesis
      by (simp add: run_packet_def step)
  next
    case (dispatched_in i)
    then have "note_written k (run_written r) = run_written r"
      by (simp add: note_written_def out_request_def)
    with same handle_in_pin_side [OF dispatched_in(2)] show ?thesis
      by (simp add: run_packet_def step)
  next
    case (dispatched_out i ok)
    show ?thesis
    proof (cases ok)
      case True
      then obtain req where req: "request_of (bRequest k) = Some req"
        using dispatched_out(3) by (auto simp: handle_out_def stall_def split: if_splits option.splits)
      then have noted: "out_request k = Some req"
        using dispatched_out(1) by (simp add: out_request_def)
      have "draining (run_pc r) \<longrightarrow> req \<noteq> USBIO_REQ_RESET"
        using late noted True dispatched_out(4) by (auto simp: run_packet_def step)
      then have "draining (run_pc r) \<longrightarrow> fw_reset_done s' = fw_reset_requests s'"
        using handle_out_pins [OF dispatched_out(3) req dist] drain True
        by (auto simp: pin_side_def queues_def split: if_splits)
      moreover have "fresh (run_pc r) s' (note_written k (run_written r))"
        using fresh_accepted [OF assms(1) _ dispatched_out(2,1) dist] dispatched_out(3) True by simp
      ultimately show ?thesis
        using True dispatched_out(4) by (simp add: run_packet_def step)
    next
      case False
      have "pin_side s' = pin_side (run_fw r)"
        using handle_out_spec [OF dist, of b "bRequest k" "wValue k" i "wLength k"] dispatched_out(3) False
        by (cases "out_error b (bRequest k) (wValue k) i (wLength k) (run_fw r)") (simp_all add: pin_side_def)
      with same False dispatched_out(4) show ?thesis
        by (simp add: run_packet_def step)
    qed
  qed
qed

end
