(* ===== verification/InterleavingGuarantees.thy ===== *)
theory InterleavingGuarantees
  imports Freshness Bench
begin

text \<open>
  What the firmware guarantees when SETUP packets and disconnects interrupt \<open>poll()\<close> between any
  two of its steps, and two schedules on the bench in which the guarantee about written levels
  needs its side conditions.
\<close>

section \<open>Along every interleaving\<close>

lemma interleaved_fresh:
  assumes "interleaved b A r" and wf: "wf_board b" and "\<not> run_late r"
  shows "fresh (run_pc r) (run_fw r) (run_written r) \<and>
    (draining (run_pc r) \<longrightarrow> fw_reset_done (run_fw r) = fw_reset_requests (run_fw r))"
  using assms(1,3)
proof induction
  case (begun h)
  show ?case
    by (simp add: first_run_def fresh_def case_prod_unfold)
next
  case (loop r)
  let ?m = "loop_micro b A (run_pc r) (run_fw r) (run_world r)"
  have "fresh (fst ?m) (fst (snd ?m)) (run_written r)"
    using loop written_ok_micro [of "run_pc r" "run_fw r" _ _ b A "run_world r"]
    by (simp add: fresh_def run_loop_def case_prod_unfold)
  moreover have "draining (fst ?m) \<longrightarrow> fw_reset_done (fst (snd ?m)) = fw_reset_requests (fst (snd ?m))"
    using loop draining_micro [of "run_pc r" "run_fw r" b A "run_world r"]
    by (simp add: run_loop_def case_prod_unfold)
  ultimately show ?case
    by (simp add: run_loop_def case_prod_unfold)
next
  case (packet r p)
  have dist: "distinct (stream_channels (run_fw r))"
    using interleaved_inv(1) [OF packet(1) wf] by (simp add: fw_inv_def stream_inv_def)
  have "\<not> run_late r"
    using packet(3) by (auto simp: run_packet_def case_prod_unfold)
  with packet fresh_packet [OF _ _ dist] show ?case
    by blast
next
  case (unplugged r)
  have side: "pin_side (handle_usb_disconnected b (run_fw r)) = pin_side (run_fw r)"
    by (rule stream_requests_pin_side(4))
  with unplugged fresh_pin_side [OF _ side] show ?case
    by (simp add: pin_side_def)
qed simp


text \<open>A small step makes only the calls on the board that the pins' capabilities allow.\<close>

lemma loop_micro_effects:
  assumes mon: "monitored b A s P" and P: "P h" and inv: "fw_inv b s" and wf: "wf_board b"
    and ok: "pc_ok b s pc"
  shows "P (snd (snd (loop_micro b A pc s h)))"
proof -
  have modes: "mode_inv b s" and streams: "stream_inv b s"
    using inv by (simp_all add: fw_inv_def)
  show ?thesis
  proof (cases pc)
    case (Resetting seen ps)
    have "P (snd (reset_pin A p (s, h)))" for p
      using P reads_monitored(1) [OF mon monitoredD(1) [OF mon P], of p INPUT]
      by (simp add: reset_pin_def case_prod_beta Let_def)
    with P Resetting show ?thesis
      by (cases ps) simp_all
  next
    case (Approved c)
    then show ?thesis
      using execute_effects [OF mon P _ wf] ok by simp
  next
    case (Refreshing ps)
    have "P (snd (refresh_pin A p (s, h)))" for p
      using P reads_monitored(1) [OF mon P] by (simp add: refresh_pin_def case_prod_beta)
    with P Refreshing show ?thesis
      by (cases ps) simp_all
  next
    case Analog_turn
    then show ?thesis
      using sample_next_analog_effects [OF mon P modes] by simp
  next
    case Scan_start
    then show ?thesis
      using P monitoredD(6) [OF mon P] by (auto simp: case_prod_beta simp del: upt_Suc) (metis surjective_pairing)
  next
    case (Scanning now iz)
    with P show ?thesis
      by (cases iz) simp_all
  qed (use P stream_start_effects [OF mon P] take_due_sample_effects [OF mon P modes]
      pack_records_effects [OF mon P] send_packet_effects [OF mon P streams] in simp_all)
qed

section \<open>poll always comes to an end\<close>

text \<open>
  A bound on the small steps left before \<open>poll()\<close> is outside again, if nothing interrupts it: a pin
  of a reset or a refresh is one step, a command three, a watch one.
\<close>

definition resets_left :: "nat \<Rightarrow> nat \<Rightarrow> bool \<Rightarrow> nat" where
  "resets_left pins queued pending = (if pending then pins + 2 else 0) + 3 * queued + pins + 19"

definition drain_left :: "nat \<Rightarrow> nat \<Rightarrow> bool \<Rightarrow> nat" where
  "drain_left pins queued pending =
     3 * queued + (if pending then resets_left pins 0 True + 2 else pins + 18)"

definition reset_steps :: "fw \<Rightarrow> nat" where
  "reset_steps s = resets_left (unat (fw_n_pins s)) (length (commands s))
     (fw_reset_done s \<noteq> fw_reset_requests s)"

definition drain_steps :: "fw \<Rightarrow> nat" where
  "drain_steps s = drain_left (unat (fw_n_pins s)) (length (commands s))
     (fw_reset_done s \<noteq> fw_reset_requests s)"

fun steps_left :: "loop_pc \<Rightarrow> fw \<Rightarrow> nat" where
  "steps_left Outside s = 0"
| "steps_left Reset_test s = reset_steps s"
| "steps_left (Resetting seen ps) s = length ps + 1 +
     resets_left (unat (fw_n_pins s)) (length (commands s)) (seen \<noteq> fw_reset_requests s)"
| "steps_left Command_test s = drain_steps s"
| "steps_left (Taken c) s = drain_steps s + 2"
| "steps_left (Approved c) s = drain_steps s + 1"
| "steps_left Repeat_test s = (if fw_reset_done s \<noteq> fw_reset_requests s
     then reset_steps s + 1 else unat (fw_n_pins s) + 17)"
| "steps_left (Refreshing ps) s = length ps + 16"
| "steps_left Analog_turn s = 15"
| "steps_left Scan_start s = 14"
| "steps_left (Scanning now is) s = length is + 5"
| "steps_left Stream_started s = 4"
| "steps_left Stream_due s = 3"
| "steps_left Stream_pack s = 2"
| "steps_left Stream_send s = 1"

lemma steps_left_shadow:
  assumes "shadow_change s s'"
  shows "steps_left pc s' = steps_left pc s"
  using shadow_change_fields [OF assms] by (cases pc) (simp_all add: reset_steps_def drain_steps_def)

lemma steps_left_decreases:
  assumes "pc \<noteq> Outside"
  shows "steps_left (fst (loop_micro b A pc s h)) (fst (snd (loop_micro b A pc s h))) < steps_left pc s"
proof (cases pc)
  case (Resetting seen ps)
  then show ?thesis
    using steps_left_shadow [OF reset_pin_shadow [of s A _ h], of "Resetting seen _"]
    by (cases ps) (simp_all add: reset_steps_def resets_left_def)
next
  case Command_test
  show ?thesis
  proof (cases "ring_tail (fw_queue s) = ring_head (fw_queue s)")
    case True
    then have "commands s = []"
      by (simp add: ring32.contents_empty_iff)
    with True Command_test show ?thesis
      by (simp add: drain_steps_def reset_steps_def drain_left_def)
  next
    case False
    with Command_test show ?thesis
      using ring32.contents_front [OF False] by (simp add: drain_steps_def reset_steps_def drain_left_def)
  qed
next
  case (Approved c)
  then show ?thesis
    using steps_left_shadow [OF execute_shadow [of s b A c h], of Command_test] by simp
next
  case (Refreshing ps)
  then show ?thesis
    using steps_left_shadow [OF refresh_pin_shadow [of s A _ h], of "Refreshing _"] by (cases ps) simp_all
next
  case (Scanning now iz)
  then show ?thesis
    by (cases iz) (simp_all add: after_scan_def)
next
  case Scan_start
  then show ?thesis
    by (simp add: after_scan_def case_prod_unfold Let_def)
qed (use assms in \<open>simp_all add: reset_steps_def drain_steps_def resets_left_def drain_left_def after_scan_def\<close>)

lemma loop_micro_mode: "fw_mode (fst (snd (loop_micro b A pc s h))) = fw_mode s"
proof -
  have stream: "fw_mode (fst (apply_start A s h)) = fw_mode s"
    "fw_mode (fst (take_due_sample A s h)) = fw_mode s"
    "fw_mode (fst (pack_records b A s h)) = fw_mode s" "fw_mode (fst (send_packet b A s h)) = fw_mode s"
    using apply_start_core [of s A h] take_due_sample_core [of s A h] pack_records_core [of s b A h]
      send_packet_core [of s b A h]
    by (simp_all only: same_core_def)
  show ?thesis
  proof (cases pc)
    case (Resetting seen ps)
    then show ?thesis
      using shadow_change_fields(2) [OF reset_pin_shadow [of s A _ h]] by (cases ps) simp_all
  next
    case (Approved c)
    then show ?thesis
      using shadow_change_fields(2) [OF execute_shadow [of s b A c h]] by simp
  next
    case (Refreshing ps)
    then show ?thesis
      using shadow_change_fields(2) [OF refresh_pin_shadow [of s A _ h]] by (cases ps) simp_all
  next
    case Analog_turn
    then show ?thesis
      using shadow_change_fields(2) [OF sample_next_analog_shadow] by simp
  next
    case (Scanning now iz)
    then show ?thesis
      using event_change_pin_side [OF scan_watch_change] by (cases iz) (simp_all add: pin_side_def)
  qed (use stream in \<open>simp_all split: prod.split del: upt_Suc\<close>)
qed

lemma outside_reached:
  "\<exists>n s' h'. n \<le> steps_left pc s \<and> (micro b A ^^ n) (pc, s, h) = (Outside, s', h') \<and> fw_mode s' = fw_mode s"
proof (induction "steps_left pc s" arbitrary: pc s h rule: less_induct)
  case less
  show ?case
  proof (cases "pc = Outside")
    case True
    then show ?thesis
      by (intro exI [of _ 0]) simp
  next
    case False
    obtain pc1 s1 h1 where step: "loop_micro b A pc s h = (pc1, s1, h1)"
      by (metis prod.exhaust)
    have "steps_left pc1 s1 < steps_left pc s"
      using steps_left_decreases [OF False, of b A s h] by (simp add: step)
    from less [OF this, of h1] obtain n s' h' where "n \<le> steps_left pc1 s1"
      "(micro b A ^^ n) (pc1, s1, h1) = (Outside, s', h')" "fw_mode s' = fw_mode s1"
      by blast
    moreover from this(2) have "(micro b A ^^ Suc n) (pc, s, h) = (Outside, s', h')"
      by (simp add: funpow_Suc_right micro_eq step del: funpow.simps)
    ultimately show ?thesis
      using \<open>steps_left pc1 s1 < steps_left pc s\<close> loop_micro_mode [of b A pc s h]
      by (intro exI [of _ "Suc n"] exI [of _ s'] exI [of _ h']) (simp add: step del: funpow.simps)
  qed
qed

text \<open>The lists \<open>poll()\<close> goes through are no longer than the tables.\<close>

fun short :: "loop_pc \<Rightarrow> bool" where
  "short (Resetting seen ps) = (length ps \<le> 128)"
| "short (Refreshing ps) = (length ps \<le> 128)"
| "short (Scanning now is) = (length is \<le> 8)"
| "short _ = True"

lemma interleaved_short:
  assumes "interleaved b A r" and wf: "wf_board b"
  shows "short (run_pc r)"
  using assms(1)
proof induction
  case (begun h)
  then show ?case
    by (simp add: first_run_def case_prod_unfold)
next
  case (loop r)
  have n: "unat (fw_n_pins (run_fw r)) \<le> 128"
    using interleaved_inv(1) [OF loop(1) wf] by (simp add: fw_inv_def pins_inv_def)
  have "short (fst (loop_micro b A (run_pc r) (run_fw r) (run_world r)))"
  proof (cases "run_pc r")
    case (Resetting seen ps)
    then show ?thesis
      using loop(2) by (cases ps) simp_all
  next
    case (Refreshing ps)
    then show ?thesis
      using loop(2) by (cases ps) simp_all
  next
    case (Scanning now iz)
    then show ?thesis
      using loop(2) by (cases iz) (simp_all add: after_scan_def)
  qed (use n in \<open>simp_all add: after_scan_def case_prod_unfold Let_def\<close>)
  then show ?case
    by (simp add: run_loop_def case_prod_unfold)
qed (simp_all add: run_packet_def case_prod_unfold)

lemma steps_left_bound:
  assumes "short pc" and "unat (fw_n_pins s) \<le> 128" and "length (commands s) \<le> 32"
  shows "steps_left pc s \<le> 502"
  using assms by (cases pc) (auto simp: reset_steps_def drain_steps_def resets_left_def drain_left_def)

section \<open>The guarantees\<close>

text \<open>C1. However packets and disconnects interrupt the steps of \<open>poll()\<close>, the device satisfies its
  invariant at every moment: pin and analog counts within the protocol limits, no pin in a mode its
  capabilities exclude, queued commands validated for their pins, the rings within their depth, at
  most eight distinct watched pins (all existing, digital and in an INPUT mode), queued events of
  existing pins, distinct existing stream channels, records of even length that fit a slot and a
  packet within the transport's limit.  The command \<open>poll()\<close> holds in its local variable is
  validated too.\<close>

theorem interleaved_states_keep_invariant:
  assumes "interleaved b A r" and "wf_board b"
  shows "fw_inv b (run_fw r) \<and> pc_ok b (run_fw r) (run_pc r)"
  using interleaved_inv [OF assms] by blast

text \<open>C10. At every moment of every interleaving, the next step of \<open>poll()\<close> preserves whatever is
  preserved by configuring and driving digital pins, sampling analog pins, writing in-range duties
  to PWM and DAC pins and sending packets the transport takes: it makes no other call on the
  board.\<close>

theorem interleaved_steps_respect_pin_capabilities:
  assumes "interleaved b A r" and "wf_board b" and "monitored b A (run_fw r) P" and "P (run_world r)"
  shows "P (run_world (run_loop b A r))"
  using loop_micro_effects [OF assms(3,4) interleaved_inv(1) [OF assms(1,2)] assms(2)
      interleaved_inv(2) [OF assms(1,2)]]
  by (simp add: run_loop_def case_prod_unfold)

text \<open>C3. However interrupts left it, \<open>poll()\<close> returns: with no more of them it is back outside after at
  most 502 small steps, with the modes of the pins as they were, and the next call of \<open>poll()\<close> leaves
  no command and no RESET pending.\<close>

theorem poll_returns_from_anywhere:
  assumes "interleaved b A r" and "wf_board b"
  shows "\<exists>n s h. n \<le> 502 \<and> (micro b A ^^ n) (run_pc r, run_fw r, run_world r) = (Outside, s, h) \<and>
    fw_mode s = fw_mode (run_fw r) \<and>
    (\<exists>m. (micro b A ^^ m) (Outside, s, h) = (Outside, poll b A s h)) \<and>
    \<not> busy (fst (poll b A s h)) \<and> commands (fst (poll b A s h)) = []"
proof -
  have "fw_inv b (run_fw r)"
    by (rule interleaved_inv(1) [OF assms])
  then have "steps_left (run_pc r) (run_fw r) \<le> 502"
    by (intro steps_left_bound interleaved_short [OF assms])
      (simp_all add: fw_inv_def pins_inv_def queue_inv_def ring32.ring_ok_iff)
  moreover have "\<exists>m. (micro b A ^^ m) (Outside, s, h) = (Outside, poll b A s h)" for s h
    using poll_runs [of b A s h] by (simp add: runs_to_def)
  ultimately show ?thesis
    using outside_reached [of "run_pc r" "run_fw r" b A "run_world r"] poll_fields [of b A] poll_not_busy [of b A]
    by (meson order.trans)
qed

fun holding :: "loop_pc \<Rightarrow> bool" where
  "holding (Taken c) = True"
| "holding (Approved c) = True"
| "holding _ = False"

text \<open>How a DIO_READ of an output is answered, and what the shadow level is worth.\<close>

lemma dio_read_answer:
  assumes "p < fw_n_pins (run_fw r)" and "fw_mode (run_fw r) p = Some USBIO_MODE_OUTPUT"
  shows "fst (run_packet b A (in_packet USBIO_REQ_DIO_READ (ucast p) 2) r) =
    Some (if busy (run_fw r) then dio_reply_bytes USBIO_BUSY 0
          else dio_reply_bytes USBIO_OK (fw_dio (run_fw r) p))"
proof -
  have "(ucast (ucast p :: u16) :: u8) = p"
    by (simp add: word_unat_eq_iff unat_ucast_u16_u8 unat_lt_u8)
  with assms have "reply_dio_read (ucast p) (run_fw r) =
      (if busy (run_fw r) then dio_reply_bytes USBIO_BUSY 0
       else dio_reply_bytes USBIO_OK (fw_dio (run_fw r) p))"
    by (simp add: reply_dio_read_def mode_is_digital_def word_le_nat_alt word_less_nat_alt)
  moreover have "request_of (request_code USBIO_REQ_DIO_READ) = Some USBIO_REQ_DIO_READ"
    by (rule request_of_code)
  ultimately show ?thesis
    by (simp add: run_packet_def handle_setup_def in_packet_def handle_in_def in_reply_def
        dio_reply_bytes_def case_prod_unfold del: request_code.simps status_code.simps)
qed

lemma written_level:
  assumes "interleaved b A r" and "wf_board b" and "\<not> run_late r" and "run_written r p = Some v"
  shows "p < fw_n_pins (run_fw r)" "fw_mode (run_fw r) p = Some USBIO_MODE_OUTPUT"
    and "\<not> busy (run_fw r) \<Longrightarrow> fw_dio (run_fw r) p \<noteq> (if v then 1 else 0) \<Longrightarrow>
      \<exists>c. held (run_pc r) (run_fw r) = [c] \<and> cmd_request c = USBIO_REQ_DIO_WRITE \<and> cmd_pin c = p \<and>
        (cmd_value c \<noteq> 0) = v"
proof -
  let ?s = "run_fw r"
  have ok: "written_ok (run_pc r) ?s p v"
    using interleaved_fresh [OF assms(1-3)] assms(4) by (simp add: fresh_def)
  then show "p < fw_n_pins ?s" "fw_mode ?s p = Some USBIO_MODE_OUTPUT"
    by (simp_all add: written_ok_def)
  assume "\<not> busy ?s" and stale: "fw_dio ?s p \<noteq> (if v then 1 else 0)"
  then have "live_commands ?s = []"
    by (simp add: live_commands_def busy_def queue_pending_def ring_pending_def ring32.contents_empty_iff)
  with ok stale show "\<exists>c. held (run_pc r) ?s = [c] \<and> cmd_request c = USBIO_REQ_DIO_WRITE \<and>
      cmd_pin c = p \<and> (cmd_value c \<noteq> 0) = v"
    by (cases "run_pc r") (auto simp: written_ok_def in_flight_def sets_level_def split: if_splits)
qed

lemma written_read:
  assumes "interleaved b A r" and "wf_board b" and "\<not> run_late r" and "\<not> holding (run_pc r)"
    and "run_written r p = Some v"
  shows "fst (run_packet b A (in_packet USBIO_REQ_DIO_READ (ucast p) 2) r) =
    Some (if busy (run_fw r) then dio_reply_bytes USBIO_BUSY 0
          else dio_reply_bytes USBIO_OK (if v then 1 else 0))"
proof -
  note level = written_level [OF assms(1-3,5)]
  have "held (run_pc r) (run_fw r) = []"
    using assms(4) by (cases "run_pc r") simp_all
  with level(3) have "fw_dio (run_fw r) p = (if v then 1 else 0)" if "\<not> busy (run_fw r)"
    using that by fastforce
  then show ?thesis
    by (simp add: dio_read_answer [OF level(1,2)])
qed

text \<open>C7. Provided no RESET came while commands were being drained and \<open>poll()\<close> does not hold a
  command it has taken from the queue and not yet executed: a DIO_READ of a pin last written by an
  accepted DIO_WRITE answers BUSY while commands or a RESET are pending, and otherwise OK with the
  level written, wherever the interrupt hits \<open>poll()\<close>.\<close>

theorem written_levels_read_fresh:
  assumes "interleaved b A r" and "wf_board b" and "\<not> run_late r" and "\<not> holding (run_pc r)"
    and "run_written r p = Some v"
  shows "fst (run_packet b A (in_packet USBIO_REQ_DIO_READ (ucast p) 2) r) =
    Some (if busy (run_fw r) then dio_reply_bytes USBIO_BUSY 0
          else dio_reply_bytes USBIO_OK (if v then 1 else 0))"
  by (rule written_read [OF assms])



text \<open>A reset leaves every digital pin with the level it reads as an input.\<close>

lemma reset_pins_levels:
  assumes "p \<in> set ps" and "fw_caps s p AND USBIO_CAP_DIO \<noteq> 0"
  shows "\<exists>g. fw_dio (fst (fold (reset_pin A) ps (s, h))) p = fst (read_pin A p (pinMode A p INPUT g))"
  using assms
proof (induction ps rule: rev_induct)
  case (snoc q ps)
  obtain s1 h1 where 1: "fold (reset_pin A) ps (s, h) = (s1, h1)"
    by fastforce
  have caps: "fw_caps s1 = fw_caps s"
    using shadow_change_fields(3) [OF shadow_change_fold [of "reset_pin A" s ps h]]
    by (simp add: reset_pin_shadow 1)
  have "fw_dio (fst (reset_pin A q (s1, h1))) p =
      (if q = p then fst (read_pin A p (pinMode A p INPUT h1)) else fw_dio s1 p)"
    using snoc(3) by (auto simp: reset_pin_def caps split: prod.split)
  then show ?case
    using snoc 1 by auto
qed simp

lemma drained_runs:
  assumes "draining pc"
  shows "runs_to b A (pc, s, h) (Repeat_test, run_commands b A (in_flight pc s) (empty_queue s, h))"
proof -
  obtain s1 h1 where 1: "run_commands b A (held pc s) (s, h) = (s1, h1)"
    by fastforce
  have first: "runs_to b A (pc, s, h) (Command_test, s1, h1)"
  proof (cases pc)
    case (Taken c)
    then show ?thesis
      using 1 by (cases "cmd_epoch c = fw_epoch s"; intro runs_step)
        (simp_all add: run_commands_def runs_refl, intro runs_step, auto)
  next
    case (Approved c)
    then show ?thesis
      using 1 by (intro runs_step) (auto simp: run_commands_def)
  qed (use assms 1 in \<open>simp_all add: run_commands_def runs_refl\<close>)
  have sh: "shadow_change s s1"
    using run_commands_shadow [of s b A "held pc s" h] by (simp add: 1)
  have queue: "empty_queue s1 = s1\<lparr>fw_queue := (fw_queue s)\<lparr>ring_tail := ring_head (fw_queue s)\<rparr>\<rparr>"
    "empty_queue s = s\<lparr>fw_queue := (fw_queue s)\<lparr>ring_tail := ring_head (fw_queue s)\<rparr>\<rparr>"
    using shadow_change_fields(4) [OF sh] by (simp_all add: empty_queue_def)
  have "run_commands b A (held pc s) (empty_queue s, h) = (empty_queue s1, h1)"
    unfolding queue run_commands_queue 1 by simp
  moreover have "live_commands s1 = live_commands s"
    using shadow_change_fields(4,5) [OF sh] by (simp add: live_commands_def)
  ultimately have "drain_loop b A s1 h1 = run_commands b A (in_flight pc s) (empty_queue s, h)"
    by (simp add: drain_loop_eq in_flight_def run_commands_def)
  with runs_trans [OF first drain_loop_runs] show ?thesis
    by simp
qed

text \<open>C21. The side condition on a late RESET matters.  A RESET that comes while \<open>poll()\<close> drains the
  queue is applied only after the queue is empty: undisturbed, \<open>poll()\<close> first executes everything in
  flight, including what was accepted after the RESET, and then resets every digital pin to an input
  and takes its level.  The modes stay as the later requests left them: a pin made an output after the
  RESET is reported as one, with nothing pending, and reads back the level of an input, whatever was
  written to it.\<close>

theorem late_reset_undoes_later_commands:
  assumes "draining (run_pc r)" and "fw_reset_done (run_fw r) \<noteq> fw_reset_requests (run_fw r)"
  shows "\<exists>n m s1 h1 s2 h2.
    (micro b A ^^ n) (run_pc r, run_fw r, run_world r) = (Reset_test, s1, h1) \<and>
    (s1, h1) = run_commands b A (in_flight (run_pc r) (run_fw r)) (empty_queue (run_fw r), run_world r) \<and>
    (micro b A ^^ m) (Reset_test, s1, h1) = (Command_test, s2, h2) \<and>
    \<not> busy s2 \<and> fw_mode s2 = fw_mode (run_fw r) \<and>
    (\<forall>p < fw_n_pins (run_fw r). fw_caps (run_fw r) p AND USBIO_CAP_DIO \<noteq> 0 \<longrightarrow>
      (\<exists>g. fw_dio s2 p = fst (read_pin A p (pinMode A p INPUT g)) \<and>
        (fw_mode (run_fw r) p = Some USBIO_MODE_OUTPUT \<longrightarrow>
          reply_dio_read (ucast p) s2 = dio_reply_bytes USBIO_OK (fw_dio s2 p))))"
proof -
  let ?s = "run_fw r" and ?cs = "in_flight (run_pc r) (run_fw r)"
  obtain s1 h1 where 1: "run_commands b A ?cs (empty_queue ?s, run_world r) = (s1, h1)"
    by fastforce
  obtain t h2 where 2: "apply_reset A s1 h1 = (t, h2)"
    by fastforce
  define s2 where "s2 = t\<lparr>fw_reset_done := fw_reset_requests s1\<rparr>"
  note same1 = shadow_change_fields [OF run_commands_shadow [of "empty_queue ?s" b A ?cs "run_world r", unfolded 1 fst_conv]]
  note same2 = shadow_change_fields [OF apply_reset_shadow [of s1 A h1, unfolded 2 fst_conv]]
  have queue: "empty_queue ?s = ?s\<lparr>fw_queue := (fw_queue ?s)\<lparr>ring_tail := ring_head (fw_queue ?s)\<rparr>\<rparr>"
    by (simp add: empty_queue_def)
  have s1: "fw_n_pins s1 = fw_n_pins ?s" "fw_mode s1 = fw_mode ?s" "fw_caps s1 = fw_caps ?s"
    "fw_reset_done s1 \<noteq> fw_reset_requests s1" "ring_tail (fw_queue s1) = ring_head (fw_queue s1)"
    using same1 assms(2) unfolding queue by simp_all
  have "runs_to b A (run_pc r, ?s, run_world r) (Repeat_test, s1, h1)"
    using drained_runs [OF assms(1), of b A ?s "run_world r"] by (simp add: 1)
  moreover have "runs_to b A (Repeat_test, s1, h1) (Reset_test, s1, h1)"
    using s1(4) by (intro runs_step) auto
  ultimately have first: "runs_to b A (run_pc r, ?s, run_world r) (Reset_test, s1, h1)"
    by (rule runs_trans)
  have then_reset: "runs_to b A (Reset_test, s1, h1) (Command_test, s2, h2)"
    using reset_loop_runs [of b A s1 h1] s1(4) by (simp add: reset_loop_eq 2 s2_def)
  have idle: "\<not> busy s2"
    using same2 s1(5) by (simp add: s2_def busy_def queue_pending_def ring_pending_def)
  have modes: "fw_mode s2 = fw_mode ?s" and pins: "fw_n_pins s2 = fw_n_pins ?s"
    using same2 s1 by (simp_all add: s2_def)
  have levels: "\<exists>g. fw_dio s2 p = fst (read_pin A p (pinMode A p INPUT g))"
    if "p < fw_n_pins ?s" "fw_caps ?s p AND USBIO_CAP_DIO \<noteq> 0" for p
  proof -
    have "p \<in> set (pins_below (fw_n_pins s1))"
      using that(1) s1(1) by (simp add: set_pins_below)
    from reset_pins_levels [OF this, of s1 A h1] that(2) s1(3)
    show ?thesis
      using 2 by (auto simp: s2_def apply_reset_def split: prod.splits)
  qed
  have answer: "reply_dio_read (ucast p) s2 = dio_reply_bytes USBIO_OK (fw_dio s2 p)"
    if "p < fw_n_pins ?s" "fw_mode ?s p = Some USBIO_MODE_OUTPUT" for p
  proof -
    have "(ucast (ucast p :: u16) :: u8) = p"
      by (simp add: word_unat_eq_iff unat_ucast_u16_u8 unat_lt_u8)
    with that idle modes pins show ?thesis
      by (simp add: reply_dio_read_def mode_is_digital_def word_le_nat_alt word_less_nat_alt)
  qed
  obtain n m where "(micro b A ^^ n) (run_pc r, ?s, run_world r) = (Reset_test, s1, h1)"
    "(micro b A ^^ m) (Reset_test, s1, h1) = (Command_test, s2, h2)"
    using first then_reset by (auto simp: runs_to_def)
  with 1 idle modes levels answer show ?thesis
    by (intro exI [of _ n] exI [of _ m] exI [of _ s1] exI [of _ h1] exI [of _ s2] exI [of _ h2] conjI) auto
qed

section \<open>Runs on the bench\<close>

datatype happening = Turn | Arrives setup_packet

fun happen :: "bench arduino \<Rightarrow> happening \<Rightarrow> bench run \<Rightarrow> bench run" where
  "happen A Turn r = run_loop bench_board A r"
| "happen A (Arrives p) r = snd (run_packet bench_board A p r)"

fun go_on :: "bench arduino \<Rightarrow> happening list \<Rightarrow> bench run \<Rightarrow> bench run" where
  "go_on A [] r = r"
| "go_on A (x # xs) r = go_on A xs (happen A x r)"

definition plays :: "bench arduino \<Rightarrow> happening list \<Rightarrow> bench run" where
  "plays A hs = go_on A hs (first_run bench_board A quiet_bench)"

lemma go_on_interleaved: "interleaved bench_board A r \<Longrightarrow> interleaved bench_board A (go_on A hs r)"
proof (induction hs arbitrary: r)
  case (Cons x xs)
  then have "interleaved bench_board A (happen A x r)"
    by (cases x) (auto intro: interleaved.intros)
  then show ?case
    using Cons.IH by simp
qed simp

lemma plays_interleaved: "interleaved bench_board A (plays A hs)"
  unfolding plays_def by (intro go_on_interleaved interleaved.begun)

definition answers :: "bench arduino \<Rightarrow> u16 \<Rightarrow> bench run \<Rightarrow> bytes option" where
  "answers A pin r = fst (run_packet bench_board A (in_packet USBIO_REQ_DIO_READ pin 2) r)"

text \<open>Pin 3 made an output, the write of HIGH accepted while the PIN_MODE is being executed.\<close>

definition written_play :: "happening list" where
  "written_play = [Arrives (out_packet USBIO_REQ_PIN_MODE 1 3), Turn, Turn, Turn, Turn,
     Arrives (out_packet USBIO_REQ_DIO_WRITE 1 3), Turn, Turn, Turn, Turn]"

theorem written_levels_witness:
  "answers bench_arduino 3 (plays bench_arduino written_play) = Some (dio_reply_bytes USBIO_OK 1)"
proof -
  let ?r = "plays bench_arduino written_play"
  have now: "\<not> run_late ?r" "\<not> holding (run_pc ?r)" "run_written ?r 3 = Some True" "\<not> busy (run_fw ?r)"
    by code_simp+
  have "(ucast (3 :: u8) :: u16) = 3"
    by simp
  then show ?thesis
    using written_levels_read_fresh [OF plays_interleaved wf_bench_board now(1-3)] now(4)
    by (simp add: answers_def)
qed

theorem interleaved_states_witness:
  "fw_inv bench_board (run_fw (plays bench_arduino written_play)) \<and>
   pc_ok bench_board (run_fw (plays bench_arduino written_play)) (run_pc (plays bench_arduino written_play))"
  by (rule interleaved_states_keep_invariant [OF plays_interleaved wf_bench_board])

theorem interleaved_steps_witness:
  "pwm (run_world (run_loop bench_board bench_arduino (plays bench_arduino written_play))) 6 = 0"
proof -
  let ?r = "plays bench_arduino written_play"
  have "fw_caps (run_fw ?r) 6 AND USBIO_CAP_PWM = 0" "fw_caps (run_fw ?r) 6 AND USBIO_CAP_DAC = 0"
    by code_simp+
  then have "monitored bench_board bench_arduino (run_fw ?r) (\<lambda>w. pwm w 6 = 0)"
    by (auto simp: monitored_def may_drive_def bench_arduino_def)
  moreover have "pwm (run_world ?r) 6 = 0"
    by code_simp
  ultimately show ?thesis
    by (rule interleaved_steps_respect_pin_capabilities [OF plays_interleaved wf_bench_board])
qed

theorem poll_returns_witness:
  "\<exists>n s h. n \<le> 502 \<and>
     (micro bench_board bench_arduino ^^ n)
       (run_pc (plays bench_arduino written_play), run_fw (plays bench_arduino written_play),
        run_world (plays bench_arduino written_play)) = (Outside, s, h) \<and>
     fw_mode s 3 = Some USBIO_MODE_OUTPUT"
proof -
  have "fw_mode (run_fw (plays bench_arduino written_play)) 3 = Some USBIO_MODE_OUTPUT"
    by code_simp
  then show ?thesis
    using poll_returns_from_anywhere [OF plays_interleaved wf_bench_board, of bench_arduino written_play] by auto
qed



text \<open>On a board whose \<open>pinMode\<close> to INPUT releases the pad.\<close>

definition releasing_arduino :: "bench arduino" where
  "releasing_arduino = bench_arduino\<lparr>pinMode :=
     (\<lambda>p dir w. if dir = INPUT then w\<lparr>pads := (pads w)(p := False)\<rparr> else w)\<rparr>"

text \<open>What there is to see of pin 3: the answer to a DIO_READ, the level the host last wrote to it,
  its mode as the device has it, and the pad.\<close>

definition observed :: "bench arduino \<Rightarrow> bench run \<Rightarrow>
    bytes option \<times> bool option \<times> usbio_pin_mode option \<times> bool" where
  "observed A r = (answers A 3 r, run_written r 3, fw_mode (run_fw r) 3, pads (run_world r) 3)"

definition late_reset_play :: "happening list" where
  "late_reset_play = [Turn, Turn, Arrives (out_packet USBIO_REQ_RESET 0 0),
     Arrives (out_packet USBIO_REQ_PIN_MODE 1 3), Arrives (out_packet USBIO_REQ_DIO_WRITE 1 3)]"

text \<open>On the bench: the pad is released, while the device reports the pin as an output, nothing
  pending, and reads LOW back for the HIGH it accepted.\<close>

theorem late_reset_on_the_bench:
  "observed releasing_arduino (plays releasing_arduino (late_reset_play @ replicate 6 Turn)) =
     (Some (dio_reply_bytes USBIO_BUSY 0), Some True, Some USBIO_MODE_OUTPUT, True) \<and>
   observed releasing_arduino (plays releasing_arduino (late_reset_play @ replicate 20 Turn)) =
     (Some (dio_reply_bytes USBIO_OK 0), Some True, Some USBIO_MODE_OUTPUT, False)"
  by (rule conjI; code_simp)

theorem late_reset_witness:
  "\<exists>n. case (micro bench_board releasing_arduino ^^ n)
       (run_pc (plays releasing_arduino late_reset_play), run_fw (plays releasing_arduino late_reset_play),
        run_world (plays releasing_arduino late_reset_play)) of
     (pc, s, h) \<Rightarrow> pc = Command_test \<and> \<not> busy s \<and> fw_mode s 3 = Some USBIO_MODE_OUTPUT \<and>
       reply_dio_read 3 s = dio_reply_bytes USBIO_OK 0"
proof -
  let ?r = "plays releasing_arduino late_reset_play"
  have now: "draining (run_pc ?r)" "fw_reset_done (run_fw ?r) \<noteq> fw_reset_requests (run_fw ?r)"
    and pin: "(3 :: u8) < fw_n_pins (run_fw ?r)" "fw_caps (run_fw ?r) 3 AND USBIO_CAP_DIO \<noteq> 0"
    "fw_mode (run_fw ?r) 3 = Some USBIO_MODE_OUTPUT"
    by code_simp+
  have released: "fst (read_pin releasing_arduino 3 (pinMode releasing_arduino 3 INPUT g)) = 0" for g
    by (simp add: read_pin_def releasing_arduino_def bench_arduino_def)
  have three: "(ucast (3 :: u8) :: u16) = 3"
    by simp
  from late_reset_undoes_later_commands [OF now, of bench_board releasing_arduino] obtain n m s1 h1 s2 h2 where
    first: "(micro bench_board releasing_arduino ^^ n) (run_pc ?r, run_fw ?r, run_world ?r) = (Reset_test, s1, h1)"
    and then_reset: "(micro bench_board releasing_arduino ^^ m) (Reset_test, s1, h1) = (Command_test, s2, h2)"
    and idle: "\<not> busy s2" "fw_mode s2 = fw_mode (run_fw ?r)"
    and levels: "\<forall>p < fw_n_pins (run_fw ?r). fw_caps (run_fw ?r) p AND USBIO_CAP_DIO \<noteq> 0 \<longrightarrow>
      (\<exists>g. fw_dio s2 p = fst (read_pin releasing_arduino p (pinMode releasing_arduino p INPUT g)) \<and>
        (fw_mode (run_fw ?r) p = Some USBIO_MODE_OUTPUT \<longrightarrow>
          reply_dio_read (ucast p) s2 = dio_reply_bytes USBIO_OK (fw_dio s2 p)))"
    by blast
  have "reply_dio_read 3 s2 = dio_reply_bytes USBIO_OK 0"
    using levels pin released three by metis
  moreover have "(micro bench_board releasing_arduino ^^ (m + n)) (run_pc ?r, run_fw ?r, run_world ?r) =
      (Command_test, s2, h2)"
    by (simp add: funpow_add first then_reset)
  ultimately show ?thesis
    using idle pin(3) by (intro exI [of _ "m + n"]) simp
qed

end
