(* ===== verification/HostFloat.thy ===== *)
theory HostFloat
  imports Prelude Complex_Main
begin

text \<open>
  The \<open>double\<close> of the host library: IEEE 754 binary64 with rounding to nearest, ties to even.  A
  finite value is the real number it stands for (the sign of a zero is not kept: no operation of the
  library depends on it).  Products and quotients are the rounded exact results.  Lemmas: the error of
  a rounding, and how it grows along a computation.
\<close>

section \<open>Values and operations\<close>

datatype double = NaN | Infinity bool | Finite real

definition round_half_even :: "real \<Rightarrow> int" where
  "round_half_even x =
     (let f = \<lfloor>x\<rfloor>; d = x - of_int f
      in if d < 1 / 2 then f else if 1 / 2 < d then f + 1 else if even f then f else f + 1)"

fun bit_length :: "nat \<Rightarrow> nat" where
  "bit_length n = (if n = 0 then 0 else Suc (bit_length (n div 2)))"

declare bit_length.simps [simp del]

text \<open>The exponent of the leading bit of a positive number.\<close>

definition flog2 :: "real \<Rightarrow> int" where
  "flog2 x =
     (if 1 \<le> x then int (bit_length (nat \<lfloor>x\<rfloor>)) - 1
      else - int (bit_length (nat (\<lceil>1 / x\<rceil> - 1))))"

text \<open>The exponent of the last of the 53 bits, or of the smallest subnormal.\<close>

definition ulp_exponent :: "real \<Rightarrow> int" where
  "ulp_exponent x = max (-1074) (flog2 \<bar>x\<bar> - 52)"

definition round_double :: "real \<Rightarrow> double" where
  "round_double x =
     (if x = 0 then Finite 0
      else let u = 2 powi ulp_exponent x; r = of_int (round_half_even (x / u)) * u
           in if 2 powi 1024 \<le> \<bar>r\<bar> then Infinity (x < 0) else Finite r)"

text \<open>
  The equations are those the library and its tools need; other operands (a zero divisor, a product
  with an infinity or NaN) are left unspecified.
\<close>

fun d_add :: "double \<Rightarrow> double \<Rightarrow> double" where
  "d_add (Finite x) (Finite y) = round_double (x + y)"
| "d_add (Infinity negative) (Finite y) = Infinity negative"

fun d_mul :: "double \<Rightarrow> double \<Rightarrow> double" where
  "d_mul (Finite x) (Finite y) = round_double (x * y)"

fun d_div :: "double \<Rightarrow> double \<Rightarrow> double" where
  "d_div (Finite x) (Finite y) = (if y = 0 then undefined else round_double (x / y))"
| "d_div NaN (Finite y) = NaN"
| "d_div (Infinity negative) (Finite y) = Infinity (negative \<noteq> (y < 0))"
| "d_div (Finite x) (Infinity negative) = Finite 0"

fun d_le :: "double \<Rightarrow> double \<Rightarrow> bool" where
  "d_le NaN y = False"
| "d_le x NaN = False"
| "d_le (Finite x) (Finite y) = (x \<le> y)"
| "d_le (Infinity negative) (Infinity negative') = (negative \<or> \<not> negative')"
| "d_le (Infinity negative) (Finite y) = negative"
| "d_le (Finite x) (Infinity negative) = (\<not> negative)"

text \<open>Conversions: an unsigned integer below 2^53, and a \<open>static_cast\<close> to a signed integer, which
truncates (of a finite value in its range).\<close>

fun d_trunc :: "double \<Rightarrow> int" where
  "d_trunc (Finite x) = (if 0 \<le> x then \<lfloor>x\<rfloor> else - \<lfloor>- x\<rfloor>)"

definition double_of :: "nat \<Rightarrow> double" where
  "double_of n = Finite (of_nat n)"

text \<open>\<open>std::lround\<close>: halfway cases away from zero; of a finite value only.\<close>

fun lround :: "double \<Rightarrow> int" where
  "lround (Finite x) = (if 0 \<le> x then \<lfloor>x + 1 / 2\<rfloor> else - \<lfloor>- x + 1 / 2\<rfloor>)"

section \<open>Rounding to an integer\<close>

lemma round_half_even_error: "\<bar>of_int (round_half_even x) - x\<bar> \<le> 1 / 2"
proof -
  have "of_int \<lfloor>x\<rfloor> \<le> x" "x < of_int \<lfloor>x\<rfloor> + 1"
    by linarith+
  then show ?thesis
    by (auto simp: round_half_even_def Let_def abs_le_iff)
qed

lemma round_half_even_of_int [simp]: "round_half_even (of_int n) = n"
  by (simp add: round_half_even_def)

lemma round_half_even_nonneg: "0 \<le> x \<Longrightarrow> 0 \<le> round_half_even x"
  by (auto simp: round_half_even_def Let_def)

lemma lround_error: "\<bar>of_int (lround (Finite x)) - x\<bar> \<le> 1 / 2"
proof (cases "0 \<le> x")
  case True
  have "of_int \<lfloor>x + 1 / 2\<rfloor> \<le> x + 1 / 2" "x + 1 / 2 < of_int \<lfloor>x + 1 / 2\<rfloor> + 1"
    by linarith+
  then have "\<bar>of_int \<lfloor>x + 1 / 2\<rfloor> - x\<bar> \<le> 1 / 2"
    by linarith
  with True show ?thesis
    by simp
next
  case False
  have "of_int \<lfloor>- x + 1 / 2\<rfloor> \<le> - x + 1 / 2" "- x + 1 / 2 < of_int \<lfloor>- x + 1 / 2\<rfloor> + 1"
    by linarith+
  then have "\<bar>- of_int \<lfloor>- x + 1 / 2\<rfloor> - x\<bar> \<le> 1 / 2"
    by linarith
  with False show ?thesis
    by simp
qed

lemma lround_near:
  assumes "\<bar>x - of_int n\<bar> < 1 / 2" and "0 \<le> x"
  shows "lround (Finite x) = n"
proof -
  have "of_int n \<le> x + 1 / 2" "x + 1 / 2 < of_int n + 1"
    using assms(1) unfolding abs_less_iff by linarith+
  then have "\<lfloor>x + 1 / 2\<rfloor> = n"
    by (simp add: floor_eq_iff)
  with assms(2) show ?thesis
    by simp
qed

section \<open>The exponent\<close>

lemma bit_length_bounds:
  "0 < n \<Longrightarrow> 2 ^ (bit_length n - 1) \<le> n \<and> n < 2 ^ bit_length n \<and> 0 < bit_length n"
proof (induction n rule: bit_length.induct)
  case (1 n)
  show ?case
  proof (cases "n div 2 = 0")
    case True
    then have "n = 1"
      using 1(2) by simp
    then show ?thesis
      by (simp add: bit_length.simps)
  next
    case False
    have step: "bit_length n = Suc (bit_length (n div 2))"
      using 1(2) by (simp add: bit_length.simps [of n])
    have ih: "2 ^ (bit_length (n div 2) - 1) \<le> n div 2" "n div 2 < 2 ^ bit_length (n div 2)"
      "0 < bit_length (n div 2)"
      using 1 False by auto
    then obtain k where k: "bit_length (n div 2) = Suc k"
      by (cases "bit_length (n div 2)") auto
    show ?thesis
      using ih unfolding step k by auto
  qed
qed

lemma flog2_bounds:
  assumes "0 < x"
  shows "2 powi flog2 x \<le> x" and "x < 2 powi (flog2 x + 1)"
proof -
  have "2 powi flog2 x \<le> x \<and> x < 2 powi (flog2 x + 1)"
  proof (cases "1 \<le> x")
    case True
    define n where "n = nat \<lfloor>x\<rfloor>"
    have "1 \<le> \<lfloor>x\<rfloor>"
      using True by simp
    then have n: "0 < n" "of_nat n \<le> x" "x < of_nat n + 1"
      using True by (simp_all add: n_def)
    note b = bit_length_bounds [OF n(1)]
    obtain k where k: "bit_length n = Suc k"
      using b by (cases "bit_length n") auto
    have "(2 :: real) ^ k \<le> of_nat n"
      using b k of_nat_mono [of "2 ^ k" n, where ?'a = real] by simp
    moreover have "of_nat n + 1 \<le> (2 :: real) ^ Suc k"
      using b k of_nat_mono [of "n + 1" "2 ^ Suc k", where ?'a = real] by simp
    ultimately have "2 ^ k \<le> x" "x < 2 ^ Suc k"
      using n by linarith+
    moreover have "flog2 x = int k"
      using True k by (simp add: flog2_def n_def)
    ultimately show ?thesis
      by (simp add: power_int_add)
  next
    case False
    define y where "y = 1 / x"
    define n where "n = nat (\<lceil>y\<rceil> - 1)"
    have y: "1 < y"
      using False assms by (simp add: y_def)
    then have "1 < \<lceil>y\<rceil>"
      by (simp add: less_ceiling_iff)
    then have n: "0 < n" "of_nat n < y" "y \<le> of_nat n + 1"
      by (simp_all add: n_def) linarith+
    note b = bit_length_bounds [OF n(1)]
    obtain k where k: "bit_length n = Suc k"
      using b by (cases "bit_length n") auto
    have low: "(2 :: real) ^ k < y"
    proof -
      have "(2 :: real) ^ k \<le> of_nat n"
        using b k of_nat_mono [of "2 ^ k" n, where ?'a = real] by simp
      with n(2) show ?thesis
        by linarith
    qed
    have high: "y \<le> (2 :: real) ^ Suc k"
      using b k n(3) of_nat_mono [of "n + 1" "2 ^ Suc k", where ?'a = real] by simp
    have "flog2 x = - int (Suc k)"
      using False k by (simp add: flog2_def n_def y_def)
    moreover have "1 / 2 ^ Suc k \<le> x" "x < 1 / 2 ^ k"
      using low high assms by (simp_all add: y_def field_simps)
    moreover have "(2 :: real) powi (- int (Suc k)) = 1 / 2 ^ Suc k"
      by (simp only: power_int_minus_divide power_int_of_nat)
    moreover have "(2 :: real) powi (- int (Suc k) + 1) = 1 / 2 ^ k"
    proof -
      have "- int (Suc k) + 1 = - int k"
        by simp
      then show ?thesis
        by (simp only: power_int_minus_divide power_int_of_nat)
    qed
    ultimately show ?thesis
      by (simp only:)
  qed
  then show "2 powi flog2 x \<le> x" "x < 2 powi (flog2 x + 1)"
    by blast+
qed


section \<open>The error of a rounding\<close>

text \<open>The magnitudes the library computes with, far from overflow and from the subnormals.\<close>

definition sane :: "real \<Rightarrow> bool" where
  "sane x \<longleftrightarrow> x = 0 \<or> 1 / 2 ^ 100 \<le> x \<and> x \<le> 2 ^ 100"

definition close :: "nat \<Rightarrow> real \<Rightarrow> real \<Rightarrow> bool" where
  "close n r x \<longleftrightarrow> \<bar>r - x\<bar> \<le> of_nat n * x / 2 ^ 52"

lemma close_refl [simp]: "0 \<le> x \<Longrightarrow> close n x x"
  by (simp add: close_def)

lemma round_double_close:
  assumes "sane x"
  shows "\<exists>r. round_double x = Finite r \<and> \<bar>r - x\<bar> \<le> x / 2 ^ 53 \<and> 0 \<le> r"
proof (cases "x = 0")
  case True
  then show ?thesis
    by (simp add: round_double_def)
next
  case False
  then have low: "1 / 2 ^ 100 \<le> x" and high: "x \<le> 2 ^ 100"
    using assms by (simp_all add: sane_def)
  have pos: "0 < x"
    using low by (rule order_less_le_trans [rotated]) simp
  note f = flog2_bounds [OF pos]
  have "-101 < flog2 x"
  proof (rule ccontr)
    assume "\<not> -101 < flog2 x"
    then have "(2 :: real) powi (flog2 x + 1) \<le> 2 powi (- 100)"
      by (intro power_int_increasing) simp_all
    with f(2) low show False
      by (simp add: power_int_minus_divide)
  qed
  then have e: "ulp_exponent x = flog2 x - 52"
    using pos by (simp add: ulp_exponent_def)
  define u :: real where "u = 2 powi ulp_exponent x"
  have u: "0 < u"
    by (simp add: u_def)
  have "u * 2 ^ 52 = 2 powi flog2 x"
    using power_int_add [of "2 :: real" "flog2 x - 52" 52] by (simp add: u_def e)
  then have ux: "u * 2 ^ 52 \<le> x"
    using f(1) by simp
  define r where "r = of_int (round_half_even (x / u)) * u"
  have "\<bar>of_int (round_half_even (x / u)) - x / u\<bar> * u \<le> 1 / 2 * u"
    using u by (intro mult_right_mono round_half_even_error) simp
  moreover have "\<bar>of_int (round_half_even (x / u)) - x / u\<bar> * u = \<bar>r - x\<bar>"
  proof -
    have "r - x = (of_int (round_half_even (x / u)) - x / u) * u"
      using u by (simp add: r_def left_diff_distrib)
    then show ?thesis
      using u by (simp add: abs_mult)
  qed
  ultimately have error: "\<bar>r - x\<bar> \<le> x / 2 ^ 53"
    using ux by simp
  have nonneg: "0 \<le> r"
    using pos u round_half_even_nonneg [of "x / u"] by (simp add: r_def)
  have "x / 2 ^ 53 \<le> x"
    using pos by (simp add: field_simps)
  with error have "r \<le> 2 * x"
    by linarith
  also have "2 * x \<le> 2 ^ 101"
    using high by simp
  also have "(2 :: real) ^ 101 < 2 ^ 1024"
    by (rule power_strict_increasing) simp_all
  finally have "round_double x = Finite r"
    using False nonneg by (simp add: round_double_def u_def [symmetric] r_def [symmetric] Let_def)
  with error nonneg show ?thesis
    by blast
qed

lemma close_round:
  assumes "close n r x" and "n \<le> 1000" and "x = 0 \<or> 1 / 2 ^ 99 \<le> x \<and> x \<le> 2 ^ 99"
  shows "\<exists>r'. round_double r = Finite r' \<and> close (Suc n) r' x \<and> 0 \<le> r'"
proof -
  have x: "0 \<le> x"
    using assms(3) by (auto intro: order_trans [rotated])
  have "of_nat n * x \<le> 1000 * x"
    using assms(2) x by (intro mult_right_mono) simp_all
  also have "\<dots> \<le> 2 ^ 51 * x"
    using x by (intro mult_right_mono) simp_all
  finally have small: "of_nat n * x / 2 ^ 52 \<le> x / 2"
    by (simp add: mult.commute)
  then have "\<bar>r - x\<bar> \<le> x / 2"
    using assms(1) by (simp only: close_def)
  then have r: "x / 2 \<le> r" "r \<le> 2 * x"
    using x by linarith+
  have "sane r"
    using assms(3) r by (auto simp: sane_def)
  from round_double_close [OF this] obtain r' where
    r': "round_double r = Finite r'" "\<bar>r' - r\<bar> \<le> r / 2 ^ 53" "0 \<le> r'"
    by blast
  have "\<bar>r' - x\<bar> \<le> of_nat n * x / 2 ^ 52 + x / 2 ^ 52"
  proof -
    have "r / 2 ^ 53 \<le> x / 2 ^ 52"
      using r(2) by simp
    with r'(2) assms(1) [unfolded close_def] show ?thesis
      by linarith
  qed
  then have "close (Suc n) r' x"
    by (simp add: close_def add_divide_distrib [symmetric] algebra_simps)
  with r' show ?thesis
    by blast
qed

lemma close_mult: "close n r x \<Longrightarrow> 0 \<le> c \<Longrightarrow> close n (r * c) (x * c)"
proof -
  assume "close n r x" "0 \<le> c"
  then have "\<bar>r - x\<bar> * c \<le> of_nat n * x / 2 ^ 52 * c"
    unfolding close_def by (rule mult_right_mono)
  moreover have "\<bar>r * c - x * c\<bar> = \<bar>r - x\<bar> * c"
    using \<open>0 \<le> c\<close> by (simp add: abs_mult left_diff_distrib [symmetric])
  ultimately show ?thesis
    by (simp add: close_def mult.assoc)
qed

lemma close_divide: "close n r x \<Longrightarrow> 0 < c \<Longrightarrow> close n (r / c) (x / c)"
  using close_mult [of n r x "inverse c"] by (simp add: divide_inverse)

text \<open>A quotient by an approximate divisor.\<close>

lemma close_quotient:
  assumes "close n r x" and "close m q y" and "n + m \<le> 1000" and "0 \<le> x" and "0 < y"
  shows "close (Suc (n + m)) (r / q) (x / y)" and "0 < q"
proof -
  define e :: real where "e = 1 / 2 ^ 52"
  have e: "0 < e" "e \<le> 1 / 4000000"
    by (simp_all add: e_def)
  have nm: "of_nat n + of_nat m \<le> (1000 :: real)"
    using assms(3) by simp
  have rx: "\<bar>r - x\<bar> \<le> of_nat n * x * e" and qy: "\<bar>q - y\<bar> \<le> of_nat m * y * e"
    using assms(1,2) by (simp_all add: close_def e_def)
  have "of_nat m * y * e \<le> 1000 * y * e"
    using nm e assms(5) by (intro mult_right_mono) simp_all
  also have "\<dots> \<le> 1000 * y * (1 / 4000000)"
    using e assms(5) by (intro mult_left_mono) simp_all
  finally have q: "y * (1 - 1 / 4000) \<le> q"
    using qy by (simp add: algebra_simps)
  with assms(5) show pos: "0 < q"
    by (simp add: algebra_simps)
  have "\<bar>r * y - x * q\<bar> \<le> \<bar>r - x\<bar> * y + x * \<bar>q - y\<bar>"
  proof -
    have "r * y - x * q = (r - x) * y - x * (q - y)"
      by (simp add: algebra_simps)
    then have "\<bar>r * y - x * q\<bar> \<le> \<bar>(r - x) * y\<bar> + \<bar>x * (q - y)\<bar>"
      by (simp only: abs_triangle_ineq4)
    then show ?thesis
      using assms(4,5) by (simp add: abs_mult)
  qed
  also have "\<dots> \<le> of_nat n * x * e * y + x * (of_nat m * y * e)"
    using rx qy assms(4,5) by (intro add_mono mult_right_mono mult_left_mono) simp_all
  also have "\<dots> = (of_nat n + of_nat m) * e * (x * y)"
    by (simp add: algebra_simps)
  finally have cross: "\<bar>r * y - x * q\<bar> \<le> (of_nat n + of_nat m) * e * (x * y)" .
  have "r / q - x / y = (r * y - x * q) / (q * y)"
    using pos assms(5) by (simp add: field_simps)
  then have "\<bar>r / q - x / y\<bar> = \<bar>r * y - x * q\<bar> / (q * y)"
    using pos assms(5) by (simp add: abs_mult)
  also have "\<dots> \<le> (of_nat n + of_nat m) * e * (x * y) / (q * y)"
    using cross pos assms(5) by (intro divide_right_mono) simp_all
  also have "\<dots> = (of_nat n + of_nat m) * e * x / q"
    using assms(5) by simp
  also have "\<dots> \<le> (of_nat n + of_nat m + 1) * e * x / y"
  proof -
    have k: "(of_nat n + of_nat m) * y \<le> (of_nat n + of_nat m + 1 :: real) * q"
    proof -
      have "(of_nat n + of_nat m) * (1 / 4000) \<le> (1 - 1 / 4000 :: real)"
        using nm by simp
      then have "(of_nat n + of_nat m) \<le> (of_nat n + of_nat m + 1 :: real) * (1 - 1 / 4000)"
        by (simp add: algebra_simps)
      then have "(of_nat n + of_nat m) * y \<le> (of_nat n + of_nat m + 1) * (1 - 1 / 4000) * y"
        using assms(5) by (intro mult_right_mono) simp_all
      also have "\<dots> = (of_nat n + of_nat m + 1) * (y * (1 - 1 / 4000))"
        by (simp add: algebra_simps)
      also have "\<dots> \<le> (of_nat n + of_nat m + 1) * q"
        using q by (intro mult_left_mono) simp_all
      finally show ?thesis .
    qed
    have "(of_nat n + of_nat m) * y * (e * x) \<le> (of_nat n + of_nat m + 1) * q * (e * x)"
      using k e assms(4) by (intro mult_right_mono) simp_all
    then show ?thesis
      using pos assms(5) by (simp add: field_simps)
  qed
  also have "\<dots> = of_nat (Suc (n + m)) * (x / y) / 2 ^ 52"
    by (simp add: e_def ac_simps)
  finally show "close (Suc (n + m)) (r / q) (x / y)"
    by (simp add: close_def)
qed

text \<open>Whole numbers below \<open>2\<^sup>5\<^sup>3\<close> are represented exactly.\<close>

lemma round_double_whole:
  assumes "n < 2 ^ 53"
  shows "round_double (of_nat n) = Finite (of_nat n)"
proof (cases "n = 0")
  case True
  then show ?thesis
    by (simp add: round_double_def)
next
  case False
  then have pos: "(0 :: real) < of_nat n"
    by simp
  have up: "(of_nat n :: real) < 2 ^ 53"
    using assms of_nat_less_iff [of n "2 ^ 53", where ?'a = real] by simp
  have "flog2 (of_nat n) \<le> 52"
  proof (rule ccontr)
    assume "\<not> ?thesis"
    then have "(2 :: real) powi 53 \<le> 2 powi flog2 (of_nat n)"
      by (intro power_int_increasing) simp_all
    with flog2_bounds(1) [OF pos] up show False
      by simp
  qed
  then obtain k :: nat where k: "ulp_exponent (of_nat n) = - int k"
    using pos by (intro that [of "nat (- ulp_exponent (of_nat n))"]) (simp add: ulp_exponent_def)
  define u :: real where "u = 2 powi ulp_exponent (of_nat n)"
  have u: "u = 1 / 2 ^ k"
    by (simp add: u_def k power_int_minus_divide)
  have "of_nat n / u = of_int (int n * 2 ^ k)"
    by (simp add: u)
  then have "of_int (round_half_even (of_nat n / u)) * u = of_nat n"
    by (simp only: round_half_even_of_int) (simp add: u)
  moreover have "(of_nat n :: real) < 2 ^ 1024"
    by (rule order_less_trans [OF up power_strict_increasing]) simp_all
  ultimately show ?thesis
    using False by (simp add: round_double_def u_def [symmetric] Let_def)
qed


lemma d_mul_whole:
  assumes "m * n < 2 ^ 53"
  shows "d_mul (double_of m) (double_of n) = double_of (m * n)"
  using round_double_whole [OF assms] by (simp add: double_of_def)

text \<open>Below the sane range a rounding stays tiny.\<close>

lemma round_double_tiny:
  assumes "0 \<le> x" and "x \<le> 1 / 2 ^ 100"
  shows "\<exists>r. round_double x = Finite r \<and> \<bar>r - x\<bar> \<le> 1 / 2 ^ 100 \<and> 0 \<le> r"
proof (cases "x = 0")
  case True
  then show ?thesis
    by (simp add: round_double_def)
next
  case False
  with assms(1) have pos: "0 < x"
    by simp
  have "flog2 x \<le> - 100"
  proof (rule ccontr)
    assume "\<not> flog2 x \<le> - 100"
    then have "(2 :: real) powi (- 99) \<le> 2 powi flog2 x"
      by (intro power_int_increasing) simp_all
    with flog2_bounds(1) [OF pos] assms(2) show False
      by (simp add: power_int_minus_divide)
  qed
  then have e: "ulp_exponent x \<le> - 100"
    using pos by (simp add: ulp_exponent_def)
  define u :: real where "u = 2 powi ulp_exponent x"
  have "u \<le> 2 powi (- 100)"
    unfolding u_def using e by (intro power_int_increasing) simp_all
  then have u: "0 < u" "u \<le> 1 / 2 ^ 100"
    by (simp_all add: u_def power_int_minus_divide)
  define r where "r = of_int (round_half_even (x / u)) * u"
  have "r - x = (of_int (round_half_even (x / u)) - x / u) * u"
    using u by (simp add: r_def left_diff_distrib)
  then have "\<bar>r - x\<bar> = \<bar>of_int (round_half_even (x / u)) - x / u\<bar> * u"
    using u by (simp add: abs_mult)
  also have "\<dots> \<le> 1 / 2 * u"
    using u by (intro mult_right_mono round_half_even_error) simp
  finally have error: "\<bar>r - x\<bar> \<le> 1 / 2 ^ 100"
    using u by simp
  have nonneg: "0 \<le> r"
    using pos u round_half_even_nonneg [of "x / u"] by (simp add: r_def)
  have "(1 :: real) / 2 ^ 100 \<le> 1"
    by simp
  with error assms(2) have "r \<le> 2"
    by linarith
  also have "(2 :: real) < 2 ^ 1024"
    using power_strict_increasing [of 1 1024 "2 :: real"] by simp
  finally have "round_double x = Finite r"
    using False nonneg by (simp add: round_double_def u_def [symmetric] r_def [symmetric] Let_def)
  with error nonneg show ?thesis
    by blast
qed

lemma round_double_near:
  assumes "0 \<le> x" and "x \<le> 2 ^ 16"
  shows "\<exists>r. round_double x = Finite r \<and> \<bar>r - x\<bar> \<le> 1 / 2 ^ 37 \<and> 0 \<le> r"
proof (cases "x \<le> 1 / 2 ^ 100")
  case True
  from round_double_tiny [OF assms(1) this] obtain r where
    "round_double x = Finite r" "\<bar>r - x\<bar> \<le> 1 / 2 ^ 100" "0 \<le> r"
    by blast
  moreover have "(1 :: real) / 2 ^ 100 \<le> 1 / 2 ^ 37"
    by simp
  ultimately show ?thesis
    by (meson order_trans)
next
  case False
  have "x \<le> 2 ^ 100"
    using assms(2) by (rule order_trans) simp
  with False have "sane x"
    by (simp add: sane_def)
  from round_double_close [OF this] obtain r where
    r: "round_double x = Finite r" "\<bar>r - x\<bar> \<le> x / 2 ^ 53" "0 \<le> r"
    by blast
  have "x / 2 ^ 53 \<le> 1 / 2 ^ 37"
    using assms(2) by simp
  with r show ?thesis
    by (meson order_trans)
qed

end
