(* ===== verification/HostAnalog.thy ===== *)
theory HostAnalog
  imports HostFloat HostCApi
begin

text \<open>
  The conversions between codes and volts or fractions of \<open>src/Device.cpp\<close>, the volts of a stream
  sample (\<open>src/Stream.cpp\<close>), and their entry points in the C interface.  The lemmas bound the error
  of the conversions and show which of them are inverse to each other.
\<close>

section \<open>Conversions\<close>

definition scale_to_code :: "double \<Rightarrow> u16 \<Rightarrow> u16" where
  "scale_to_code fraction most =
     (let code = lround (d_mul fraction (double_of (unat most)))
      in of_int (max 0 (min code (uint most))))"

definition to_volts :: "device \<Rightarrow> u16 \<Rightarrow> double" where
  "to_volts d raw =
     (let most = max_value (unat (info_adc_bits (dev_info d)))
      in if most = 0 then Finite 0
         else d_div (d_div (d_mul (double_of (unat raw)) (double_of (unat (info_vref_mv (dev_info d)))))
                (Finite 1000)) (double_of (unat most)))"

definition analog_read_volts :: "'t transport \<Rightarrow> device \<Rightarrow> u8 \<Rightarrow> ('t, double) io" where
  "analog_read_volts T d pin = io_bind (analog_read T d pin) (\<lambda>raw. ret (to_volts d raw))"

definition pwm_write_fraction :: "'t transport \<Rightarrow> device \<Rightarrow> u8 \<Rightarrow> double \<Rightarrow> ('t, unit) io" where
  "pwm_write_fraction T d pin fraction =
     io_bind (lift_result (require_caps d pin USBIO_CAP_PWM)) (\<lambda>_.
       if \<not> (d_le (Finite 0) fraction \<and> d_le fraction (Finite 1)) then throw InvalidValue
       else pwm_write T d pin
         (scale_to_code fraction (max_value (unat (info_pwm_bits (dev_info d))))))"

definition dac_write_volts :: "'t transport \<Rightarrow> device \<Rightarrow> u8 \<Rightarrow> double \<Rightarrow> ('t, unit) io" where
  "dac_write_volts T d pin volts =
     io_bind (lift_result (require_caps d pin USBIO_CAP_DAC)) (\<lambda>_.
       if \<not> has_dac (dev_info d) \<or> info_vref_mv (dev_info d) = 0 then throw NotSupported
       else let vref = d_div (double_of (unat (info_vref_mv (dev_info d)))) (Finite 1000) in
         if \<not> (d_le (Finite 0) volts \<and> d_le volts vref) then throw InvalidValue
         else dac_write T d pin
           (scale_to_code (d_div volts vref) (max_value (unat (info_dac_bits (dev_info d))))))"

text \<open>What the worker of a stream puts beside the raw value of a sample.\<close>

definition sample_volts :: "device \<Rightarrow> Sample \<Rightarrow> double" where
  "sample_volts d sample = to_volts d (smp_raw sample)"

section \<open>The C interface\<close>

definition adrv_analog_read_volts :: "'t adrv_device option \<Rightarrow> u8 \<Rightarrow> bool \<Rightarrow> ('t, double) capi" where
  "adrv_analog_read_volts dev pin out =
     with_device dev out ''adrv_analog_read_volts: null argument'' (\<lambda>d T. analog_read_volts T d pin)"

definition adrv_to_volts :: "'t adrv_device option \<Rightarrow> u16 \<Rightarrow> bool \<Rightarrow> ('t, double) capi" where
  "adrv_to_volts dev raw out c =
     (case usable dev of
        None \<Rightarrow> invalid_call ''adrv_to_volts: null argument'' c
      | Some (d, _) \<Rightarrow>
          if out then ((ADRV_OK, Some (to_volts d raw)), c)
          else invalid_call ''adrv_to_volts: null argument'' c)"

definition adrv_pwm_write_fraction :: "'t adrv_device option \<Rightarrow> u8 \<Rightarrow> double \<Rightarrow> ('t, unit) capi" where
  "adrv_pwm_write_fraction dev pin fraction =
     with_device dev True ''adrv_pwm_write_fraction: null device''
       (\<lambda>d T. pwm_write_fraction T d pin fraction)"

definition adrv_dac_write_volts :: "'t adrv_device option \<Rightarrow> u8 \<Rightarrow> double \<Rightarrow> ('t, unit) capi" where
  "adrv_dac_write_volts dev pin volts =
     with_device dev True ''adrv_dac_write_volts: null device''
       (\<lambda>d T. dac_write_volts T d pin volts)"

lemma bind_checked [simp]:
  "io_bind (lift_result (Inr c)) f = f c" "io_bind (lift_result (Inl e)) f = throw e"
  by (simp_all add: fun_eq_iff io_bind_def lift_result_def throw_def)

section \<open>Fractions\<close>

lemma scale_clamped:
  assumes "0 \<le> x" and "x \<le> real (unat full)" and "\<bar>of_int n - x\<bar> \<le> \<delta>"
    and "scale_to_code f full = of_int (max 0 (min n (uint full)))"
  shows "scale_to_code f full \<le> full" and "\<bar>real (unat (scale_to_code f full)) - x\<bar> \<le> \<delta>"
proof -
  define k where "k = nat (max 0 (min n (uint full)))"
  have "max 0 (min n (uint full)) \<le> uint full"
    by simp
  from nat_mono [OF this] have k: "k \<le> unat full" "int k = max 0 (min n (uint full))"
    by (simp_all add: k_def)
  have code: "scale_to_code f full = of_nat k"
    by (metis assms(4) k(2) of_int_of_nat_eq)
  have "k < 65536"
    using k(1) unat_lt_u16 [of full] by linarith
  then have u: "unat (scale_to_code f full) = k"
    by (simp add: code unsigned_of_nat take_bit_nat_eq_self_iff)
  then show "scale_to_code f full \<le> full"
    using k(1) by (simp add: word_le_nat_alt)
  have "real k = max 0 (min (of_int n) (real (unat full)))"
    by (metis k(2) of_int_0 of_int_max of_int_min of_int_of_nat_eq uint_nat)
  with assms(1-3) show "\<bar>real (unat (scale_to_code f full)) - x\<bar> \<le> \<delta>"
    by (auto simp: u max_def min_def abs_le_iff split: if_splits)
qed

lemma unat_full: "real (unat (full :: u16)) \<le> 2 ^ 16"
proof -
  have "unat full \<le> 2 ^ 16"
    using less_imp_le [OF unat_lt_u16 [of full]] by (simp del: unat_lt_u16)
  from of_nat_mono [OF this, where ?'a = real] show ?thesis
    by (simp only: of_nat_power of_nat_numeral)
qed

lemma scale_to_code_near:
  assumes "0 \<le> f" and "f \<le> 1"
  shows "scale_to_code (Finite f) full \<le> full"
    and "\<bar>real (unat (scale_to_code (Finite f) full)) - f * real (unat full)\<bar> \<le> 1 / 2 + 1 / 2 ^ 37"
proof -
  let ?x = "f * real (unat full)"
  have x: "0 \<le> ?x" "?x \<le> real (unat full)"
    by (rule mult_nonneg_nonneg [OF assms(1) of_nat_0_le_iff],
        rule mult_left_le_one_le [OF of_nat_0_le_iff assms])
  have "?x \<le> 2 ^ 16"
    by (rule order_trans [OF x(2) unat_full])
  from round_double_near [OF x(1) this] obtain r where
    r: "round_double ?x = Finite r" "\<bar>r - ?x\<bar> \<le> 1 / 2 ^ 37"
    by blast
  have near: "\<bar>of_int (lround (Finite r)) - ?x\<bar> \<le> 1 / 2 + 1 / 2 ^ 37"
    using lround_error [of r] r(2) by linarith
  have code: "scale_to_code (Finite f) full = of_int (max 0 (min (lround (Finite r)) (uint full)))"
    by (simp only: scale_to_code_def double_of_def d_mul.simps r(1) Let_def)
  show "scale_to_code (Finite f) full \<le> full"
    "\<bar>real (unat (scale_to_code (Finite f) full)) - ?x\<bar> \<le> 1 / 2 + 1 / 2 ^ 37"
    by (rule scale_clamped [OF x(1,2) near code])+
qed


text \<open>A fraction a few roundings away from that of a code gives the code back.\<close>

lemma code_ratio_sane:
  assumes "n < 65536" and "0 < m" and "m < 65536"
  shows "real n / real m = 0 \<or> 1 / 2 ^ 99 \<le> real n / real m \<and> real n / real m \<le> 2 ^ 99"
proof (cases "n = 0")
  case False
  have "1 / 2 ^ 99 \<le> 1 / real m"
    using assms(2,3) by (intro divide_left_mono) simp_all
  also have "\<dots> \<le> real n / real m"
    using False by (intro divide_right_mono) simp_all
  finally have "1 / 2 ^ 99 \<le> real n / real m" .
  moreover have "real n / real m \<le> real n / 1"
    using assms(2) by (intro divide_left_mono) simp_all
  moreover have "real n / 1 \<le> 2 ^ 99"
    using assms(1) by simp
  ultimately show ?thesis
    by linarith
qed simp

lemma scale_to_code_close:
  assumes "close j f (real n / real m)" and "j \<le> 20" and "n \<le> m" and "0 < m" and "m < 65536"
    and top: "t < 65536"
  shows "\<exists>r. round_double (f * real t) = Finite r \<and> 0 \<le> r \<and>
    \<bar>r - real n * real t / real m\<bar> \<le> 1 / 2 ^ 31"
proof -
  let ?x = "real n * real t / real m"
  have c: "close j (f * real t) ?x"
    using close_mult [OF assms(1), of "real t"] by simp
  have nt: "n * t \<le> m * t"
    using assms(3) by simp
  have upper: "?x \<le> real t"
    using assms(4) of_nat_mono [OF nt, where ?'a = real] by (simp add: divide_le_eq mult.commute)
  have "?x = 0 \<or> 1 / 2 ^ 99 \<le> ?x \<and> ?x \<le> 2 ^ 99"
  proof (cases "n * t = 0")
    case True
    then show ?thesis
      by auto
  next
    case False
    then have "1 \<le> real (n * t)"
      by (metis One_nat_def Suc_leI neq0_conv of_nat_1 of_nat_le_iff)
    then have "1 / real m \<le> ?x"
      using assms(4) by (simp add: divide_right_mono)
    moreover have "1 / 2 ^ 99 \<le> 1 / real m"
      using assms(4,5) by (intro divide_left_mono) simp_all
    moreover have "?x \<le> 2 ^ 99"
      using upper top by simp
    ultimately show ?thesis
      by linarith
  qed
  from close_round [OF c _ this] assms(2) obtain r where
    r: "round_double (f * real t) = Finite r" "close (Suc j) r ?x" "0 \<le> r"
    by auto
  have "real (Suc j) * ?x \<le> 21 * 65536"
    using assms(2) upper top by (intro mult_mono) simp_all
  moreover have "y \<le> 21 * 65536 \<Longrightarrow> y / 2 ^ 52 \<le> 1 / 2 ^ 31" for y :: real
    by simp
  ultimately have "real (Suc j) * ?x / 2 ^ 52 \<le> 1 / 2 ^ 31"
    by blast
  from order_trans [OF r(2) [unfolded close_def] this] r(1,3) show ?thesis
    by blast
qed

lemma scale_to_code_exact:
  assumes "close j f (real n / real m)" and "j \<le> 20" and "n \<le> m" and "0 < m" and "m < 65536"
  shows "scale_to_code (Finite f) (of_nat m) = of_nat n"
proof -
  from scale_to_code_close [OF assms assms(5)] obtain r where
    r: "round_double (f * real m) = Finite r" "0 \<le> r" "\<bar>r - real n\<bar> \<le> 1 / 2 ^ 31"
    using assms(4) by auto
  have "\<bar>r - of_int (int n)\<bar> < 1 / 2"
    using r(3) by (simp add: order_le_less_trans)
  then have "lround (Finite r) = int n"
    by (rule lround_near [OF _ r(2)])
  moreover have "unat (of_nat m :: u16) = m"
    using assms(5) by (simp add: unsigned_of_nat take_bit_nat_eq_self_iff)
  moreover have "uint (of_nat m :: u16) = int m"
    using assms(5) by (simp add: unsigned_of_nat take_bit_nat_eq_self_iff)
  ultimately show ?thesis
    using assms(3) r(1) by (simp add: scale_to_code_def double_of_def min_def max_def del: lround.simps)
qed

lemma ratio_double:
  assumes "n \<le> m" and "0 < m" and "m < 65536"
  shows "\<exists>f. d_div (double_of n) (double_of m) = Finite f \<and> close 1 f (real n / real m) \<and> 0 \<le> f \<and> f \<le> 1"
proof -
  have n: "n < 65536"
    using assms by simp
  have "close 0 (real n / real m) (real n / real m)"
    by simp
  from close_round [OF this _ code_ratio_sane [OF n assms(2,3)]] obtain f where
    f: "round_double (real n / real m) = Finite f" "close 1 f (real n / real m)" "0 \<le> f"
    by auto
  have "f \<le> 1"
  proof (cases "n = m")
    case True
    then show ?thesis
      using f(1) round_double_whole [of 1] assms(2) by simp
  next
    case False
    then have "n + 1 \<le> m"
      using assms(1) by simp
    then have "real n + 1 \<le> real m"
      using of_nat_mono [of "n + 1" m, where ?'a = real] by simp
    then have "real n / real m \<le> 1 - 1 / real m"
      using assms(2) by (simp add: field_simps)
    moreover have "1 / 65536 \<le> 1 / real m"
      using assms(2,3) by (intro divide_left_mono) simp_all
    moreover have "f \<le> real n / real m + real n / real m / 2 ^ 52"
      using f(2) by (simp add: close_def)
    moreover have "real n / real m / 2 ^ 52 \<le> 1 / 2 ^ 52"
      using assms by (intro divide_right_mono) (simp_all add: divide_le_eq)
    ultimately show ?thesis
      by simp
  qed
  with f assms(2) show ?thesis
    by (simp add: double_of_def)
qed


section \<open>Volts\<close>

lemma millivolts:
  assumes "0 < mv" and "mv < 65536"
  shows "\<exists>v. d_div (double_of mv) (Finite 1000) = Finite v \<and> close 1 v (real mv / 1000) \<and> 0 < v"
proof -
  have c: "close 0 (real mv / 1000) (real mv / 1000)"
    by simp
  have s: "real mv / 1000 = 0 \<or> 1 / 2 ^ 99 \<le> real mv / 1000 \<and> real mv / 1000 \<le> 2 ^ 99"
    using code_ratio_sane [of mv 1000] assms(2) by simp
  from close_round [OF c _ s] obtain v where
    v: "round_double (real mv / 1000) = Finite v" "close 1 v (real mv / 1000)"
    by auto
  have "0 < v"
    using close_quotient(2) [OF close_refl [of 0 0] v(2)] assms(1) by simp
  with v show ?thesis
    by (simp add: double_of_def)
qed

text \<open>\<open>to_volts\<close> of a code, three roundings away from the exact voltage.\<close>

lemma volts_of_code:
  assumes "n < 65536" and "0 < m" and "m < 65536" and "0 < mv" and "mv < 65536"
  shows "\<exists>t. d_div (d_div (d_mul (double_of n) (double_of mv)) (Finite 1000)) (double_of m) = Finite t \<and>
    close 2 t (real n / real m * (real mv / 1000)) \<and> 0 \<le> t"
proof -
  have "n * mv \<le> 65536 * 65536"
    using assms by (intro mult_le_mono) simp_all
  moreover from this have "d_mul (double_of n) (double_of mv) = double_of (n * mv)"
    by (intro d_mul_whole) simp
  ultimately have p: "d_mul (double_of n) (double_of mv) = double_of (n * mv)"
    "real (n * mv) \<le> 65536 * 65536"
    using of_nat_mono [of "n * mv" "65536 * 65536", where ?'a = real]
    by (simp_all only: of_nat_mult of_nat_numeral)
  have one: "1 \<le> real (n * mv)" if "n \<noteq> 0"
    using that assms(4) of_nat_mono [of 1 "n * mv", where ?'a = real] by simp
  define x where "x = real (n * mv) / 1000"
  have x: "x = 0 \<or> 1 / 2 ^ 99 \<le> x \<and> x \<le> 2 ^ 99"
  proof (cases "n = 0")
    case True
    then show ?thesis
      by (simp add: x_def)
  next
    case False
    have "1 / 1000 \<le> x"
      unfolding x_def using one [OF False] by (intro divide_right_mono) simp_all
    moreover have "x \<le> 65536 * 65536"
      using p(2) by (simp add: x_def)
    ultimately show ?thesis
      by (auto intro: order_trans [rotated] order_trans)
  qed
  from close_round [OF close_refl [of x 0] _ x] x obtain s where
    s: "round_double x = Finite s" "close 1 s x" "0 \<le> s"
    by (auto intro: order_trans [rotated])
  define y where "y = x / real m"
  have y: "y = 0 \<or> 1 / 2 ^ 99 \<le> y \<and> y \<le> 2 ^ 99"
  proof (cases "n = 0")
    case True
    then show ?thesis
      by (simp add: y_def x_def)
  next
    case False
    have "1 / 1000 \<le> x" "x \<le> 65536 * 65536"
      using one [OF False] p(2) by (simp_all add: x_def)
    moreover have "y \<le> x / 1"
      unfolding y_def using assms(2) calculation(1) by (intro divide_left_mono) simp_all
    moreover have "1 / 1000 / 65536 \<le> y"
      unfolding y_def using assms(2,3) calculation(1) by (intro frac_le) simp_all
    ultimately show ?thesis
      by (auto intro: order_trans [rotated] order_trans)
  qed
  have "close 1 (s / real m) y"
    unfolding y_def using s(2) assms(2) by (intro close_divide) simp_all
  from close_round [OF this _ y] obtain t where
    t: "round_double (s / real m) = Finite t" "close 2 t y" "0 \<le> t"
    by (auto simp: numeral_2_eq_2)
  have "y = real n / real m * (real mv / 1000)"
    by (simp add: y_def x_def)
  with t s(1) p(1) assms(2) show ?thesis
    by (simp add: double_of_def x_def)
qed

end
