(* ===== verification/AnalogGuarantees.thy ===== *)
theory AnalogGuarantees
  imports HostAnalog HostGuarantees
begin

text \<open>
  What the conversions of the driver promise: the code sent for a fraction or a voltage is the
  nearest one, every code can be reached, and a sample read in volts can be written back.
\<close>

section \<open>Fractions\<close>

lemma unat_word_of_nat_u16 [simp]: "n < 65536 \<Longrightarrow> unat (of_nat n :: u16) = n"
  by (simp add: unsigned_of_nat take_bit_nat_eq_self_iff)

lemma max_value_pos: "0 < bits \<Longrightarrow> 0 < unat (max_value bits)"
proof -
  assume "0 < bits"
  moreover have "0 < unat (ucast (push_bit bits (1 :: u32) - 1) :: u16)"
    if "bits \<in> {1, 2, 3, 4, 5, 6, 7, 8, 9, 10, 11, 12, 13, 14, 15}"
    using that by auto
  moreover have "bits \<in> {1, 2, 3, 4, 5, 6, 7, 8, 9, 10, 11, 12, 13, 14, 15}" if "\<not> 16 \<le> bits" "0 < bits"
    using that unfolding insert_iff empty_iff by arith
  ultimately show ?thesis
    by (cases "16 \<le> bits") (simp_all add: max_value_def)
qed

text \<open>C11. A PWM fraction from 0 to 1 sends the nearest code of the channel, and never more than its
  full scale; anything else, NaN and the infinities included, is refused before any transfer.\<close>

theorem fractions_become_the_nearest_code:
  assumes "require_caps d pin USBIO_CAP_PWM = Inr caps"
  shows "case fraction of
      Finite f \<Rightarrow>
        if 0 \<le> f \<and> f \<le> 1
        then \<exists>duty \<le> max_value (unat (info_pwm_bits (dev_info d))).
          pwm_write_fraction T d pin fraction = pwm_write T d pin duty \<and>
          \<bar>real (unat duty) - f * real (unat (max_value (unat (info_pwm_bits (dev_info d)))))\<bar>
            \<le> 1 / 2 + 1 / 2 ^ 37
        else pwm_write_fraction T d pin fraction w = (Inl InvalidValue, w)
    | _ \<Rightarrow> pwm_write_fraction T d pin fraction w = (Inl InvalidValue, w)"
proof (cases fraction)
  case (Finite f)
  let ?top = "max_value (unat (info_pwm_bits (dev_info d)))"
  show ?thesis
  proof (cases "0 \<le> f \<and> f \<le> 1")
    case True
    then have "pwm_write_fraction T d pin fraction = pwm_write T d pin (scale_to_code (Finite f) ?top)"
      using assms Finite by (simp add: pwm_write_fraction_def)
    with True Finite scale_to_code_near [of f ?top] show ?thesis
      by auto
  next
    case False
    with Finite assms show ?thesis
      by (auto simp: pwm_write_fraction_def throw_def)
  qed
qed (simp_all add: assms pwm_write_fraction_def throw_def)

text \<open>C14. Every code of a PWM channel is the one its own fraction, the quotient of the code and the
  full scale as a \<open>double\<close>, is converted to: no code is out of reach of \<open>pwm_write_fraction\<close>.\<close>

theorem every_code_has_its_fraction:
  assumes "require_caps d pin USBIO_CAP_PWM = Inr caps" and "0 < info_pwm_bits (dev_info d)"
    and "code \<le> max_value (unat (info_pwm_bits (dev_info d)))"
  shows "pwm_write_fraction T d pin
      (d_div (double_of (unat code)) (double_of (unat (max_value (unat (info_pwm_bits (dev_info d)))))))
    = pwm_write T d pin code"
proof -
  let ?top = "max_value (unat (info_pwm_bits (dev_info d)))"
  have top: "0 < unat ?top" "unat ?top < 65536" "unat code \<le> unat ?top"
    using assms(2,3) max_value_pos [of "unat (info_pwm_bits (dev_info d))"]
    by (simp_all add: word_le_nat_alt word_less_nat_alt)
  from ratio_double [OF top(3,1,2)] obtain f where
    f: "d_div (double_of (unat code)) (double_of (unat ?top)) = Finite f"
      "close 1 f (real (unat code) / real (unat ?top))" "0 \<le> f" "f \<le> 1"
    by blast
  have "scale_to_code (Finite f) ?top = code"
    using scale_to_code_exact [OF f(2) _ top(3,1,2)] by simp
  with f assms(1) show ?thesis
    by (simp add: pwm_write_fraction_def)
qed

section \<open>Volts\<close>

lemma quotient_of_volts:
  assumes "n \<le> m" and "0 < m" and "m < 65536" and "0 < mv" and "mv < 65536"
  shows "\<exists>t v f. d_div (d_div (d_mul (double_of n) (double_of mv)) (Finite 1000)) (double_of m) = Finite t \<and>
    d_div (double_of mv) (Finite 1000) = Finite v \<and> d_div (Finite t) (Finite v) = Finite f \<and>
    0 \<le> t \<and> (n < m \<longrightarrow> t \<le> v) \<and> close 5 f (real n / real m)"
proof -
  have n: "n < 65536"
    using assms by simp
  from volts_of_code [OF n assms(2-5)] obtain t where
    t: "d_div (d_div (d_mul (double_of n) (double_of mv)) (Finite 1000)) (double_of m) = Finite t"
      "close 2 t (real n / real m * (real mv / 1000))" "0 \<le> t"
    by blast
  from millivolts [OF assms(4,5)] obtain v where
    v: "d_div (double_of mv) (Finite 1000) = Finite v" "close 1 v (real mv / 1000)" "0 < v"
    by blast
  have "close 4 (t / v) (real n / real m)"
    using close_quotient(1) [OF t(2) v(2)] assms(4) by (simp add: eval_nat_numeral)
  from close_round [OF this _ code_ratio_sane [OF n assms(2,3)]] obtain f where
    f: "round_double (t / v) = Finite f" "close 5 f (real n / real m)"
    by auto
  have "t \<le> v" if "n < m"
  proof -
    define V where "V = real mv / 1000"
    have V: "0 < V"
      using assms(4) by (simp add: V_def)
    have "real n + 1 \<le> real m"
      using that of_nat_mono [of "n + 1" m, where ?'a = real] by simp
    then have "real n / real m \<le> 1 - 1 / real m"
      using assms(2) by (simp add: field_simps)
    moreover have "1 / 65536 \<le> 1 / real m"
      using assms(2,3) by (intro divide_left_mono) simp_all
    ultimately have ratio: "real n / real m \<le> 1 - 1 / 65536"
      by linarith
    define y where "y = real n / real m * V"
    have y: "y \<le> (1 - 1 / 65536) * V"
      unfolding y_def using ratio V by (intro mult_right_mono) simp_all
    have "\<bar>t - y\<bar> \<le> real 2 * y / 2 ^ 52"
      using t(2) unfolding close_def y_def V_def .
    moreover have "\<bar>v - V\<bar> \<le> real 1 * V / 2 ^ 52"
      using v(2) unfolding close_def V_def by simp
    ultimately have "t \<le> y + 2 * y / 2 ^ 52" "V - V / 2 ^ 52 \<le> v"
      unfolding abs_le_iff of_nat_numeral of_nat_1 by linarith+
    with y V show "t \<le> v"
      by simp
  qed
  with t v f show ?thesis
    by (intro exI [of _ t] exI [of _ v] exI [of _ f]) simp
qed


text \<open>Full scale: the voltage of the boards' converters is exactly the reference.\<close>

lemma round_double_at:
  assumes "2 powi k \<le> x" and "x < 2 powi (k + 1)" and "-1022 \<le> k"
  shows "round_double x =
    (let r = of_int (round_half_even (x / 2 powi (k - 52))) * 2 powi (k - 52)
     in if 2 powi 1024 \<le> \<bar>r\<bar> then Infinity False else Finite r)"
proof -
  have pos: "0 < x"
    using assms(1) by (rule order_less_le_trans [rotated]) simp
  have "\<not> flog2 x < k"
  proof
    assume "flog2 x < k"
    then have "(2 :: real) powi (flog2 x + 1) \<le> 2 powi k"
      by (intro power_int_increasing) simp_all
    with flog2_bounds(2) [OF pos] assms(1) show False
      by simp
  qed
  moreover have "\<not> k < flog2 x"
  proof
    assume "k < flog2 x"
    then have "(2 :: real) powi (k + 1) \<le> 2 powi flog2 x"
      by (intro power_int_increasing) simp_all
    with flog2_bounds(1) [OF pos] assms(2) show False
      by simp
  qed
  ultimately have "flog2 x = k"
    by simp
  with pos assms(3) have "ulp_exponent x = k - 52"
    by (simp add: ulp_exponent_def)
  with pos show ?thesis
    by (simp add: round_double_def Let_def)
qed

lemma full_scale_volts:
  assumes "(m, mv) \<in> {(65535, 3300), (16383, 5000), (4095, 3300)}"
  shows "d_div (d_div (d_mul (double_of m) (double_of mv)) (Finite 1000)) (double_of m) =
    d_div (double_of mv) (Finite 1000)"
proof -
  have "round_double (432531 / 2) = Finite (432531 / 2)"
    by (subst round_double_at [of 17]) (simp_all add: round_half_even_def Let_def power_int_minus_divide)
  moreover have "round_double (27027 / 2) = Finite (27027 / 2)"
    by (subst round_double_at [of 13]) (simp_all add: round_half_even_def Let_def power_int_minus_divide)
  moreover have "round_double 81915 = Finite 81915"
    using round_double_whole [of 81915] by simp
  moreover have "d_mul (double_of m) (double_of mv) = double_of (m * mv)"
    using assms by (intro d_mul_whole) auto
  ultimately show ?thesis
    using assms by (auto simp: double_of_def)
qed

text \<open>C9. A sample read in volts can be written to a DAC: unless it is a full-scale sample of a
  converter for which the division does not give back the reference (it does for the resolutions and
  references of all supported boards), \<open>dac_write_volts\<close> accepts its voltage and sends the nearest
  code, which is the sample itself when both converters have the same resolution.\<close>

theorem samples_survive_volts:
  assumes "require_caps d pin USBIO_CAP_DAC = Inr caps" and "has_dac (dev_info d)"
    and mv: "info_vref_mv (dev_info d) \<noteq> 0"
    and adc: "max_value (unat (info_adc_bits (dev_info d))) = full" "full \<noteq> 0" and "raw \<le> full"
    and limit: "raw < full \<or> (unat full, unat (info_vref_mv (dev_info d))) \<in> {(65535, 3300), (16383, 5000), (4095, 3300)}"
    and dac: "max_value (unat (info_dac_bits (dev_info d))) = dac_full"
  shows "\<exists>code. dac_write_volts T d pin (to_volts d raw) = dac_write T d pin code \<and>
    \<bar>real (unat code) - real (unat raw) * real (unat dac_full) / real (unat full)\<bar> \<le> 1 / 2 + 1 / 2 ^ 31 \<and>
    (dac_full = full \<longrightarrow> code = raw)"
proof -
  define n m z where "n = unat raw" and "m = unat full" and "z = unat (info_vref_mv (dev_info d))"
  have bounds: "n \<le> m" "0 < m" "m < 65536" "0 < z" "z < 65536"
    using assms(4-6) mv by (simp_all add: n_def m_def z_def word_le_nat_alt unat_gt_0)
  from quotient_of_volts [OF bounds] obtain t v f where
    t: "d_div (d_div (d_mul (double_of n) (double_of z)) (Finite 1000)) (double_of m) = Finite t"
    and v: "d_div (double_of z) (Finite 1000) = Finite v" and f: "d_div (Finite t) (Finite v) = Finite f"
    and small: "0 \<le> t" "n < m \<longrightarrow> t \<le> v" "close 5 f (real n / real m)"
    by blast
  have "t \<le> v"
  proof (cases "n < m")
    case True
    then show ?thesis
      using small(2) by simp
  next
    case False
    then have "n = m" "(m, z) \<in> {(65535, 3300), (16383, 5000), (4095, 3300)}"
      using limit bounds(1) by (auto simp: n_def m_def z_def word_less_nat_alt)
    with full_scale_volts [of m z] t v show ?thesis
      by simp
  qed
  then have sent: "dac_write_volts T d pin (to_volts d raw) = dac_write T d pin (scale_to_code (Finite f) dac_full)"
    using assms(1,2) mv adc dac t v f small(1)
    by (simp add: dac_write_volts_def to_volts_def n_def m_def z_def Let_def)
  have "unat dac_full < 65536"
    by simp
  from scale_to_code_close [OF small(3) _ bounds(1-3) this] obtain r where
    r: "round_double (f * real (unat dac_full)) = Finite r" "0 \<le> r"
      "\<bar>r - real n * real (unat dac_full) / real m\<bar> \<le> 1 / 2 ^ 31"
    by auto
  let ?x = "real n * real (unat dac_full) / real m"
  have "real n * real (unat dac_full) \<le> real m * real (unat dac_full)"
    by (intro mult_right_mono) (simp_all only: of_nat_le_iff bounds of_nat_0_le_iff)
  then have x: "0 \<le> ?x" "?x \<le> real (unat dac_full)"
    using bounds(2) by (simp_all only: divide_le_eq of_nat_0_less_iff if_True mult.commute of_nat_0_le_iff mult_nonneg_nonneg divide_nonneg_nonneg)
  have near: "\<bar>of_int (lround (Finite r)) - ?x\<bar> \<le> 1 / 2 + 1 / 2 ^ 31"
    using lround_error [of r] r(3) by linarith
  have code: "scale_to_code (Finite f) dac_full = of_int (max 0 (min (lround (Finite r)) (uint dac_full)))"
    by (simp only: scale_to_code_def double_of_def d_mul.simps r(1) Let_def)
  have same: "scale_to_code (Finite f) dac_full = raw" if "dac_full = full"
    using scale_to_code_exact [OF small(3) _ bounds(1-3)] that by (simp add: n_def m_def)
  from sent scale_clamped(2) [OF x near code] same show ?thesis
    by (auto simp only: n_def m_def)
qed


section \<open>A driver with both converters\<close>

definition volts_driver :: device where
  "volts_driver = \<lparr>dev_options = default_options,
     dev_info = (device_info bench_board (fst started))\<lparr>info_adc_bits := 12, info_pwm_bits := 8,
       info_dac_bits := 12, info_vref_mv := 3300\<rparr>,
     dev_caps = [USBIO_CAP_PWM OR USBIO_CAP_DAC], dev_analog_pins = [], dev_streaming = False,
     dev_selected = []\<rparr>"

lemma volts_driver_facts:
  "require_caps volts_driver 0 USBIO_CAP_PWM = Inr (USBIO_CAP_PWM OR USBIO_CAP_DAC)"
  "require_caps volts_driver 0 USBIO_CAP_DAC = Inr (USBIO_CAP_PWM OR USBIO_CAP_DAC)"
  "has_dac (dev_info volts_driver)" "info_vref_mv (dev_info volts_driver) = 3300"
  "info_pwm_bits (dev_info volts_driver) = 8" "info_adc_bits (dev_info volts_driver) = 12"
  "info_dac_bits (dev_info volts_driver) = 12"
  by (simp_all add: volts_driver_def require_caps_def pin_caps_def has_def has_dac_def)

lemma volts_driver_scales: "max_value 8 = 255" "max_value 12 = 4095"
  by (simp_all add: max_value_def)

theorem fractions_witness:
  "\<exists>duty \<le> 255. pwm_write_fraction bench_transport volts_driver 0 (Finite (1 / 3)) =
     pwm_write bench_transport volts_driver 0 duty \<and> \<bar>real (unat duty) - 85\<bar> \<le> 1 / 2 + 1 / 2 ^ 37"
  using fractions_become_the_nearest_code [OF volts_driver_facts(1),
      where fraction = "Finite (1 / 3)" and T = bench_transport]
  by (simp add: volts_driver_facts(5) volts_driver_scales)

theorem every_code_witness:
  "pwm_write_fraction bench_transport volts_driver 0 (d_div (double_of 77) (double_of 255)) =
   pwm_write bench_transport volts_driver 0 77"
  using every_code_has_its_fraction [OF volts_driver_facts(1), where code = 77 and T = bench_transport]
  by (simp add: volts_driver_facts(5) volts_driver_scales)

theorem samples_survive_witness:
  "dac_write_volts bench_transport volts_driver 0 (to_volts volts_driver 4095) =
   dac_write bench_transport volts_driver 0 4095"
proof -
  have full: "max_value (unat (info_adc_bits (dev_info volts_driver))) = 4095"
    "max_value (unat (info_dac_bits (dev_info volts_driver))) = 4095"
    by (simp_all add: volts_driver_facts volts_driver_scales)
  show ?thesis
    using samples_survive_volts [OF volts_driver_facts(2,3) _ full(1) _ _ _ full(2), of 4095 bench_transport]
    by (auto simp: volts_driver_facts)
qed

text \<open>The exception is real: a 10-bit converter with a 3.3 V reference.\<close>

lemma full_scale_above_the_reference:
  "d_div (d_div (d_mul (double_of 1023) (double_of 3300)) (Finite 1000)) (double_of 1023) =
     Finite (7430939385161319 / 2251799813685248)"
  "d_div (double_of 3300) (Finite 1000) = Finite (3715469692580659 / 1125899906842624)"
proof -
  have "d_mul (double_of 1023) (double_of 3300) = Finite 3375900"
    using d_mul_whole [of 1023 3300] by (simp add: double_of_def)
  moreover have "round_double (33759 / 10) = Finite (7423682608417997 / 2199023255552)"
    by (subst round_double_at [of 11]) (simp_all add: round_half_even_def Let_def power_int_minus_divide)
  moreover have "round_double (7423682608417997 / 2199023255552 / 1023) =
      Finite (7430939385161319 / 2251799813685248)"
    by (subst round_double_at [of 1]) (simp_all add: round_half_even_def Let_def power_int_minus_divide)
  ultimately show "d_div (d_div (d_mul (double_of 1023) (double_of 3300)) (Finite 1000)) (double_of 1023) =
      Finite (7430939385161319 / 2251799813685248)"
    by (simp add: double_of_def)
  show "d_div (double_of 3300) (Finite 1000) = Finite (3715469692580659 / 1125899906842624)"
    by (simp add: double_of_def, subst round_double_at [of 1])
      (simp_all add: round_half_even_def Let_def power_int_minus_divide)
qed

lemma full_scale_sample_refused:
  assumes "require_caps d pin USBIO_CAP_DAC = Inr caps" and "has_dac (dev_info d)"
    and "info_vref_mv (dev_info d) = 3300" and "info_adc_bits (dev_info d) = 10"
  shows "dac_write_volts T d pin (to_volts d 1023) w = (Inl InvalidValue, w)"
  using assms full_scale_above_the_reference
  by (simp add: dac_write_volts_def to_volts_def max_value_def throw_def del: d_mul.simps d_div.simps)

end
