(* ===== verification/CliArguments.thy ===== *)
theory CliArguments
  imports HostFloat HostProtocol
begin

text \<open>
  The arguments of the command line tool \<open>extras/driver/tools/arduino-io.cpp\<close>: what the functions
  under its heading "Argument parsing", \<open>parse_pin_list\<close> and \<open>resolve_stream_period\<close> make of a
  text.  \<open>strtoul\<close> and \<open>strtod\<close> are those of the C library in its "C" locale, \<open>unsigned long\<close>
  has 64 bits, and \<open>double\<close> is that of \<open>HostFloat\<close>.  Lemmas: how decimal numbers are read.
\<close>

section \<open>Failures\<close>

text \<open>
  What a command can throw: \<open>UsageError\<close>, or an exception of the library.  The messages are not
  modelled.
\<close>

datatype failure = UsageError | DeviceFailure error

definition bind_parse :: "failure + 'a \<Rightarrow> ('a \<Rightarrow> failure + 'b) \<Rightarrow> failure + 'b" where
  "bind_parse r f = (case r of Inl e \<Rightarrow> Inl e | Inr x \<Rightarrow> f x)"

lemma bind_parse_simps [simp]:
  "bind_parse (Inl e) f = Inl e" "bind_parse (Inr x) f = f x"
  by (simp_all add: bind_parse_def)

lemma bind_parse_cong [fundef_cong]:
  "r = r' \<Longrightarrow> (\<And>x. r' = Inr x \<Longrightarrow> f x = f' x) \<Longrightarrow> bind_parse r f = bind_parse r' f'"
  by (cases r') simp_all

section \<open>Characters\<close>

abbreviation ascii :: "char \<Rightarrow> int" where "ascii c \<equiv> of_char c"

definition tolower :: "char \<Rightarrow> char" where
  "tolower c = (if 65 \<le> ascii c \<and> ascii c \<le> 90 then char_of (ascii c + 32) else c)"

definition isspace :: "char \<Rightarrow> bool" where
  "isspace c \<longleftrightarrow> ascii c = 32 \<or> 9 \<le> ascii c \<and> ascii c \<le> 13"

text \<open>The value of a digit or letter, in a base of up to 36.\<close>

definition digit_value :: "char \<Rightarrow> int option" where
  "digit_value c =
     (if 48 \<le> ascii c \<and> ascii c \<le> 57 then Some (ascii c - 48)
      else if 97 \<le> ascii (tolower c) \<and> ascii (tolower c) \<le> 122 then Some (ascii (tolower c) - 87)
      else None)"

definition is_digit :: "int \<Rightarrow> char \<Rightarrow> bool" where
  "is_digit base c \<longleftrightarrow> (case digit_value c of None \<Rightarrow> False | Some v \<Rightarrow> v < base)"

definition number :: "int \<Rightarrow> string \<Rightarrow> int" where
  "number base digits = foldl (\<lambda>n c. n * base + the (digit_value c)) 0 digits"

definition lower :: "string \<Rightarrow> string" where
  "lower text = map tolower text"

definition c_str :: "string \<Rightarrow> string" where
  "c_str s = takeWhile (\<lambda>c. c \<noteq> CHR 0x00) s"

text \<open>An optional sign: whether it is a minus, and the rest.\<close>

fun sign :: "string \<Rightarrow> bool \<times> string" where
  "sign (c # s) = (if c = CHR ''-'' then (True, s) else if c = CHR ''+'' then (False, s) else (False, c # s))"
| "sign [] = (False, [])"

fun hex_prefix :: "string \<Rightarrow> bool" where
  "hex_prefix (z # x # s) \<longleftrightarrow> z = CHR ''0'' \<and> tolower x = CHR ''x''"
| "hex_prefix _ \<longleftrightarrow> False"

section \<open>Integers\<close>

text \<open>
  \<open>strtoul\<close>: the value, the rest of the text (\<open>*end\<close>), which is the whole text when no number was
  found, and whether \<open>errno\<close> is \<open>ERANGE\<close>.  A minus negates the value modulo 2^64.
\<close>

definition strtoul :: "string \<Rightarrow> int \<Rightarrow> u64 \<times> string \<times> bool" where
  "strtoul s base =
     (case sign (dropWhile isspace s) of (negative, t) \<Rightarrow>
      let hex = (base = 0 \<or> base = 16) \<and> hex_prefix t \<and> drop 2 t \<noteq> [] \<and> is_digit 16 (hd (drop 2 t));
          base1 = (if base \<noteq> 0 then base else if hex then 16
                   else if t \<noteq> [] \<and> hd t = CHR ''0'' then 8 else 10);
          t1 = (if hex then drop 2 t else t);
          digits = takeWhile (is_digit base1) t1;
          n = number base1 digits
      in if digits = [] then (0, s, False)
         else if n \<ge> 2 ^ 64 then (- 1, drop (length digits) t1, True)
         else (if negative then - word_of_int n else word_of_int n, drop (length digits) t1, False))"

definition parse_unsigned :: "string \<Rightarrow> int \<Rightarrow> u64 option" where
  "parse_unsigned s base =
     (if s = [] \<or> hd s = CHR ''-'' then None
      else case strtoul (c_str s) base of (v, rest, erange) \<Rightarrow>
        if erange \<or> rest = c_str s \<or> rest \<noteq> [] then None else Some v)"

definition require_unsigned :: "string \<Rightarrow> u64 \<Rightarrow> int \<Rightarrow> failure + u64" where
  "require_unsigned text most base =
     (case parse_unsigned text base of
        None \<Rightarrow> Inl UsageError
      | Some v \<Rightarrow> if v > most then Inl UsageError else Inr v)"

definition parse_pin :: "string \<Rightarrow> failure + u8" where
  "parse_pin text = bind_parse (require_unsigned text 255 10) (\<lambda>v. Inr (ucast v))"

definition parse_id :: "string \<Rightarrow> failure + u16" where
  "parse_id text = bind_parse (require_unsigned text 0xFFFF 16) (\<lambda>v. Inr (ucast v))"

section \<open>Words\<close>

definition parse_mode :: "string \<Rightarrow> failure + u8" where
  "parse_mode text =
     (let m = lower text in
      if m = ''input'' \<or> m = ''in'' then Inr (mode_code USBIO_MODE_INPUT)
      else if m = ''output'' \<or> m = ''out'' then Inr (mode_code USBIO_MODE_OUTPUT)
      else if m = ''pullup'' \<or> m = ''input_pullup'' then Inr (mode_code USBIO_MODE_INPUT_PULLUP)
      else if m = ''pulldown'' \<or> m = ''input_pulldown'' then Inr (mode_code USBIO_MODE_INPUT_PULLDOWN)
      else if m = ''analog'' \<or> m = ''analog_in'' \<or> m = ''ain'' then Inr (mode_code USBIO_MODE_ANALOG_IN)
      else if m = ''pwm'' then Inr (mode_code USBIO_MODE_PWM)
      else if m = ''dac'' then Inr (mode_code USBIO_MODE_DAC)
      else Inl UsageError)"

definition parse_edge_mode :: "string \<Rightarrow> failure + u8" where
  "parse_edge_mode text =
     (let m = lower text in
      if m = ''rising'' \<or> m = ''rise'' \<or> m = ''r'' then Inr (edge_code USBIO_EDGE_RISING)
      else if m = ''falling'' \<or> m = ''fall'' \<or> m = ''f'' then Inr (edge_code USBIO_EDGE_FALLING)
      else if m = ''change'' \<or> m = ''both'' \<or> m = ''c'' then Inr (edge_code USBIO_EDGE_CHANGE)
      else Inl UsageError)"

definition parse_level :: "string \<Rightarrow> failure + bool" where
  "parse_level text =
     (let v = lower text in
      if v = ''1'' \<or> v = ''high'' \<or> v = ''on'' \<or> v = ''true'' then Inr True
      else if v = ''0'' \<or> v = ''low'' \<or> v = ''off'' \<or> v = ''false'' then Inr False
      else Inl UsageError)"

section \<open>Floating-point numbers\<close>

text \<open>
  The digits before and after a point: the number they write without it, how many stand after it, and
  the rest of the text.  \<open>None\<close> when there is no digit.
\<close>

definition mantissa :: "int \<Rightarrow> string \<Rightarrow> (int \<times> nat \<times> string) option" where
  "mantissa base s =
     (let whole = takeWhile (is_digit base) s;
          t = drop (length whole) s;
          point = t \<noteq> [] \<and> hd t = CHR ''.'';
          frac = (if point then takeWhile (is_digit base) (tl t) else []);
          digits = whole @ frac
      in if digits = [] then None
         else Some (number base digits, length frac,
                    if point then drop (length frac) (tl t) else t))"

text \<open>An exponent after its letter; without digits the letter does not belong to the number.\<close>

definition exponent :: "char \<Rightarrow> string \<Rightarrow> int \<times> string" where
  "exponent marker s =
     (if s \<noteq> [] \<and> tolower (hd s) = marker
      then case sign (tl s) of (negative, t) \<Rightarrow>
        let digits = takeWhile (is_digit 10) t; n = number 10 digits
        in if digits = [] then (0, s)
           else (if negative then - n else n, drop (length digits) t)
      else (0, s))"

text \<open>A number without its sign: its exact value, and the rest of the text.\<close>

definition scan_decimal :: "string \<Rightarrow> (real \<times> string) option" where
  "scan_decimal s =
     map_option (\<lambda>(n, places, t). case exponent (CHR ''e'') t of (e, rest) \<Rightarrow>
       (of_int n * 10 powi (e - int places), rest)) (mantissa 10 s)"

definition scan_hexadecimal :: "string \<Rightarrow> (real \<times> string) option" where
  "scan_hexadecimal s =
     map_option (\<lambda>(n, places, t). case exponent (CHR ''p'') t of (e, rest) \<Rightarrow>
       (of_int n * 2 powi (e - 4 * int places), rest)) (mantissa 16 s)"

fun d_minus :: "double \<Rightarrow> double" where
  "d_minus (Finite x) = Finite (- x)"
| "d_minus (Infinity negative) = Infinity (\<not> negative)"
| "d_minus NaN = NaN"

text \<open>
  \<open>errno\<close> is \<open>ERANGE\<close> when the result is infinite, or when it is smaller than every normal number and
  not exact (as the GNU library has it; the standard leaves the second case open).
\<close>

definition out_of_range :: "real \<Rightarrow> bool" where
  "out_of_range x \<longleftrightarrow>
     (case round_double x of
        Finite r \<Rightarrow> \<bar>r\<bar> < 2 powi (- 1022) \<and> r \<noteq> x
      | _ \<Rightarrow> True)"

definition is_word_char :: "char \<Rightarrow> bool" where
  "is_word_char c \<longleftrightarrow> is_digit 36 c \<or> c = CHR ''_''"

text \<open>The rest after "nan": an optional \<open>(word)\<close> belongs to it.\<close>

definition after_nan :: "string \<Rightarrow> string" where
  "after_nan s =
     (let t = dropWhile is_word_char (tl s)
      in if s \<noteq> [] \<and> hd s = CHR ''('' \<and> t \<noteq> [] \<and> hd t = CHR '')'' then tl t else s)"

definition strtod :: "string \<Rightarrow> double \<times> string \<times> bool" where
  "strtod s =
     (case sign (dropWhile isspace s) of (negative, t) \<Rightarrow>
      let signed = (\<lambda>v. if negative then d_minus v else v);
          begins = (\<lambda>word. lower (take (length word) t) = word);
          result = (\<lambda>(x, rest). (signed (round_double x), rest, out_of_range x))
      in if begins ''infinity'' then (signed (Infinity False), drop 8 t, False)
         else if begins ''inf'' then (signed (Infinity False), drop 3 t, False)
         else if begins ''nan'' then (NaN, after_nan (drop 3 t), False)
         else if hex_prefix t \<and> scan_hexadecimal (drop 2 t) \<noteq> None
         then result (the (scan_hexadecimal (drop 2 t)))
         else (case scan_decimal t of
             None \<Rightarrow> (Finite 0, s, False)
           | Some r \<Rightarrow> result r))"

definition parse_double :: "string \<Rightarrow> double option" where
  "parse_double s =
     (case strtod (c_str s) of (v, rest, erange) \<Rightarrow>
        if s = [] \<or> erange \<or> rest = c_str s \<or> rest \<noteq> [] then None else Some v)"

text \<open>A number with an optional suffix, and whether it was there.\<close>

definition parse_with_suffix :: "string \<Rightarrow> char \<Rightarrow> failure + double \<times> bool" where
  "parse_with_suffix text suffix =
     (let has_suffix = text \<noteq> [] \<and> tolower (last text) = tolower suffix;
          text1 = (if has_suffix then butlast text else text)
      in case parse_double text1 of
           None \<Rightarrow> Inl UsageError
         | Some v \<Rightarrow> Inr (v, has_suffix))"

section \<open>Pin lists\<close>

lemma dropWhile_shorter: "dropWhile P xs \<noteq> [] \<Longrightarrow> length (tl (dropWhile P xs)) < length xs"
  using length_dropWhile_le [of P xs] by (cases "dropWhile P xs") simp_all

text \<open>The loop of \<open>parse_pin_list\<close> from \<open>start\<close> on: \<open>text\<close> is what is left.\<close>

function parse_pins :: "string \<Rightarrow> u8 list \<Rightarrow> failure + u8 list" where
  "parse_pins text pins =
     (let token = takeWhile (\<lambda>c. c \<noteq> CHR '','') text;
          rest = dropWhile (\<lambda>c. c \<noteq> CHR '','') text
      in bind_parse (if token = [] then Inr pins
                     else bind_parse (parse_pin token) (\<lambda>p. Inr (pins @ [p]))) (\<lambda>pins1.
         if rest = [] then Inr pins1 else parse_pins (tl rest) pins1))"
  by pat_completeness auto

termination parse_pins
  by (relation "measure (\<lambda>(text, _). length text)")
    (auto simp del: dropWhile_eq_Nil_conv length_tl intro!: dropWhile_shorter)

declare parse_pins.simps [simp del]

definition parse_pin_list :: "string \<Rightarrow> failure + u8 list" where
  "parse_pin_list text =
     bind_parse (parse_pins text []) (\<lambda>pins. if pins = [] then Inl UsageError else Inr pins)"

section \<open>Decimal numbers\<close>

fun decimal :: "nat \<Rightarrow> string" where
  "decimal n =
     (if n < 10 then [char_of (48 + int n)] else decimal (n div 10) @ [char_of (48 + int (n mod 10))])"

declare decimal.simps [simp del]

lemma ascii_digit: "k < 10 \<Longrightarrow> ascii (char_of (48 + int k)) = 48 + int k"
  by (simp add: of_char_of)

lemma digit_value_digit: "k < 10 \<Longrightarrow> digit_value (char_of (48 + int k)) = Some (int k)"
  by (simp add: digit_value_def ascii_digit)

lemma decimal_nonempty [simp]: "decimal n \<noteq> []" "[] \<noteq> decimal n"
  by (simp_all add: decimal.simps [of n])

lemma decimal_ascii: "c \<in> set (decimal n) \<Longrightarrow> 48 \<le> ascii c \<and> ascii c \<le> 57"
proof (induction n rule: decimal.induct)
  case (1 n)
  then show ?case
    using ascii_digit [of n] ascii_digit [of "n mod 10"] decimal.simps [of n]
    by (cases "n < 10") auto
qed

lemma number_append: "number b (ds @ [c]) = number b ds * b + the (digit_value c)"
  by (simp add: number_def)

lemma number_decimal: "number 10 (decimal n) = int n"
proof (induction n rule: decimal.induct)
  case (1 n)
  show ?case
  proof (cases "n < 10")
    case True
    then show ?thesis
      using number_append [of 10 "[]"] by (simp add: decimal.simps [of n] digit_value_digit number_def)
  next
    case False
    have "int (n div 10) * 10 + int (n mod 10) = int n"
      by presburger
    with False show ?thesis
      using 1 by (simp only: decimal.simps [of n] number_append) (simp only: digit_value_digit option.sel
          mod_less_divisor zero_less_numeral if_False not_False_eq_True simp_thms number_append)
  qed
qed

lemma decimal_digits:
  "takeWhile (is_digit 10) (decimal n) = decimal n" "c_str (decimal n) = decimal n"
  "dropWhile isspace (decimal n) = decimal n" "sign (decimal n) = (False, decimal n)"
  "hd (decimal n) \<noteq> CHR ''-''"
proof -
  have d: "\<And>c. c \<in> set (decimal n) \<Longrightarrow> 48 \<le> ascii c \<and> ascii c \<le> 57"
    by (rule decimal_ascii)
  show "takeWhile (is_digit 10) (decimal n) = decimal n"
    unfolding takeWhile_eq_all_conv
  proof
    fix c
    assume "c \<in> set (decimal n)"
    from d [OF this] show "is_digit 10 c"
      by (simp add: is_digit_def digit_value_def)
  qed
  show "c_str (decimal n) = decimal n"
    unfolding c_str_def takeWhile_eq_all_conv by (auto dest: d)
  obtain c s where cs: "decimal n = c # s"
    by (cases "decimal n") simp_all
  then have c: "48 \<le> ascii c" "ascii c \<le> 57"
    using d [of c] by simp_all
  with cs show "dropWhile isspace (decimal n) = decimal n"
    by (simp add: isspace_def)
  from c have "c \<noteq> CHR ''-''" "c \<noteq> CHR ''+''"
    by auto
  with cs show "sign (decimal n) = (False, decimal n)" "hd (decimal n) \<noteq> CHR ''-''"
    by simp_all
qed

lemma strtoul_decimal:
  "strtoul (decimal n) 10 =
     (if n < 2 ^ 64 then (of_nat n, [], False) else (- 1, [], True))"
  by (simp add: strtoul_def decimal_digits number_decimal)

lemma parse_unsigned_decimal:
  "parse_unsigned (decimal n) 10 = (if n < 2 ^ 64 then Some (of_nat n) else None)"
  by (simp add: parse_unsigned_def decimal_digits strtoul_decimal)

lemma require_unsigned_decimal:
  assumes "most < 2 ^ 64"
  shows "require_unsigned (decimal n) (of_nat most) 10 =
    (if n \<le> most then Inr (of_nat n) else Inl UsageError)"
proof -
  have u: "unat (of_nat k :: u64) = k" if "k < 2 ^ 64" for k
    using that by (simp add: unsigned_of_nat take_bit_nat_eq_self_iff)
  have "(of_nat most < (of_nat n :: u64)) = (most < n)" if "n < 2 ^ 64"
    using u [OF assms] u [OF that] by (simp only: word_less_nat_alt)
  with assms show ?thesis
    by (auto simp: require_unsigned_def parse_unsigned_decimal)
qed

text \<open>A decimal number is a pin when it fits a byte.\<close>

lemma parse_pin_decimal:
  "parse_pin (decimal n) = (if n < 256 then Inr (of_nat n) else Inl UsageError)"
proof -
  have "ucast (of_nat n :: u64) = (of_nat n :: u8)" if "n < 256"
    using that by (simp add: unsigned_of_nat take_bit_nat_eq_self)
  then show ?thesis
    using require_unsigned_decimal [of 255 n] by (auto simp: parse_pin_def)
qed

section \<open>Joined pins\<close>

text \<open>Texts joined by commas; \<open>pin_token\<close> writes a pin or nothing.\<close>

fun join_commas :: "string list \<Rightarrow> string" where
  "join_commas [] = []"
| "join_commas [t] = t"
| "join_commas (t # ts) = t @ CHR '','' # join_commas ts"

definition pin_token :: "u8 option \<Rightarrow> string" where
  "pin_token p = (case p of None \<Rightarrow> [] | Some pin \<Rightarrow> decimal (unat pin))"

lemma no_comma: "c \<in> set (pin_token p) \<Longrightarrow> c \<noteq> CHR '',''"
  using decimal_ascii [of c] by (auto simp: pin_token_def split: option.splits)

lemma token_split:
  "takeWhile (\<lambda>c. c \<noteq> CHR '','') (pin_token p @ CHR '','' # s) = pin_token p"
  "dropWhile (\<lambda>c. c \<noteq> CHR '','') (pin_token p @ CHR '','' # s) = CHR '','' # s"
  "takeWhile (\<lambda>c. c \<noteq> CHR '','') (pin_token p) = pin_token p"
  "dropWhile (\<lambda>c. c \<noteq> CHR '','') (pin_token p) = []"
proof -
  have t: "\<And>c. c \<in> set (pin_token p) \<Longrightarrow> c \<noteq> CHR '','' "
    by (rule no_comma)
  then show "takeWhile (\<lambda>c. c \<noteq> CHR '','') (pin_token p @ CHR '','' # s) = pin_token p"
    "dropWhile (\<lambda>c. c \<noteq> CHR '','') (pin_token p @ CHR '','' # s) = CHR '','' # s"
    by (simp_all only: takeWhile_append2 dropWhile_append2 takeWhile.simps dropWhile.simps append_Nil2 simp_thms if_False)
  from t show "takeWhile (\<lambda>c. c \<noteq> CHR '','') (pin_token p) = pin_token p"
    "dropWhile (\<lambda>c. c \<noteq> CHR '','') (pin_token p) = []"
    unfolding takeWhile_eq_all_conv dropWhile_eq_Nil_conv by blast+
qed

lemma parse_token:
  "(if pin_token p = [] then Inr pins else bind_parse (parse_pin (pin_token p)) (\<lambda>q. Inr (pins @ [q]))) =
     Inr (pins @ (case p of None \<Rightarrow> [] | Some pin \<Rightarrow> [pin]))"
  using unsigned_less [of "the p", where ?'a = nat]
  by (auto simp: pin_token_def parse_pin_decimal split: option.splits)

lemma parse_pins_joined:
  "ps \<noteq> [] \<Longrightarrow>
   parse_pins (join_commas (map pin_token ps)) pins = Inr (pins @ List.map_filter id ps)"
proof (induction ps arbitrary: pins rule: induct_list012)
  case (2 p)
  then show ?case
    by (simp add: parse_pins.simps [of "pin_token p"] token_split parse_token map_filter_def split: option.splits)
next
  case (3 p q ps)
  then show ?case
    by (subst parse_pins.simps)
      (simp add: token_split parse_token map_filter_def split: option.splits)
qed simp

end
