(* ===== verification/HostCli.thy ===== *)
theory HostCli
  imports CliArguments HostAnalog HostWatcher
begin

text \<open>
  The command line tool \<open>extras/driver/tools/arduino-io.cpp\<close>: its options, its commands and its exit
  codes.  The console is a parameter, the record \<open>console\<close>: the calls of \<open>fmt::print\<close>, the flag the
  SIGINT handler sets, \<open>fopen\<close>, and the functions of libusb behind a \<open>Context\<close>.  A printed text
  is the format string with its arguments; what \<open>fmt\<close> makes of them, and the messages of exceptions,
  are not modelled.  What \<open>cxxopts\<close> finds on the command line is the record
  \<open>parsed_options\<close>, a parameter too.
\<close>

section \<open>The console\<close>

text \<open>\<open>What\<close> is the text of an exception, \<open>StreamError\<close> that of \<open>Stream::error()\<close>; \<open>VersionText\<close>,
\<open>OptionsHelp\<close> and \<open>CommandsText\<close> are \<open>Version\<close>, \<open>options.help()\<close> and \<open>Commands\<close>.\<close>

datatype sink = Stdout | Stderr | CsvFile

datatype printed =
    Str string | Num int | Dbl double | What failure | StreamError
  | VersionText | OptionsHelp | CommandsText | Format string "printed list"

record 't console =
  print_to :: "sink \<Rightarrow> printed \<Rightarrow> 't \<Rightarrow> 't"
  stop_flag :: "'t \<Rightarrow> bool \<times> 't"
  fopen_write :: "string \<Rightarrow> 't \<Rightarrow> bool \<times> 't"
  libusb_init :: "'t \<Rightarrow> (int + 't libusb_context) \<times> 't"
  libusb_set_log_level :: "'t libusb_context \<Rightarrow> int \<Rightarrow> 't \<Rightarrow> int \<times> 't"

type_synonym ('t, 'a) cli = "'t \<Rightarrow> (failure + 'a) \<times> 't"

definition cli_ret :: "'a \<Rightarrow> ('t, 'a) cli" where
  "cli_ret x w = (Inr x, w)"

definition cli_parse :: "failure + 'a \<Rightarrow> ('t, 'a) cli" where
  "cli_parse r w = (r, w)"

definition cli_bind :: "('t, 'a) cli \<Rightarrow> ('a \<Rightarrow> ('t, 'b) cli) \<Rightarrow> ('t, 'b) cli" where
  "cli_bind m f w = (case m w of (Inl e, w1) \<Rightarrow> (Inl e, w1) | (Inr x, w1) \<Rightarrow> f x w1)"

text \<open>An operation of the library, whose exceptions pass through the command.\<close>

definition device_op :: "('t, 'a) io \<Rightarrow> ('t, 'a) cli" where
  "device_op m w = apfst (map_sum DeviceFailure id) (m w)"

definition print :: "'t console \<Rightarrow> sink \<Rightarrow> string \<Rightarrow> printed list \<Rightarrow> ('t, unit) cli" where
  "print C f fmt args w = (Inr (), print_to C f (Format fmt args) w)"

abbreviation newline :: char where "newline \<equiv> CHR 0x0A"

primrec print_all :: "'t console \<Rightarrow> sink \<Rightarrow> (string \<times> printed list) list \<Rightarrow> ('t, unit) cli" where
  "print_all C f [] = cli_ret ()"
| "print_all C f (piece # pieces) =
     cli_bind (print C f (fst piece) (snd piece)) (\<lambda>_. print_all C f pieces)"

text \<open>Calls whose format ends a line.\<close>

definition print_lines :: "'t console \<Rightarrow> sink \<Rightarrow> (string \<times> printed list) list \<Rightarrow> ('t, unit) cli" where
  "print_lines C f lines = print_all C f (map (apfst (\<lambda>fmt. fmt @ [newline])) lines)"

abbreviation print_line :: "'t console \<Rightarrow> sink \<Rightarrow> string \<Rightarrow> printed list \<Rightarrow> ('t, unit) cli" where
  "print_line C f fmt args \<equiv> print C f (fmt @ [newline]) args"

text \<open>\<open>ExitOk\<close>, \<open>ExitDevice\<close> and \<open>ExitUsage\<close>.\<close>

abbreviation (input) ExitOk :: int where "ExitOk \<equiv> 0"
abbreviation (input) ExitDevice :: int where "ExitDevice \<equiv> 1"
abbreviation (input) ExitUsage :: int where "ExitUsage \<equiv> 2"

abbreviation word_arg :: "'a::len word \<Rightarrow> printed" where "word_arg x \<equiv> Num (uint x)"

section \<open>Settings\<close>

text \<open>Durations of \<open>--timeout\<close> and \<open>--debounce\<close> in milliseconds, of \<open>--period-us\<close> in microseconds.\<close>

record Settings =
  s_serial :: "string option"
  s_enumerate :: EnumerateOptions
  s_device :: DeviceOptions
  s_transport :: LibusbTransportOptions
  s_volts :: bool
  s_hz :: double
  s_verbose :: bool
  s_hz_given :: bool
  s_period_us :: "u32 option"
  s_csv_path :: "string option"
  s_run_seconds :: double
  s_watch_edge :: u8
  s_watch_debounce_ms :: u32

text \<open>What was given on the command line; \<open>None\<close> when an option was not.\<close>

record parsed_options =
  po_help :: bool
  po_version :: bool
  po_serial :: "string option"
  po_vid :: "string option"
  po_pid :: "string option"
  po_timeout :: "u32 option"
  po_interface_recipient :: bool
  po_no_claim :: bool
  po_volts :: bool
  po_hz :: "double option"
  po_period_us :: "u32 option"
  po_seconds :: "double option"
  po_csv :: "string option"
  po_edge :: "string option"
  po_debounce :: "u32 option"
  po_verbose :: bool
  po_args :: "string list option"

definition parse_option :: "(string \<Rightarrow> failure + 'a) \<Rightarrow> string option \<Rightarrow> failure + 'a option" where
  "parse_option f opt =
     (case opt of None \<Rightarrow> Inr None | Some text \<Rightarrow> bind_parse (f text) (\<lambda>x. Inr (Some x)))"

definition default_to :: "'a \<Rightarrow> 'a option \<Rightarrow> 'a" where
  "default_to d opt = (case opt of None \<Rightarrow> d | Some x \<Rightarrow> x)"

text \<open>The settings \<open>run\<close> fills in from the options.\<close>

definition settings_of :: "parsed_options \<Rightarrow> failure + Settings" where
  "settings_of po =
     bind_parse (parse_option parse_id (po_vid po)) (\<lambda>vid.
     bind_parse (parse_option parse_id (po_pid po)) (\<lambda>pid.
     bind_parse (parse_edge_mode (default_to ''change'' (po_edge po))) (\<lambda>edge.
       let timeout = uint (default_to 100 (po_timeout po)) in
       Inr \<lparr>s_serial = po_serial po,
            s_enumerate = default_enumerate\<lparr>en_vid := vid, en_pid := pid, en_probe_timeout := timeout\<rparr>,
            s_device = default_options\<lparr>opt_timeout := timeout\<rparr>,
            s_transport = \<lparr>lto_recipient = (if po_interface_recipient po then RecipientInterface
                                          else RecipientDevice),
                           lto_claim_interface = \<not> po_no_claim po\<rparr>,
            s_volts = po_volts po, s_hz = default_to (Finite 10) (po_hz po), s_verbose = po_verbose po,
            s_hz_given = po_hz po \<noteq> None, s_period_us = po_period_us po, s_csv_path = po_csv po,
            s_run_seconds = default_to (Finite 0) (po_seconds po), s_watch_edge = edge,
            s_watch_debounce_ms = default_to 0 (po_debounce po)\<rparr>)))"

text \<open>\<open>x > 0.0\<close>, false for NaN.\<close>

definition positive :: "double \<Rightarrow> bool" where
  "positive x \<longleftrightarrow> d_le (Finite 0) x \<and> \<not> d_le x (Finite 0)"

text \<open>The sampling period in microseconds; 0 is free running.\<close>

definition resolve_stream_period :: "Settings \<Rightarrow> failure + int" where
  "resolve_stream_period s =
     (if s_hz_given s \<and> s_period_us s \<noteq> None then Inl UsageError
      else case s_period_us s of
        Some us \<Rightarrow> Inr (uint us)
      | None \<Rightarrow>
          if s_hz_given s then
            if \<not> positive (s_hz s) then Inl UsageError
            else let period_us = d_trunc (d_add (d_div (Finite 1000000) (s_hz s)) (Finite (1 / 2)))
                 in if period_us = 0 then Inl UsageError else Inr period_us
          else Inr 0)"

definition require_args :: "string list \<Rightarrow> nat \<Rightarrow> ('t, unit) cli" where
  "require_args args n = cli_parse (if length args < n then Inl UsageError else Inr ())"

section \<open>The bus\<close>

text \<open>\<open>Context::Context\<close> and \<open>Context::set_log_level\<close> (\<open>src/LibusbTransport.cpp\<close>).\<close>

definition make_context :: "'t console \<Rightarrow> ('t, 't libusb_context) io" where
  "make_context C w =
     (case libusb_init C w of
        (Inl rc, w1) \<Rightarrow> (Inl (throw_usb_error rc), w1)
      | (Inr ctx, w1) \<Rightarrow> (Inr ctx, w1))"

definition set_log_level :: "'t console \<Rightarrow> 't libusb_context \<Rightarrow> int \<Rightarrow> ('t, unit) io" where
  "set_log_level C ctx level w =
     (case libusb_set_log_level C ctx level w of (rc, w1) \<Rightarrow>
        if rc < 0 \<and> rc \<noteq> LIBUSB_ERROR_NOT_SUPPORTED then (Inl (throw_usb_error rc), w1)
        else (Inr (), w1))"

definition open_selected ::
  "'t libusb_context \<Rightarrow> Settings \<Rightarrow> ('t, device \<times> 't transport) io"
where
  "open_selected ctx s =
     (case s_serial s of
        Some serial \<Rightarrow> open_by_serial (Some ctx) serial (s_enumerate s) (s_device s) (s_transport s)
      | None \<Rightarrow> open_first (Some ctx) (s_enumerate s) (s_device s) (s_transport s))"

text \<open>The lines \<open>cmd_list\<close> prints of a device it knows, and of one it could not open.\<close>

definition identified_lines :: "'t DeviceInfo \<Rightarrow> (string \<times> printed list) list" where
  "identified_lines d =
     (let board = (case di_info d of
            None \<Rightarrow> ''?''
          | Some i \<Rightarrow> if info_n_pins i = 0 then ''(not ready)'' else board_name (info_board_id i));
          pins = (case di_info d of
            None \<Rightarrow> Str ''?''
          | Some i \<Rightarrow> Format ''{}'' [word_arg (info_n_pins i)])
      in (''{:03}:{:03}  {:04x}:{:04x} {:<20} {:<20} {:<3} {}'',
          [word_arg (di_bus d), word_arg (di_address d), word_arg (di_vid d), word_arg (di_pid d),
           Str board, Str (di_serial d),
           (case di_interface_number d of None \<Rightarrow> Str ''-'' | Some i \<Rightarrow> Format ''{}'' [word_arg i]),
           pins])
         # (case di_probe_error d of
              None \<Rightarrow> []
            | Some e \<Rightarrow> [(''    (not probed: {})'', [What (DeviceFailure e)])]))"

definition unprobed_line :: "'t DeviceInfo \<Rightarrow> string \<times> printed list" where
  "unprobed_line d =
     (''{:03}:{:03}  {:04x}:{:04x} {}'',
      [word_arg (di_bus d), word_arg (di_address d), word_arg (di_vid d), word_arg (di_pid d),
       (case di_probe_error d of None \<Rightarrow> Str [] | Some e \<Rightarrow> What (DeviceFailure e))])"

definition list_lines :: "'t DeviceInfo list \<Rightarrow> (string \<times> printed list) list" where
  "list_lines devices =
     (''{:<8} {:<9} {:<20} {:<20} {:<3} {}'',
        [Str ''BUS:ADDR'', Str ''VID:PID'', Str ''BOARD'', Str ''SERIAL'', Str ''ITF'', Str ''PINS''])
     # concat (map identified_lines (filter di_identified devices))
     @ (if list_ex (\<lambda>d. \<not> di_identified d) devices
        then (newline # ''Not probed (may or may not run UsbIo):'', [])
             # map unprobed_line (filter (\<lambda>d. \<not> di_identified d) devices)
             @ [(''Linux: install extras/driver/etc/99-arduino-usbio.rules (udev). ''
                 @ ''Windows: bind WinUSB to the UsbIo interface with Zadig. ''
                 @ ''Otherwise close the program holding the device.'', [])]
        else [])"

definition cmd_list :: "'t console \<Rightarrow> 't libusb_context \<Rightarrow> Settings \<Rightarrow> ('t, int) cli" where
  "cmd_list C ctx s =
     cli_bind (device_op (list_devices (Some ctx) (s_enumerate s))) (\<lambda>devices.
     cli_bind (print_lines C Stdout (list_lines devices)) (\<lambda>_. cli_ret ExitOk))"

section \<open>What the tables say\<close>

definition flag_char :: "u8 \<Rightarrow> u8 \<Rightarrow> char \<Rightarrow> char" where
  "flag_char caps cap c = (if has caps cap then c else CHR ''-'')"

definition caps_flags :: "u8 \<Rightarrow> string" where
  "caps_flags caps =
     [flag_char caps USBIO_CAP_DIO (CHR ''D''), flag_char caps USBIO_CAP_AIN (CHR ''A''),
      flag_char caps USBIO_CAP_PWM (CHR ''P''), flag_char caps USBIO_CAP_DAC (CHR ''C'')]"

definition analog_value :: "device \<Rightarrow> u16 \<Rightarrow> bool \<Rightarrow> printed" where
  "analog_value d raw volts =
     (if volts then Format ''{:.4f}'' [Dbl (to_volts d raw)] else Format ''{}'' [word_arg raw])"

text \<open>\<open>std::find\<close>: the index of the first occurrence, or the length.\<close>

definition index_of :: "'a \<Rightarrow> 'a list \<Rightarrow> nat" where
  "index_of x xs = length (takeWhile (\<lambda>y. y \<noteq> x) xs)"

text \<open>\<open>cmd_info\<close>, but for the two lines about the libusb transport behind the device.\<close>

definition info_lines :: "usbio_info \<Rightarrow> (string \<times> printed list) list" where
  "info_lines i =
     [(''board:            {} (id 0x{:04X})'', [Str (board_name (info_board_id i)), word_arg (info_board_id i)]),
      (''protocol version: 0x{:04X}'', [word_arg (info_protocol_version i)]),
      (''pins:             {} (analog: {})'', [word_arg (info_n_pins i), word_arg (info_n_ain i)]),
      (''resolution:       adc {} bits, pwm {} bits, dac {} bits{}'',
         [word_arg (info_adc_bits i), word_arg (info_pwm_bits i), word_arg (info_dac_bits i),
          Str (if has_dac i then [] else '' (no DAC)'')]),
      (''voltages:         vref {} mV, io {} mV'', [word_arg (info_vref_mv i), word_arg (info_io_mv i)]),
      (''flags:            0x{:04X}{}{}{}{}'',
         [word_arg (info_flags i), Str (if has_vendor_interface i then '' vendor-interface'' else []),
          Str (if supports_pulldown i then '' pulldown'' else []),
          Str (if streaming i then '' streaming'' else []), Str (if events i then '' events'' else [])]),
      (''queue depth:      {}'', [word_arg (info_queue_depth i)])]
     @ (if streaming i
        then [(''stream channels:  up to {}'', [word_arg (info_stream_max_channels i)]),
              (''stream period:    {} us or longer (up to {:.0f} Hz{})'',
                 [word_arg (min_stream_period_us i),
                  Dbl (d_div (Finite 1000000) (double_of (unat (min_stream_period_us i)))),
                  Str (if info_stream_min_period_us i = 0 then ''; firmware before UsbIo 0.4.0''
                       else '', bounded by the sketch'' @ [CHR 0x27] @ ''s loop() rate'')])]
        else [])
     @ (if events i then [(''event pins:       up to {}'', [word_arg (info_event_max_pins i)])] else [])"

definition cmd_info :: "'t console \<Rightarrow> device \<Rightarrow> ('t, int) cli" where
  "cmd_info C d = cli_bind (print_lines C Stdout (info_lines (dev_info d))) (\<lambda>_. cli_ret ExitOk)"

definition caps_line :: "device \<Rightarrow> u8 \<Rightarrow> failure + string \<times> printed list" where
  "caps_line d pin =
     (case pin_caps d pin of
        Inl e \<Rightarrow> Inl (DeviceFailure e)
      | Inr caps \<Rightarrow>
          let analog = (if has caps USBIO_CAP_AIN
                        then [Format ''analog #{}'' [Num (int (index_of pin (dev_analog_pins d)))]]
                          @ (if has caps USBIO_CAP_DIO then [] else [Str '' (analog-only pad)''])
                        else []);
              dac = (if has caps USBIO_CAP_DAC
                     then [Str (if analog = [] then ''DAC'' else '', DAC'')] else [])
          in Inr (''{:<4} {:<5} {}'',
                  [word_arg pin, Str (caps_flags caps), Format (concat (map (\<lambda>_. ''{}'') (analog @ dac))) (analog @ dac)]))"

fun caps_loop :: "'t console \<Rightarrow> device \<Rightarrow> u8 list \<Rightarrow> ('t, unit) cli" where
  "caps_loop C d [] = cli_ret ()"
| "caps_loop C d (pin # pins) =
     cli_bind (cli_parse (caps_line d pin)) (\<lambda>(fmt, args).
     cli_bind (print_line C Stdout fmt args) (\<lambda>_. caps_loop C d pins))"

text \<open>The pins 0 to \<open>pin_count() - 1\<close>, in ascending order.\<close>

definition all_pins :: "device \<Rightarrow> u8 list" where
  "all_pins d = map of_nat [0..<length (dev_caps d)]"

definition cmd_caps :: "'t console \<Rightarrow> device \<Rightarrow> ('t, int) cli" where
  "cmd_caps C d =
     cli_bind (print_line C Stdout ''{:<4} {:<5} {}'' [Str ''PIN'', Str ''CAPS'', Str ''NOTES'']) (\<lambda>_.
     cli_bind (caps_loop C d (all_pins d)) (\<lambda>_.
     cli_bind (print_line C Stdout ''D digital I/O, A analog input, P PWM, C DAC'' []) (\<lambda>_.
       cli_ret ExitOk)))"

section \<open>Single requests\<close>

definition cmd_mode :: "'t transport \<Rightarrow> device \<Rightarrow> string list \<Rightarrow> ('t, int) cli" where
  "cmd_mode T d args =
     cli_bind (require_args args 2) (\<lambda>_.
     cli_bind (cli_parse (parse_pin (args ! 0))) (\<lambda>pin.
     cli_bind (cli_parse (parse_mode (args ! 1))) (\<lambda>mode.
     cli_bind (device_op (pin_mode T d pin mode)) (\<lambda>_. cli_ret ExitOk))))"

definition cmd_read :: "'t console \<Rightarrow> 't transport \<Rightarrow> device \<Rightarrow> string list \<Rightarrow> ('t, int) cli" where
  "cmd_read C T d args =
     cli_bind (require_args args 1) (\<lambda>_.
     cli_bind (cli_parse (parse_pin (args ! 0))) (\<lambda>pin.
     cli_bind (device_op (digital_read T d pin)) (\<lambda>level.
     cli_bind (print_line C Stdout ''{}'' [Num (if level then 1 else 0)]) (\<lambda>_. cli_ret ExitOk))))"

definition cmd_write :: "'t transport \<Rightarrow> device \<Rightarrow> string list \<Rightarrow> ('t, int) cli" where
  "cmd_write T d args =
     cli_bind (require_args args 2) (\<lambda>_.
     cli_bind (cli_parse (parse_pin (args ! 0))) (\<lambda>pin.
     cli_bind (cli_parse (parse_level (args ! 1))) (\<lambda>level.
     cli_bind (device_op (digital_write T d pin level)) (\<lambda>_. cli_ret ExitOk))))"

definition cmd_aread ::
  "'t console \<Rightarrow> 't transport \<Rightarrow> device \<Rightarrow> string list \<Rightarrow> Settings \<Rightarrow> ('t, int) cli"
where
  "cmd_aread C T d args s =
     cli_bind (require_args args 1) (\<lambda>_.
     cli_bind (cli_parse (parse_pin (args ! 0))) (\<lambda>pin.
     cli_bind (device_op (analog_read T d pin)) (\<lambda>raw.
     cli_bind (print_line C Stdout ''{}'' [analog_value d raw (s_volts s)]) (\<lambda>_. cli_ret ExitOk))))"

text \<open>A line that several calls of \<open>fmt::print\<close> write piece by piece.\<close>

definition cmd_readall :: "'t console \<Rightarrow> 't transport \<Rightarrow> device \<Rightarrow> ('t, int) cli" where
  "cmd_readall C T d =
     cli_bind (device_op (read_all_digital T d)) (\<lambda>levels.
     cli_bind (print_all C Stdout
         (map (\<lambda>(pin, level). (''{}{}'', [Str (if pin = 0 then [] else '' ''), Num (if level then 1 else 0)]))
            (enumerate 0 levels) @ [([newline], [])])) (\<lambda>_. cli_ret ExitOk))"

definition cmd_areadall :: "'t console \<Rightarrow> 't transport \<Rightarrow> device \<Rightarrow> Settings \<Rightarrow> ('t, int) cli" where
  "cmd_areadall C T d s =
     cli_bind (device_op (read_all_analog T d)) (\<lambda>samples.
     cli_bind (print_all C Stdout
         (map (\<lambda>(i, sample). (''{}{}={}'', [Str (if i = 0 then [] else '' ''),
              word_arg (dev_analog_pins d ! i), analog_value d sample (s_volts s)]))
            (enumerate 0 samples) @ [([newline], [])])) (\<lambda>_. cli_ret ExitOk))"

definition cmd_pwm :: "'t transport \<Rightarrow> device \<Rightarrow> string list \<Rightarrow> ('t, int) cli" where
  "cmd_pwm T d args =
     cli_bind (require_args args 2) (\<lambda>_.
     cli_bind (cli_parse (parse_pin (args ! 0))) (\<lambda>pin.
     cli_bind (cli_parse (parse_with_suffix (args ! 1) (CHR ''%''))) (\<lambda>(v, percent).
     cli_bind (if percent then device_op (pwm_write_fraction T d pin (d_div v (Finite 100)))
               else cli_bind (cli_parse (require_unsigned (args ! 1) 0xFFFF 10)) (\<lambda>duty.
                    device_op (pwm_write T d pin (ucast duty)))) (\<lambda>_. cli_ret ExitOk))))"

definition cmd_dac :: "'t transport \<Rightarrow> device \<Rightarrow> string list \<Rightarrow> ('t, int) cli" where
  "cmd_dac T d args =
     cli_bind (require_args args 2) (\<lambda>_.
     cli_bind (cli_parse (parse_pin (args ! 0))) (\<lambda>pin.
     cli_bind (cli_parse (parse_with_suffix (args ! 1) (CHR ''V''))) (\<lambda>(v, volts).
     cli_bind (if volts then device_op (dac_write_volts T d pin v)
               else cli_bind (cli_parse (require_unsigned (args ! 1) 0xFFFF 10)) (\<lambda>level.
                    device_op (dac_write T d pin (ucast level)))) (\<lambda>_. cli_ret ExitOk))))"

definition cmd_status :: "'t console \<Rightarrow> 't transport \<Rightarrow> device \<Rightarrow> ('t, int) cli" where
  "cmd_status C T d =
     cli_bind (device_op (HostDevice.status T d)) (\<lambda>(last_error, pending).
     cli_bind (print_lines C Stdout
         [(''last error:    {} ({})'', [Str (to_string_status last_error), Str (describe last_error)]),
          (''queue pending: {}'', [word_arg pending])]) (\<lambda>_. cli_ret ExitOk))"

definition cmd_time :: "'t console \<Rightarrow> 't transport \<Rightarrow> device \<Rightarrow> ('t, int) cli" where
  "cmd_time C T d =
     cli_bind (device_op (read_time T d)) (\<lambda>t.
       let rtt_ms = d_div (round_double (of_int (dt_round_trip t))) (Finite 1000) in
     cli_bind (print_lines C Stdout
         [(''millis:        {}'', [word_arg (dt_millis t)]),
          (''micros:        {}'', [word_arg (dt_micros t)]),
          (''micros64:      {} us'', [word_arg (dt_micros64 t)]),
          (''round trip:    {:.3f} ms (host offset uncertainty +/- {:.3f} ms)'',
             [Dbl rtt_ms, Dbl (d_div rtt_ms (Finite 2))])]) (\<lambda>_. cli_ret ExitOk))"

section \<open>monitor\<close>

text \<open>The sink of \<open>--csv\<close>, if any.\<close>

definition open_csv :: "'t console \<Rightarrow> Settings \<Rightarrow> ('t, sink option) cli" where
  "open_csv C s w =
     (case s_csv_path s of
        None \<Rightarrow> (Inr None, w)
      | Some path \<Rightarrow>
          if path = ''-'' then (Inr (Some Stdout), w)
          else case fopen_write C path w of (opened, w1) \<Rightarrow>
            (if opened then Inr (Some CsvFile) else Inl UsageError, w1))"

fun check_caps :: "device \<Rightarrow> u8 list \<Rightarrow> failure + unit" where
  "check_caps d [] = Inr ()"
| "check_caps d (pin # pins) =
     (case pin_caps d pin of Inl e \<Rightarrow> Inl (DeviceFailure e) | Inr _ \<Rightarrow> check_caps d pins)"

fun monitor_pins :: "device \<Rightarrow> string list \<Rightarrow> failure + u8 list" where
  "monitor_pins d [] = Inr []"
| "monitor_pins d (arg # args) =
     bind_parse (parse_pin_list arg) (\<lambda>pins.
     bind_parse (check_caps d pins) (\<lambda>_.
     bind_parse (monitor_pins d args) (\<lambda>more. Inr (pins @ more))))"

text \<open>\<open>pin_caps\<close> of a pin that was checked.\<close>

definition caps_of :: "device \<Rightarrow> u8 \<Rightarrow> u8" where
  "caps_of d pin = dev_caps d ! unat pin"

definition monitor_header :: "device \<Rightarrow> u8 list \<Rightarrow> printed list" where
  "monitor_header d pins =
     Str ''t_s'' # concat (map (\<lambda>pin.
       (if has (caps_of d pin) USBIO_CAP_DIO then [Format '',D{}'' [word_arg pin]] else []) @
       (if has (caps_of d pin) USBIO_CAP_AIN then [Format '',A{}'' [word_arg pin]] else [])) pins)"

text \<open>What one refresh shows of the pins: their levels and samples, in order.\<close>

datatype shown = Level u8 bool | Value u8 printed

definition shown_of :: "device \<Rightarrow> bool list \<Rightarrow> u16 list \<Rightarrow> bool \<Rightarrow> u8 \<Rightarrow> shown list" where
  "shown_of d levels samples volts pin =
     (if has (caps_of d pin) USBIO_CAP_DIO then [Level pin (levels ! unat pin)] else []) @
     (if has (caps_of d pin) USBIO_CAP_AIN
      then [Value pin (analog_value d (samples ! index_of pin (dev_analog_pins d)) volts)] else [])"

fun line_part :: "shown \<Rightarrow> printed" where
  "line_part (Level pin level) = Format '' D{}={}'' [word_arg pin, Num (if level then 1 else 0)]"
| "line_part (Value pin v) = Format '' A{}={}'' [word_arg pin, v]"

fun row_part :: "shown \<Rightarrow> printed" where
  "row_part (Level pin level) = Format '',{}'' [Num (if level then 1 else 0)]"
| "row_part (Value pin v) = Format '',{}'' [v]"

text \<open>A duration in nanoseconds as seconds; the text of several parts is one argument.\<close>

definition seconds :: "int \<Rightarrow> double" where
  "seconds ns = d_div (round_double (of_int ns)) (Finite 1000000000)"

definition joined :: "printed list \<Rightarrow> printed" where
  "joined parts = Format (concat (map (\<lambda>_. ''{}'') parts)) parts"

text \<open>One refresh: the time it began.\<close>

definition monitor_round ::
  "'t console \<Rightarrow> 't transport \<Rightarrow> device \<Rightarrow> u8 list \<Rightarrow> sink option \<Rightarrow> bool \<Rightarrow> int \<Rightarrow> ('t, int) cli"
where
  "monitor_round C T d pins csv volts start =
     cli_bind (device_op (now T)) (\<lambda>t.
     cli_bind (device_op (read_all_digital T d)) (\<lambda>levels.
     cli_bind (device_op (read_all_analog T d)) (\<lambda>samples.
       let t_s = seconds (t - start);
           shown = concat (map (shown_of d levels samples volts) pins)
       in cli_bind (if csv = Some Stdout then cli_ret ()
                    else print_line C Stdout ''{}''
                      [joined (Format ''{:>9.3f}s'' [Dbl t_s] # map line_part shown)]) (\<lambda>_.
          cli_bind (case csv of
                      None \<Rightarrow> cli_ret ()
                    | Some f \<Rightarrow> print_line C f ''{}''
                        [joined (Format ''{:.6f}'' [Dbl t_s] # map row_part shown)]) (\<lambda>_.
            cli_ret t)))))"

text \<open>
  The wait for the next refresh, in naps of at most 50 ms; \<open>None\<close> is not returning.  Times are in
  nanoseconds.
\<close>

partial_function (option) monitor_wait :: "'t console \<Rightarrow> 't transport \<Rightarrow> int \<Rightarrow> 't \<Rightarrow> 't option" where
  "monitor_wait C T deadline w =
     (case stop_flag C w of (stop, w1) \<Rightarrow>
        if stop then Some w1
        else case steady_clock T w1 of (t, w2) \<Rightarrow>
          if t \<ge> deadline then Some w2
          else case steady_clock T w2 of (t1, w3) \<Rightarrow>
            monitor_wait C T deadline
              (snd (pause T (min 50 (trunc_div (deadline - t1) 1000000 + 1) * 1000) w3)))"

definition refresh_period :: "double \<Rightarrow> int" where
  "refresh_period hz = d_trunc (d_mul (d_div (Finite 1) hz) (Finite 1000000000))"

partial_function (option) monitor_loop ::
  "'t console \<Rightarrow> 't transport \<Rightarrow> device \<Rightarrow> u8 list \<Rightarrow> sink option \<Rightarrow> Settings \<Rightarrow> int \<Rightarrow> 't \<Rightarrow>
   ((failure + unit) \<times> 't) option"
where
  "monitor_loop C T d pins csv s start w =
     (case stop_flag C w of (stop, w1) \<Rightarrow>
        if stop then Some (Inr (), w1)
        else case monitor_round C T d pins csv (s_volts s) start w1 of
            (Inl e, w2) \<Rightarrow> Some (Inl e, w2)
          | (Inr t, w2) \<Rightarrow>
              Option.bind (monitor_wait C T (t + refresh_period (s_hz s)) w2)
                (monitor_loop C T d pins csv s start))"

definition cmd_monitor ::
  "'t console \<Rightarrow> 't transport \<Rightarrow> device \<Rightarrow> string list \<Rightarrow> Settings \<Rightarrow> 't \<Rightarrow>
   ((failure + int) \<times> 't) option"
where
  "cmd_monitor C T d args s w =
     (case cli_bind (cli_parse (monitor_pins d args)) (\<lambda>named.
             let pins = (if named = [] then all_pins d else named) in
           cli_bind (open_csv C s) (\<lambda>csv.
           cli_bind (case csv of
                       None \<Rightarrow> cli_ret ()
                     | Some f \<Rightarrow> print_line C f ''{}'' [joined (monitor_header d pins)]) (\<lambda>_.
           cli_bind (device_op (now T)) (\<lambda>start. cli_ret (pins, csv, start))))) w of
        (Inl e, w1) \<Rightarrow> Some (Inl e, w1)
      | (Inr (pins, csv, start), w1) \<Rightarrow>
          map_option (apfst (map_sum id (\<lambda>_. ExitOk))) (monitor_loop C T d pins csv s start w1))"

section \<open>stream\<close>

text \<open>
  The loop of \<open>cmd_stream\<close>: each element of \<open>chunks\<close> is what the worker does before a call of
  \<open>read\<close> returns, and the loop is left, by Ctrl-C or the time limit, when there is none left.
\<close>

definition sample_line :: "device \<Rightarrow> bool \<Rightarrow> Sample \<Rightarrow> string \<times> printed list" where
  "sample_line d volts sample =
     (if volts then (''{},{},{:.4f}'',
        [word_arg (smp_t_us sample), word_arg (smp_pin sample), Dbl (sample_volts d sample)])
      else (''{},{},{}'', [word_arg (smp_t_us sample), word_arg (smp_pin sample), word_arg (smp_raw sample)]))"

primrec stream_loop ::
  "'t console \<Rightarrow> device \<Rightarrow> sink \<Rightarrow> bool \<Rightarrow> stream_env \<Rightarrow> nat \<Rightarrow> round list list \<Rightarrow> u64 \<Rightarrow> worker \<Rightarrow>
   ('t, u64 \<times> worker) cli"
where
  "stream_loop C d f volts env room [] n_samples wk = cli_ret (n_samples, wk)"
| "stream_loop C d f volts env room (rounds # chunks) n_samples wk =
     (case read_samples room (worker_run env rounds wk) of (batch, wk1) \<Rightarrow>
        if batch = [] \<and> \<not> wk_running wk1 then cli_ret (n_samples, wk1)
        else cli_bind (print_lines C f (map (sample_line d volts) batch)) (\<lambda>_.
          stream_loop C d f volts env room chunks (n_samples + of_nat (length batch)) wk1))"

text \<open>The summary; \<open>elapsed\<close> in nanoseconds.\<close>

definition stream_summary :: "u8 list \<Rightarrow> int \<Rightarrow> u64 \<Rightarrow> StreamStats \<Rightarrow> string \<times> printed list" where
  "stream_summary pins elapsed n_samples stats =
     (let secs = seconds elapsed;
          rate = (if positive secs \<and> pins \<noteq> []
                  then d_div (d_div (round_double (of_int (uint n_samples))) secs) (double_of (length pins))
                  else Finite 0)
      in (''stream: {} records ({} samples) in {:.3f} s ({:.1f} Hz achieved ''
          @ ''per channel); device overruns {}, seq gaps {}, host drops {}, ''
          @ ''resyncs {}, stale records {}'',
          [word_arg (records_received stats), word_arg n_samples, Dbl secs, Dbl rate,
           word_arg (device_overruns stats), word_arg (seq_gaps stats), word_arg (host_drops stats),
           word_arg (resyncs stats), word_arg (stale_records stats)]))"

definition cmd_stream ::
  "'t console \<Rightarrow> 't transport \<Rightarrow> device \<Rightarrow> string list \<Rightarrow> Settings \<Rightarrow> round list list \<Rightarrow> ('t, int) cli"
where
  "cmd_stream C T d args s chunks =
     cli_bind (require_args args 1) (\<lambda>_.
     cli_bind (cli_parse (parse_pin_list (args ! 0))) (\<lambda>pins.
     cli_bind (cli_parse (resolve_stream_period s)) (\<lambda>period.
       let config = \<lparr>cfg_pins = pins, cfg_period = period, cfg_flags = 0,
                     cfg_queue_capacity = DefaultStreamQueueCapacity\<rparr> in
     cli_bind (device_op (start_stream T d config)) (\<lambda>(d1, start_us) w.
       case cli_bind (open_csv C s) (\<lambda>csv.
              let f = (case csv of None \<Rightarrow> Stdout | Some f \<Rightarrow> f);
                  (env, wk) = new_stream d1 config start_us in
            cli_bind (print_line C f ''t_us,pin,{}'' [Str (if s_volts s then ''volts'' else ''raw'')]) (\<lambda>_.
            cli_bind (device_op (now T)) (\<lambda>start.
            cli_bind (stream_loop C d1 f (s_volts s) env (length pins * 16) chunks 0 wk) (\<lambda>(n_samples, wk1).
            cli_bind (device_op (now T)) (\<lambda>stop.
            cli_bind (print_lines C Stderr [stream_summary pins (stop - start) n_samples (wk_stats wk1)]) (\<lambda>_.
              if wk_error wk1
              then cli_bind (print_line C Stderr ''stream: stopped early after {:.3f} s: {}''
                     [Dbl (seconds (stop - start)), StreamError]) (\<lambda>_. cli_ret ExitDevice)
              else cli_ret ExitOk)))))) w of
         (r, w1) \<Rightarrow> (r, snd (end_stream T d1 w1))))))"

section \<open>watch\<close>

text \<open>
  \<open>n\<close> rounds of the worker pass before the counters are read and \<open>late\<close> more before it stops.  \<open>None\<close>
  is not returning: a poll that never ends, or an exception that ends the worker thread and the program.
\<close>

definition print_event :: "'t console \<Rightarrow> 't transport \<Rightarrow> int \<Rightarrow> usbio_event \<Rightarrow> ('t, unit) io" where
  "print_event C T start e =
     io_bind (now T) (\<lambda>t w.
       (Inr (), print_to C Stdout
          (Format (''{:>9.3f}s  pin {:<3} {:<7} (device t={} ms, edge #{})'' @ [newline])
             [Dbl (seconds (t - start)), word_arg (ev_pin e), Str (to_string_edge (ev_edge e)),
              word_arg (ev_t_ms e), word_arg (ev_seq e)]) w))"

definition watch_rounds ::
  "'t console \<Rightarrow> 't transport \<Rightarrow> device \<Rightarrow> int \<Rightarrow> nat \<Rightarrow> EventWatcher \<Rightarrow> 't \<Rightarrow> (EventWatcher \<times> 't) option"
where
  "watch_rounds C T d start n ew w =
     (case watcher_main T (Some (print_event C T start)) (replicate n d) ew w of
        Some ((Inr _, ew1), w1) \<Rightarrow> Some (ew1, w1)
      | _ \<Rightarrow> None)"

definition watch_config :: "Settings \<Rightarrow> u8 list \<Rightarrow> EventWatcherConfig" where
  "watch_config s pins =
     \<lparr>ew_pins = map (\<lambda>pin. \<lparr>wp_pin = pin, wp_edge = s_watch_edge s,
                             wp_debounce = uint (s_watch_debounce_ms s)\<rparr>) pins,
      ew_poll_interval = 20\<rparr>"

definition watch_summary ::
  "u8 list \<Rightarrow> usbio_event_count list \<Rightarrow> EventWatcherStats \<Rightarrow> (string \<times> printed list) list"
where
  "watch_summary pins counts stats =
     (newline # ''watch summary:'', [])
     # map (\<lambda>pin. (''  pin {:<3} count {}'',
         [word_arg pin, (case find (\<lambda>c. ec_pin c = pin) counts of
                           None \<Rightarrow> Num 0 | Some c \<Rightarrow> word_arg (ec_count c))])) pins
     @ [(''delivered {} events, {} dropped from the detailed feed'',
         [word_arg (events_delivered stats), word_arg (events_dropped stats)])]"

definition cmd_watch ::
  "'t console \<Rightarrow> 't transport \<Rightarrow> device \<Rightarrow> string list \<Rightarrow> Settings \<Rightarrow> nat \<Rightarrow> nat \<Rightarrow> 't \<Rightarrow>
   ((failure + int) \<times> 't) option"
where
  "cmd_watch C T d args s n late w =
     (case cli_bind (require_args args 1) (\<lambda>_.
           cli_bind (cli_parse (parse_pin_list (args ! 0))) (\<lambda>pins.
           cli_bind (device_op (now T)) (\<lambda>start.
           cli_bind (device_op (make_watcher T d (watch_config s pins))) (\<lambda>ew.
             cli_ret (pins, start, ew))))) w of
        (Inl e, w1) \<Rightarrow> Some (Inl e, w1)
      | (Inr (pins, start, ew), w1) \<Rightarrow>
          Option.bind (watch_rounds C T d start n ew w1) (\<lambda>(ew1, w2).
            case device_op (event_counts T d) w2 of (counted, w3) \<Rightarrow>
          Option.bind (watch_rounds C T d start late ew1 w3) (\<lambda>(ew2, w4).
            Some (cli_bind (cli_parse counted) (\<lambda>counts.
                  cli_bind (print_lines C Stdout (watch_summary pins counts (ew_stats ew1))) (\<lambda>_.
                    cli_ret ExitOk)) (snd (stop_watcher T d ew2 w4))))))"

section \<open>run and main\<close>

definition specs :: "(string \<times> nat) list" where
  "specs =
     [(''list'', 0), (''info'', 0), (''caps'', 0), (''mode'', 2), (''read'', 1), (''write'', 2),
      (''aread'', 1), (''readall'', 0), (''areadall'', 0), (''pwm'', 2), (''dac'', 2), (''status'', 0),
      (''sync'', 0), (''reset'', 0), (''time'', 0), (''monitor'', 0), (''stream'', 1), (''watch'', 1)]"

text \<open>The command and its arguments, checked before any USB traffic.\<close>

definition checked_command :: "Settings \<Rightarrow> string list \<Rightarrow> failure + string \<times> string list" where
  "checked_command s words =
     (if words = [] then Inl UsageError
      else let command = lower (hd words); args = tl words in
        case find (\<lambda>spec. fst spec = command) specs of
          None \<Rightarrow> Inl UsageError
        | Some spec \<Rightarrow>
            if length args < snd spec then Inl UsageError
            else if \<not> positive (s_hz s) then Inl UsageError
            else if uint (s_watch_debounce_ms s) > int USBIO_MAX_DEBOUNCE_MS then Inl UsageError
            else Inr (command, args))"

text \<open>What other threads do while \<open>stream\<close> and \<open>watch\<close> run.\<close>

record schedule =
  sch_chunks :: "round list list"
  sch_rounds :: nat
  sch_late :: nat

definition run_command ::
  "'t console \<Rightarrow> 't transport \<Rightarrow> device \<Rightarrow> schedule \<Rightarrow> Settings \<Rightarrow> string \<Rightarrow> string list \<Rightarrow> 't \<Rightarrow>
   ((failure + int) \<times> 't) option"
where
  "run_command C T d sch s command args =
     (if command = ''info'' then Some \<circ> cmd_info C d
      else if command = ''caps'' then Some \<circ> cmd_caps C d
      else if command = ''mode'' then Some \<circ> cmd_mode T d args
      else if command = ''read'' then Some \<circ> cmd_read C T d args
      else if command = ''write'' then Some \<circ> cmd_write T d args
      else if command = ''aread'' then Some \<circ> cmd_aread C T d args s
      else if command = ''readall'' then Some \<circ> cmd_readall C T d
      else if command = ''areadall'' then Some \<circ> cmd_areadall C T d s
      else if command = ''pwm'' then Some \<circ> cmd_pwm T d args
      else if command = ''dac'' then Some \<circ> cmd_dac T d args
      else if command = ''status'' then Some \<circ> cmd_status C T d
      else if command = ''sync'' then
        Some \<circ> cli_bind (device_op (sync T d)) (\<lambda>_. cli_ret ExitOk)
      else if command = ''reset'' then
        Some \<circ> cli_bind (device_op (HostDevice.reset T d)) (\<lambda>_. cli_ret ExitOk)
      else if command = ''time'' then Some \<circ> cmd_time C T d
      else if command = ''monitor'' then cmd_monitor C T d args s
      else if command = ''stream'' then Some \<circ> cmd_stream C T d args s (sch_chunks sch)
      else if command = ''watch'' then cmd_watch C T d args s (sch_rounds sch) (sch_late sch)
      else Some \<circ> cli_parse (Inl UsageError))"

definition open_and_run ::
  "'t console \<Rightarrow> schedule \<Rightarrow> Settings \<Rightarrow> string \<Rightarrow> string list \<Rightarrow> 't \<Rightarrow> ((failure + int) \<times> 't) option"
where
  "open_and_run C sch s command args w =
     (case cli_bind (device_op (make_context C)) (\<lambda>ctx.
           cli_bind (if s_verbose s then device_op (set_log_level C ctx 4) else cli_ret ()) (\<lambda>_.
             cli_ret ctx)) w of
        (Inl e, w1) \<Rightarrow> Some (Inl e, w1)
      | (Inr ctx, w1) \<Rightarrow>
          if command = ''list'' then Some (cmd_list C ctx s w1)
          else case device_op (open_selected ctx s) w1 of
            (Inl e, w2) \<Rightarrow> Some (Inl e, w2)
          | (Inr (d, T), w2) \<Rightarrow> run_command C T d sch s command args w2)"

text \<open>\<open>parsed\<close> is \<open>None\<close> when \<open>cxxopts\<close> rejects the command line.\<close>

definition run ::
  "'t console \<Rightarrow> schedule \<Rightarrow> parsed_options option \<Rightarrow> 't \<Rightarrow> ((failure + int) \<times> 't) option"
where
  "run C sch parsed w =
     (case parsed of
        None \<Rightarrow> Some (Inl UsageError, w)
      | Some po \<Rightarrow>
          if po_help po then
            Some (cli_bind (print C Stdout (''arduino-io {}'' @ [newline, newline] @ ''{}'' @ [newline] @ ''{}'')
              [VersionText, OptionsHelp, CommandsText]) (\<lambda>_. cli_ret ExitOk) w)
          else if po_version po then
            Some (cli_bind (print_line C Stdout ''arduino-io {}'' [VersionText]) (\<lambda>_. cli_ret ExitOk) w)
          else case bind_parse (settings_of po) (\<lambda>s.
                    bind_parse (checked_command s (default_to [] (po_args po))) (\<lambda>c. Inr (s, c))) of
            Inl e \<Rightarrow> Some (Inl e, w)
          | Inr (s, command, args) \<Rightarrow> open_and_run C sch s command args w)"

definition main_program ::
  "'t console \<Rightarrow> schedule \<Rightarrow> parsed_options option \<Rightarrow> 't \<Rightarrow> (int \<times> 't) option"
where
  "main_program C sch parsed w =
     map_option (\<lambda>(r, w1).
       case r of
         Inr code \<Rightarrow> (code, w1)
       | Inl e \<Rightarrow> (if e = UsageError then ExitUsage else ExitDevice,
                  print_to C Stderr (Format (''arduino-io: {}'' @ [newline]) [What e]) w1))
       (run C sch parsed w)"

end
