(* ===== verification/CliGuarantees.thy ===== *)
theory CliGuarantees
  imports HostCli HostSession HostDiscovery AnalogGuarantees
begin

text \<open>
  What the command line tool of \<open>HostCli\<close> does with its arguments and with a board: pin lists and
  numbers are read as they were written, \<open>monitor\<close> stays within the tables of the device, a percentage
  becomes the nearest code, and the exit code of a command tells what came of it.
\<close>

section \<open>Arguments\<close>

lemma after_spaces:
  "dropWhile isspace (replicate m (CHR '' '') @ ''-'' @ s) = ''-'' @ s"
  by (induction m) (simp_all add: isspace_def)

lemma c_str_spaces: "c_str (replicate m (CHR '' '') @ ''-'' @ decimal k) = replicate m (CHR '' '') @ ''-'' @ decimal k"
proof -
  have "CHR 0x00 \<notin> set (replicate m (CHR '' '') @ ''-'' @ decimal k)"
    using decimal_ascii [of "CHR 0x00" k] by auto
  then show ?thesis
    unfolding c_str_def by (auto simp: takeWhile_eq_all_conv simp del: set_replicate)
qed

lemma strtoul_minus:
  "strtoul (replicate m (CHR '' '') @ ''-'' @ decimal k) 10 =
     (if k < 2 ^ 64 then (- of_nat k, [], False) else (- 1, [], True))"
proof -
  have "word_of_int (int k) = (of_nat k :: u64)"
    by simp
  moreover have "2 ^ 64 \<le> int k \<longleftrightarrow> \<not> k < 2 ^ 64"
    by (simp add: not_less)
  ultimately show ?thesis
    unfolding strtoul_def after_spaces by (simp add: decimal_digits number_decimal)
qed

text \<open>A minus behind spaces passes the guard and is wrapped around by \<open>strtoul\<close>.\<close>

lemma negative_pin:
  "parse_pin (replicate m (CHR '' '') @ ''-'' @ decimal k) =
     (if 0 < m \<and> k < 2 ^ 64 \<and> (k = 0 \<or> 2 ^ 64 - k < 256) then Inr (- of_nat k) else Inl UsageError)"
proof -
  let ?s = "replicate m (CHR '' '') @ ''-'' @ decimal k"
  have unsigned: "parse_unsigned ?s 10 = (if 0 < m \<and> k < 2 ^ 64 then Some (- of_nat k) else None)"
    using strtoul_minus [of m k] unfolding parse_unsigned_def c_str_spaces by (cases m) simp_all
  show ?thesis
  proof (cases "0 < m \<and> k < 2 ^ 64")
    case True
    have "unat (of_nat k :: u64) = k"
      using True by (simp add: unsigned_of_nat take_bit_nat_eq_self)
    then have "unat (- of_nat k :: u64) = (if k = 0 then 0 else 2 ^ 64 - k)"
      using unat_sub_if' [of 0 "of_nat k :: u64"] by simp
    then have "255 < (- of_nat k :: u64) \<longleftrightarrow> \<not> (k = 0 \<or> 2 ^ 64 - k < 256)"
      by (auto simp: word_less_nat_alt)
    moreover have "(ucast (- of_nat k :: u64) :: u8) = - of_nat k"
    proof -
      have "(ucast (word_of_int x :: u64) :: u8) = word_of_int x" for x
        by (simp add: ucast_down_wi is_down)
      from this [of "- int k"] show ?thesis
        by simp
    qed
    ultimately show ?thesis
      using True unfolding parse_pin_def require_unsigned_def unsigned by simp
  next
    case False
    then show ?thesis
      unfolding parse_pin_def require_unsigned_def unsigned by auto
  qed
qed

text \<open>C22. A pin list is read back as it was written, in any mix of numbers and empty places between
  its commas; a list without a pin is a usage error, and so is a number over 255.  A number with a
  minus is a usage error too, unless spaces stand before the minus: then 0 and the last 255 numbers
  below 2^64 are taken for the pins they wrap around to, and all others are usage errors.\<close>

theorem pin_lists_read_as_written:
  "parse_pin_list (join_commas (map pin_token ps)) =
     (let pins = List.map_filter id ps in if pins = [] then Inl UsageError else Inr pins) \<and>
   parse_pin (decimal n) = (if n < 256 then Inr (of_nat n) else Inl UsageError) \<and>
   parse_pin (replicate m (CHR '' '') @ ''-'' @ decimal n) =
     (if 0 < m \<and> n < 2 ^ 64 \<and> (n = 0 \<or> 2 ^ 64 - n < 256) then Inr (- of_nat n) else Inl UsageError)"
proof (intro conjI)
  have "parse_pins (join_commas (map pin_token ps)) [] = Inr (List.map_filter id ps)"
    using parse_pins_joined [of ps "[]"]
    by (cases "ps = []") (simp_all add: parse_pins.simps [of "[]"] map_filter_simps)
  then show "parse_pin_list (join_commas (map pin_token ps)) =
     (let pins = List.map_filter id ps in if pins = [] then Inl UsageError else Inr pins)"
    by (simp add: parse_pin_list_def Let_def)
qed (rule parse_pin_decimal negative_pin)+

text \<open>A whole number below 2^53 is read as itself, with or without a suffix.\<close>

lemma strtod_decimal:
  assumes "n < 2 ^ 53"
  shows "strtod (decimal n) = (Finite (of_nat n), [], False)"
proof -
  obtain c s where cs: "decimal n = c # s"
    by (cases "decimal n") simp_all
  then have c: "48 \<le> ascii c" "ascii c \<le> 57"
    using decimal_ascii [of c n] by simp_all
  have low: "tolower c = c"
    using c by (simp add: tolower_def)
  have letters: "c \<noteq> CHR ''i''" "c \<noteq> CHR ''n''"
    using c by auto
  have "\<not> hex_prefix (decimal n)"
  proof (cases s)
    case (Cons x s1)
    then have "48 \<le> ascii x" "ascii x \<le> 57"
      using decimal_ascii [of x n] cs by simp_all
    then have "tolower x \<noteq> CHR ''x''"
      by (auto simp: tolower_def)
    then show ?thesis
      using cs Cons by simp
  qed (simp add: cs)
  moreover have "scan_decimal (decimal n) = Some (of_nat n, [])"
    by (simp add: scan_decimal_def mantissa_def decimal_digits number_decimal exponent_def)
  moreover have "\<not> out_of_range (of_nat n)"
    by (simp add: out_of_range_def round_double_whole [OF assms])
  ultimately show ?thesis
    using letters round_double_whole [OF assms]
    by (simp add: strtod_def decimal_digits lower_def) (simp add: cs low)
qed

lemma parse_double_decimal: "n < 2 ^ 53 \<Longrightarrow> parse_double (decimal n) = Some (Finite (of_nat n))"
  by (simp add: parse_double_def decimal_digits strtod_decimal)

lemma parse_with_suffix_decimal:
  assumes "n < 2 ^ 53"
  shows "parse_with_suffix (decimal n @ [c]) c = Inr (Finite (of_nat n), True)"
    and "ascii (tolower c) < 48 \<or> 57 < ascii (tolower c) \<Longrightarrow>
      parse_with_suffix (decimal n) c = Inr (Finite (of_nat n), False)"
proof -
  show "parse_with_suffix (decimal n @ [c]) c = Inr (Finite (of_nat n), True)"
    by (simp add: parse_with_suffix_def parse_double_decimal [OF assms])
  assume c: "ascii (tolower c) < 48 \<or> 57 < ascii (tolower c)"
  have "48 \<le> ascii (last (decimal n))" "ascii (last (decimal n)) \<le> 57"
    using decimal_ascii [of "last (decimal n)" n] by simp_all
  then have "tolower (last (decimal n)) \<noteq> tolower c"
    using c by (auto simp: tolower_def)
  then show "parse_with_suffix (decimal n) c = Inr (Finite (of_nat n), False)"
    by (simp add: parse_with_suffix_def parse_double_decimal [OF assms])
qed


section \<open>Duties\<close>

lemma bind_parsed [simp]:
  "cli_bind (cli_parse (Inr x)) f = f x" "cli_bind (cli_parse (Inl e)) f = cli_parse (Inl e)"
  by (simp_all add: fun_eq_iff cli_bind_def cli_parse_def)

lemma enough_args [simp]: "n \<le> length args \<Longrightarrow> cli_bind (require_args args n) f = f ()"
  by (simp add: require_args_def)

lemma hundredths:
  assumes "n < 2 ^ 53"
  shows "\<exists>f. d_div (Finite (of_nat n)) (Finite 100) = Finite f \<and> close 1 f (real n / 100) \<and> 0 \<le> f \<and>
    (f \<le> 1 \<longleftrightarrow> n \<le> 100)"
proof (cases "n \<le> 100")
  case True
  with ratio_double [of n 100] show ?thesis
    by (auto simp: double_of_def)
next
  case False
  have up: "real n \<le> 2 ^ 53"
    using of_nat_mono [OF less_imp_le [OF assms], where ?'a = real] by simp
  have low: "101 \<le> real n"
    using False by simp
  have "1 / 2 ^ 99 \<le> real n / 100" "real n / 100 \<le> 2 ^ 99"
    using low up by (simp_all add: divide_le_eq le_divide_eq)
  then obtain f where f: "round_double (real n / 100) = Finite f" "close 1 f (real n / 100)" "0 \<le> f"
    using close_round [OF close_refl [of "real n / 100" 0]] by auto
  have "\<bar>f - real n / 100\<bar> \<le> real n / 100 / 2 ^ 52"
    using f(2) by (simp add: close_def)
  moreover have "real n / 100 / 2 ^ 52 \<le> real n / 100 / 1000"
    by (intro divide_left_mono) simp_all
  ultimately have "1 < f"
    using low by linarith
  with f False show ?thesis
    by auto
qed

text \<open>A distance of almost one half between a code and a hundredth is at most one half.\<close>

lemma hundredth_gap:
  assumes "\<bar>real duty - real n / 100 * real full\<bar> \<le> 1 / 2 + 1 / 2 ^ 35"
  shows "\<bar>100 * int duty - int n * int full\<bar> \<le> 50"
proof -
  have "real n / 100 * real full = real n * real full / 100"
    by simp
  moreover have "(1 :: real) / 2 ^ 35 \<le> 1 / 1000"
    by simp
  ultimately have "real duty - real n * real full / 100 \<le> 501 / 1000"
    "real n * real full / 100 - real duty \<le> 501 / 1000"
    using assms by (simp_all only: abs_le_iff) linarith+
  then have "\<bar>100 * real duty - real n * real full\<bar> < 51"
    by (simp only: abs_less_iff) linarith
  then have "real_of_int \<bar>100 * int duty - int n * int full\<bar> < real_of_int 51"
    by simp
  then show ?thesis
    by (simp only: of_int_less_iff)
qed

lemma percent_duty:
  assumes "close 1 f (real n / 100)" and "0 \<le> f" and "f \<le> 1" and "n \<le> 100"
  shows "\<bar>100 * uint (scale_to_code (Finite f) full) - int n * uint full\<bar> \<le> 50"
proof -
  let ?duty = "real (unat (scale_to_code (Finite f) full))" and ?full = "real (unat full)"
  have "\<bar>f - real n / 100\<bar> \<le> real n / 100 / 2 ^ 52"
    using assms(1) by (simp add: close_def)
  also have "\<dots> \<le> 1 / 2 ^ 52"
    using assms(4) by (intro divide_right_mono) simp_all
  finally have "\<bar>f - real n / 100\<bar> * ?full \<le> 1 / 2 ^ 52 * 2 ^ 16"
    by (intro mult_mono unat_full of_nat_0_le_iff) simp_all
  moreover have "\<bar>f - real n / 100\<bar> * ?full = \<bar>f * ?full - real n / 100 * ?full\<bar>"
    by (simp only: left_diff_distrib [symmetric] abs_mult abs_of_nat)
  moreover have "(1 :: real) / 2 ^ 52 * 2 ^ 16 = 1 / 2 ^ 36" "(1 :: real) / 2 ^ 37 + 1 / 2 ^ 36 \<le> 1 / 2 ^ 35"
    by simp_all
  ultimately have "\<bar>?duty - real n / 100 * ?full\<bar> \<le> 1 / 2 + 1 / 2 ^ 35"
    using scale_to_code_near(2) [OF assms(2,3), of full] by linarith
  from hundredth_gap [OF this] show ?thesis
    by simp
qed

lemma pwm_of_a_number:
  assumes "n < 65536"
  shows "cmd_pwm T d [text, decimal n] =
    cli_bind (cli_parse (parse_pin text)) (\<lambda>pin.
      cli_bind (device_op (pwm_write T d pin (of_nat n))) (\<lambda>_. cli_ret ExitOk))"
proof -
  have "n < 2 ^ 53"
    using assms by simp
  then have "parse_with_suffix (decimal n) (CHR ''%'') = Inr (Finite (real n), False)"
    by (rule parse_with_suffix_decimal(2)) (simp add: tolower_def)
  moreover have "require_unsigned (decimal n) 0xFFFF 10 = Inr (of_nat n)"
    using require_unsigned_decimal [of 65535 n] assms by simp
  ultimately show ?thesis
    using assms by (simp add: cmd_pwm_def unsigned_of_nat take_bit_nat_eq_self)
qed

text \<open>C26. \<open>arduino-io pwm <pin> <n>%\<close> writes the code nearest to \<open>n\<close> hundredths of the full scale of the
  channel, and \<open>pwm <pin> <n>\<close> the code \<open>n\<close>; a percentage over 100 and a number that is no 16-bit code
  fail before any transfer.\<close>

theorem percentages_become_the_nearest_code:
  assumes "require_caps d pin USBIO_CAP_PWM = Inr caps" and "n < 2 ^ 53"
  defines "most \<equiv> max_value (unat (info_pwm_bits (dev_info d)))"
  shows "(if n \<le> 100
      then \<exists>duty \<le> most. \<bar>100 * uint duty - int n * uint most\<bar> \<le> 50 \<and>
        cmd_pwm T d [decimal (unat pin), decimal n @ ''%''] =
          cli_bind (device_op (pwm_write T d pin duty)) (\<lambda>_. cli_ret ExitOk)
      else cmd_pwm T d [decimal (unat pin), decimal n @ ''%''] w = (Inl (DeviceFailure InvalidValue), w)) \<and>
    (if n < 65536
     then cmd_pwm T d [decimal (unat pin), decimal n] =
       cli_bind (device_op (pwm_write T d pin (of_nat n))) (\<lambda>_. cli_ret ExitOk)
     else cmd_pwm T d [decimal (unat pin), decimal n] w = (Inl UsageError, w))"
proof
  have pin: "parse_pin (decimal (unat pin)) = Inr pin"
    by (simp add: parse_pin_decimal)
  obtain f where f: "d_div (Finite (real n)) (Finite 100) = Finite f" "close 1 f (real n / 100)" "0 \<le> f"
    "f \<le> 1 \<longleftrightarrow> n \<le> 100"
    using hundredths [OF assms(2)] by blast
  have percent: "cmd_pwm T d [decimal (unat pin), decimal n @ ''%''] =
      cli_bind (device_op (pwm_write_fraction T d pin (Finite f))) (\<lambda>_. cli_ret ExitOk)"
    using f(1) by (simp add: cmd_pwm_def pin parse_with_suffix_decimal(1) [OF assms(2)])
  show "if n \<le> 100
      then \<exists>duty \<le> most. \<bar>100 * uint duty - int n * uint most\<bar> \<le> 50 \<and>
        cmd_pwm T d [decimal (unat pin), decimal n @ ''%''] =
          cli_bind (device_op (pwm_write T d pin duty)) (\<lambda>_. cli_ret ExitOk)
      else cmd_pwm T d [decimal (unat pin), decimal n @ ''%''] w = (Inl (DeviceFailure InvalidValue), w)"
  proof (cases "n \<le> 100")
    case True
    let ?duty = "scale_to_code (Finite f) most"
    have "pwm_write_fraction T d pin (Finite f) = pwm_write T d pin ?duty"
      using assms(1) f(3,4) True by (simp add: pwm_write_fraction_def most_def)
    moreover have "\<bar>100 * uint ?duty - int n * uint most\<bar> \<le> 50"
      using percent_duty [OF f(2,3)] f(4) True by simp
    ultimately show ?thesis
      using True f(3,4) scale_to_code_near(1) [of f most] by (auto simp: percent)
  next
    case False
    then show ?thesis
      using assms(1) f(3,4)
      by (simp add: percent pwm_write_fraction_def throw_def cli_bind_def device_op_def)
  qed
  show "if n < 65536
     then cmd_pwm T d [decimal (unat pin), decimal n] =
       cli_bind (device_op (pwm_write T d pin (of_nat n))) (\<lambda>_. cli_ret ExitOk)
     else cmd_pwm T d [decimal (unat pin), decimal n] w = (Inl UsageError, w)"
  proof (cases "n < 65536")
    case False
    then have "require_unsigned (decimal n) 0xFFFF 10 = Inl UsageError"
      using require_unsigned_decimal [of 65535 n] by simp
    moreover have "parse_with_suffix (decimal n) (CHR ''%'') = Inr (Finite (real n), False)"
      by (rule parse_with_suffix_decimal(2) [OF assms(2)]) (simp add: tolower_def)
    ultimately show ?thesis
      using False by (simp add: cmd_pwm_def pin cli_bind_def cli_parse_def)
  qed (simp add: pwm_of_a_number pin)
qed

theorem percentages_witness:
  "\<exists>duty \<le> 255. \<bar>100 * uint duty - 50 * 255\<bar> \<le> 50 \<and>
     cmd_pwm bench_transport volts_driver [''0'', ''50%''] =
       cli_bind (device_op (pwm_write bench_transport volts_driver 0 duty)) (\<lambda>_. cli_ret ExitOk)"
proof -
  have "decimal 0 = ''0''" "decimal 50 = ''50''"
    by code_simp+
  then show ?thesis
    using percentages_become_the_nearest_code [OF volts_driver_facts(1), where n = 50 and T = bench_transport]
    by (simp add: volts_driver_facts(5) volts_driver_scales)
qed

section \<open>Exit codes\<close>

text \<open>The exit code \<open>main\<close> makes of what \<open>run\<close> returns or throws.\<close>

definition exit_code :: "failure + int \<Rightarrow> int" where
  "exit_code r = (case r of Inr n \<Rightarrow> n | Inl e \<Rightarrow> if e = UsageError then ExitUsage else ExitDevice)"

lemma main_exit: "map_option fst (main_program C sch parsed w) = map_option (exit_code \<circ> fst) (run C sch parsed w)"
  by (cases "run C sch parsed w")
    (auto simp: main_program_def exit_code_def split: sum.split)

text \<open>What the turns of the device's loop between transfers leave alone.\<close>

lemma advances_keep:
  assumes "link_ok b lt l"
  shows "link_ok b lt ((advance b A ^^ n) l)" "fw_mode (link_fw ((advance b A ^^ n) l)) = fw_mode (link_fw l)"
proof -
  have "link_ok b lt ((advance b A ^^ n) l) \<and> fw_mode (link_fw ((advance b A ^^ n) l)) = fw_mode (link_fw l)"
  proof (induction n)
    case (Suc n)
    then show ?case
      using advance_ok [of b lt "(advance b A ^^ n) l" A] by (simp add: loop_keeps_def)
  qed (simp add: assms)
  then show "link_ok b lt ((advance b A ^^ n) l)" "fw_mode (link_fw ((advance b A ^^ n) l)) = fw_mode (link_fw l)"
    by blast+
qed

text \<open>The transfers before the command's own: a probe, if the options ask for one, GET_INFO and
  GET_PIN_CAPS.\<close>

definition transfers_to_open :: "Settings \<Rightarrow> nat" where
  "transfers_to_open s = (if en_probe (s_enumerate s) then 3 else 2)"

text \<open>A board alone on the bus is opened; what the link has then become is \<open>l2\<close>.\<close>

lemma selected_board:
  assumes "link_ok b (opened_as dev (s_transport s)) l" and "board_on_bus b A strings dev"
    and "get_device_list ctx l = (Inr devs, l)" and "filter (passes (s_enumerate s)) devs = [dev]"
    and "carries_interface dev \<or> candidate (s_enumerate s) dev" and "s_serial s = None"
  obtains l2 d where "link_ok b (opened_as dev (s_transport s)) l2" and "same_board (link_fw l) (link_fw l2)"
    and "mirrors b (link_fw l2) d"
    and "open_selected ctx s l =
      (if fw_n_pins (link_fw l) = 0 then Inl NotReady
       else Inr (d, link_transport b A (opened_as dev (s_transport s))), l2)"
    and "fw_n_pins (link_fw l) \<noteq> 0 \<longrightarrow> l2 = (advance b A ^^ transfers_to_open s) l"
proof -
  let ?lt = "opened_as dev (s_transport s)"
  have usb: "open_device_usb dev = link_usb b A"
    using assms(2) by (simp add: board_on_bus_def)
  have "passes (s_enumerate s) dev"
    using assms(4) by (metis filter_eq_ConsD)
  from list_board [OF assms(1,2) this assms(5), of ctx]
  obtain info l1 where info: "list_device ctx (s_enumerate s) dev l = (Inr (Some info), l1)"
    "link_ok b ?lt l1" "same_board (link_fw l) (link_fw l1)"
    "di_identified info" "di_device info = Some dev" "di_context info = Some ctx"
    "l1 = (if en_probe (s_enumerate s) then advance b A l else l)" by blast
  have listed: "list_devices (Some ctx) (s_enumerate s) l = (Inr [info], l1)"
    using assms(3,4) info(1) list_loop_filter [of ctx "s_enumerate s" devs]
    by (simp add: list_devices_def device_list_def io_bind_def ret_def)
  obtain r l2 where make: "make_device (link_transport b A ?lt) (s_device s) l1 = (r, l2)"
    by (metis prod.exhaust)
  have "io_keeps (\<lambda>l'. link_ok b ?lt l' \<and> same_board (link_fw l) (link_fw l'))
      (make_device (link_transport b A ?lt) (s_device s))"
    by (rule linked.make_device_keeps)
  from io_keepsD [OF this, of l1]
  have l2: "link_ok b ?lt l2" "same_board (link_fw l) (link_fw l2)"
    using info(2,3) make by simp_all
  have n: "fw_n_pins (link_fw l1) = fw_n_pins (link_fw l)"
    using info(3) by (simp add: same_board_def)
  define d where "d = \<lparr>dev_options = s_device s, dev_info = device_info b (link_fw l1),
     dev_caps = map (fw_caps (link_fw l1)) (pins_below (fw_n_pins (link_fw l1))),
     dev_analog_pins = ain_pins (link_fw l1), dev_streaming = False, dev_selected = []\<rparr>"
  have made: "r = (if fw_n_pins (link_fw l) = 0 then Inl NotReady else Inr d)"
    using connected_device [OF info(2), of A "s_device s"] make n by (simp add: d_def)
  have "lto_recipient (s_transport s) = RecipientInterface \<longrightarrow> carries_interface dev"
    using assms(1) by (auto simp: link_ok_def opened_as_def Let_def carries_interface_def)
  from open_over_link [OF usb this]
  have "open_transport (di_context info) info (s_transport s) l1 = (Inr (dev, ?lt), l1)"
    using info(5,6) by (simp add: open_transport_def io_bind_def ret_def)
  moreover have "give_back (link_usb b A) ?lt l' = l'" for l'
    by (simp add: give_back_def link_usb_def)
  ultimately have "open_device info (s_device s) (s_transport s) l1 =
      (if fw_n_pins (link_fw l) = 0 then Inl NotReady else Inr (d, link_transport b A ?lt), l2)"
    using make made info(6) usb by (simp add: open_device_def io_bind_def Let_def link_transport_def)
  then have opened: "open_selected ctx s l =
      (if fw_n_pins (link_fw l) = 0 then Inl NotReady else Inr (d, link_transport b A ?lt), l2)"
    using assms(6) info(4) by (simp add: open_selected_def open_first_def io_bind_def listed)
  have turns: "l2 = (advance b A ^^ transfers_to_open s) l" if "fw_n_pins (link_fw l) \<noteq> 0"
    using connected_begun [OF info(2), of A "s_device s"] that make n info(7)
    by (simp add: transfers_to_open_def numeral_eq_Suc)
  have "mirrors b (link_fw l1) d"
    by (simp add: mirrors_def d_def)
  moreover have "same_board (link_fw l1) (link_fw l2)"
    using info(3) l2(2) by (simp add: same_board_def)
  ultimately show ?thesis
    using that [OF l2 _ opened] turns mirrors_board by blast
qed


lemma main_opens:
  assumes "settings_of po = Inr s" and "\<not> po_help po" and "\<not> po_version po"
    and "checked_command s (default_to [] (po_args po)) = Inr (command, args)" and "command \<noteq> ''list''"
    and "libusb_init C l = (Inr ctx, l)" and "\<not> s_verbose s" and "open_selected ctx s l = (r, l2)"
  shows "map_option fst (main_program C sch (Some po) l) =
    (case r of
       Inl e \<Rightarrow> Some ExitDevice
     | Inr (d, T) \<Rightarrow> map_option (exit_code \<circ> fst) (run_command C T d sch s command args l2))"
  using assms
  by (auto simp: main_exit run_def open_and_run_def cli_bind_def device_op_def make_context_def cli_ret_def
      exit_code_def split: sum.split)

lemma parsed_mode_known: "parse_mode text = Inr mode \<Longrightarrow> mode_of mode \<noteq> None"
  by (auto simp: parse_mode_def Let_def mode_of_values split: if_splits)

lemma exit_of_bind:
  "exit_code (fst (cli_bind (cli_parse r) f w)) = (case r of Inl e \<Rightarrow> exit_code (Inl e) | Inr x \<Rightarrow> exit_code (fst (f x w)))"
  "exit_code (fst (cli_bind (device_op m) (\<lambda>_. cli_ret ExitOk) w)) =
     (case fst (m w) of Inl e \<Rightarrow> ExitDevice | Inr _ \<Rightarrow> ExitOk)"
proof -
  show "exit_code (fst (cli_bind (cli_parse r) f w)) =
      (case r of Inl e \<Rightarrow> exit_code (Inl e) | Inr x \<Rightarrow> exit_code (fst (f x w)))"
    by (cases r) (simp_all add: cli_bind_def cli_parse_def)
  obtain q w1 where "m w = (q, w1)"
    by (metis prod.exhaust)
  then show "exit_code (fst (cli_bind (device_op m) (\<lambda>_. cli_ret ExitOk) w)) =
      (case fst (m w) of Inl e \<Rightarrow> ExitDevice | Inr _ \<Rightarrow> ExitOk)"
    by (cases q) (simp_all add: cli_bind_def device_op_def cli_ret_def exit_code_def)
qed

lemma parse_throws_usage:
  "parse_pin text = Inl e \<Longrightarrow> e = UsageError" "parse_mode text = Inl e \<Longrightarrow> e = UsageError"
  "parse_level text = Inl e \<Longrightarrow> e = UsageError"
  by (auto simp: parse_pin_def bind_parse_def require_unsigned_def parse_mode_def parse_level_def Let_def
      split: if_splits option.splits sum.splits)

lemma usage_exit [simp]:
  "exit_code (Inl UsageError) = ExitUsage" "exit_code (fst (cli_parse (Inl e) w)) = exit_code (Inl e)"
  by (simp_all add: exit_code_def cli_parse_def)


lemmas parse_failures = parse_throws_usage [THEN arg_cong [where f = "\<lambda>e. exit_code (Inl e)"], unfolded usage_exit]

lemma commands_checked:
  assumes "positive (s_hz s)" and "uint (s_watch_debounce_ms s) \<le> int USBIO_MAX_DEBOUNCE_MS"
  shows "checked_command s [''mode'', x, y] = Inr (''mode'', [x, y])"
    and "checked_command s [''write'', x, y] = Inr (''write'', [x, y])"
    and "checked_command s [''pwm'', x, y] = Inr (''pwm'', [x, y])"
proof -
  have "lower ''mode'' = ''mode''" "lower ''write'' = ''write''" "lower ''pwm'' = ''pwm''"
    by code_simp+
  with assms show "checked_command s [''mode'', x, y] = Inr (''mode'', [x, y])"
    "checked_command s [''write'', x, y] = Inr (''write'', [x, y])"
    "checked_command s [''pwm'', x, y] = Inr (''pwm'', [x, y])"
    by (simp_all add: checked_command_def specs_def)
qed

text \<open>C28. The exit code of \<open>mode\<close>, \<open>write\<close> and \<open>pwm\<close> on a board alone on the bus, from the command
  line to the firmware and back: 2 for an argument that cannot be read, 1 before \<open>begin()\<close>, for a pin
  or value the board does not have, for a pin whose mode when the tool starts is another and for a queue
  that is still full when the command's own transfer arrives, and 0 otherwise.\<close>

theorem exit_codes_tell_the_verdict:
  assumes "link_ok b (opened_as dev (s_transport s)) l" and "board_on_bus b A strings dev"
    and "get_device_list ctx l = (Inr devs, l)" and "filter (passes (s_enumerate s)) devs = [dev]"
    and "carries_interface dev \<or> candidate (s_enumerate s) dev" and "s_serial s = None"
    and "pulldown_reported b (link_fw l)"
    and "settings_of po = Inr s" and "\<not> po_help po" and "\<not> po_version po" and "\<not> s_verbose s"
    and "positive (s_hz s)" and "uint (s_watch_debounce_ms s) \<le> int USBIO_MAX_DEBOUNCE_MS"
    and "libusb_init C l = (Inr ctx, l)" and "n < 65536"
  shows "let begun = (fw_n_pins (link_fw l) \<noteq> 0); caps = fw_caps (link_fw l);
        exists = (\<lambda>pin. pin < fw_n_pins (link_fw l)); mode_is = (\<lambda>pin m. fw_mode (link_fw l) pin = Some m);
        room = (length (commands (link_fw ((advance b A ^^ Suc (transfers_to_open s)) l))) < 32);
        code = map_option fst (main_program C sch (Some po) l)
    in (po_args po = Some [''mode'', pin_text, mode_text] \<longrightarrow> code = Some (
           if \<not> begun then ExitDevice
           else case (parse_pin pin_text, parse_mode mode_text) of
               (Inr pin, Inr mode) \<Rightarrow>
                 if exists pin \<and> mode_allowed b (caps pin) (the (mode_of mode)) \<and> room then ExitOk else ExitDevice
             | _ \<Rightarrow> ExitUsage)) \<and>
        (po_args po = Some [''write'', pin_text, level_text] \<longrightarrow> code = Some (
           if \<not> begun then ExitDevice
           else case (parse_pin pin_text, parse_level level_text) of
               (Inr pin, Inr high) \<Rightarrow>
                 if exists pin \<and> caps pin AND USBIO_CAP_DIO \<noteq> 0 \<and> mode_is pin USBIO_MODE_OUTPUT \<and> room
                 then ExitOk else ExitDevice
             | _ \<Rightarrow> ExitUsage)) \<and>
        (po_args po = Some [''pwm'', pin_text, decimal n] \<longrightarrow> code = Some (
           if \<not> begun then ExitDevice
           else case parse_pin pin_text of
               Inr pin \<Rightarrow>
                 if exists pin \<and> caps pin AND USBIO_CAP_PWM \<noteq> 0 \<and> of_nat n \<le> full_scale (PwmBits b) \<and>
                    mode_is pin USBIO_MODE_PWM \<and> room
                 then ExitOk else ExitDevice
             | _ \<Rightarrow> ExitUsage))"
proof -
  let ?lt = "opened_as dev (s_transport s)"
  let ?T = "link_transport b A ?lt"
  obtain l2 d where l2: "link_ok b ?lt l2" "same_board (link_fw l) (link_fw l2)" "mirrors b (link_fw l2) d"
    and opened: "open_selected ctx s l =
      (if fw_n_pins (link_fw l) = 0 then Inl NotReady else Inr (d, ?T), l2)"
    and turns: "fw_n_pins (link_fw l) \<noteq> 0 \<longrightarrow> l2 = (advance b A ^^ transfers_to_open s) l"
    by (rule selected_board [OF assms(1-6)])
  have modes: "fw_mode (link_fw l2) = fw_mode (link_fw l)"
    and later: "advance b A l2 = (advance b A ^^ Suc (transfers_to_open s)) l" if "fw_n_pins (link_fw l) \<noteq> 0"
    using advances_keep(2) [OF assms(1), of "transfers_to_open s" A] turns that by simp_all
  have board: "fw_n_pins (link_fw l2) = fw_n_pins (link_fw l)" "fw_caps (link_fw l2) = fw_caps (link_fw l)"
    "pulldown_reported b (link_fw l2)"
    using l2(2) assms(7) by (simp_all add: same_board_def pulldown_reported_def)
  note verdicts = driven_pin_verdicts [OF l2(1,3) board(3), of A, unfolded board(1,2)]
  note exits = main_opens [OF assms(8-10) _ _ assms(14,11) opened, of _ _ sch]
    commands_checked [OF assms(12,13)]
  let ?code = "map_option fst (main_program C sch (Some po) l)" and ?s = "link_fw l"
  let ?room = "length (commands (link_fw ((advance b A ^^ Suc (transfers_to_open s)) l))) < 32"
  have mode: "?code = Some (
      if fw_n_pins ?s = 0 then ExitDevice
      else case (parse_pin pin_text, parse_mode mode_text) of
          (Inr pin, Inr mode) \<Rightarrow>
            if pin < fw_n_pins ?s \<and> mode_allowed b (fw_caps ?s pin) (the (mode_of mode)) \<and> ?room
            then ExitOk else ExitDevice
        | _ \<Rightarrow> ExitUsage)" if "po_args po = Some [''mode'', pin_text, mode_text]"
  proof (cases "fw_n_pins ?s = 0")
    case True
    with that exits show ?thesis
      by (simp add: default_to_def)
  next
    case False
    with that exits verdicts [unfolded modes [OF False] later [OF False]] show ?thesis
      by (cases "parse_pin pin_text"; cases "parse_mode mode_text")
        (auto simp: default_to_def run_command_def cmd_mode_def exit_of_bind parse_failures
          dest: parsed_mode_known)
  qed
  have written: "?code = Some (
      if fw_n_pins ?s = 0 then ExitDevice
      else case (parse_pin pin_text, parse_level level_text) of
          (Inr pin, Inr high) \<Rightarrow>
            if pin < fw_n_pins ?s \<and> fw_caps ?s pin AND USBIO_CAP_DIO \<noteq> 0 \<and>
               fw_mode ?s pin = Some USBIO_MODE_OUTPUT \<and> ?room
            then ExitOk else ExitDevice
        | _ \<Rightarrow> ExitUsage)" if "po_args po = Some [''write'', pin_text, level_text]"
  proof (cases "fw_n_pins ?s = 0")
    case True
    with that exits show ?thesis
      by (simp add: default_to_def)
  next
    case False
    with that exits verdicts [unfolded modes [OF False] later [OF False]] show ?thesis
      by (cases "parse_pin pin_text"; cases "parse_level level_text")
        (auto simp: default_to_def run_command_def cmd_write_def exit_of_bind parse_failures)
  qed
  have pwm: "?code = Some (
      if fw_n_pins ?s = 0 then ExitDevice
      else case parse_pin pin_text of
          Inr pin \<Rightarrow>
            if pin < fw_n_pins ?s \<and> fw_caps ?s pin AND USBIO_CAP_PWM \<noteq> 0 \<and>
               of_nat n \<le> full_scale (PwmBits b) \<and>
               fw_mode ?s pin = Some USBIO_MODE_PWM \<and> ?room
            then ExitOk else ExitDevice
        | _ \<Rightarrow> ExitUsage)" if "po_args po = Some [''pwm'', pin_text, decimal n]"
  proof (cases "fw_n_pins ?s = 0")
    case True
    with that exits show ?thesis
      by (simp add: default_to_def)
  next
    case False
    with that exits verdicts [unfolded modes [OF False] later [OF False]] show ?thesis
      by (cases "parse_pin pin_text")
        (auto simp: default_to_def run_command_def pwm_of_a_number [OF assms(15)] exit_of_bind parse_failures)
  qed
  show ?thesis
    unfolding Let_def using mode written pwm by (intro conjI impI) simp_all
qed


text \<open>The board of the bench as the tool finds it: \<open>arduino-io --vid 2341 write 3 high\<close>.\<close>

definition bench_console :: "bench link console" where
  "bench_console = \<lparr>print_to = (\<lambda>_ _ l. l), stop_flag = Pair True, fopen_write = (\<lambda>_. Pair True),
     libusb_init = Pair (Inr bench_context), libusb_set_log_level = (\<lambda>_ _. Pair 0)\<rparr>"

definition bench_options :: "string list \<Rightarrow> parsed_options" where
  "bench_options words = \<lparr>po_help = False, po_version = False, po_serial = None, po_vid = Some ''2341'',
     po_pid = None, po_timeout = None, po_interface_recipient = False, po_no_claim = False,
     po_volts = False, po_hz = None, po_period_us = None, po_seconds = None, po_csv = None,
     po_edge = None, po_debounce = None, po_verbose = False, po_args = Some words\<rparr>"

definition bench_settings :: Settings where
  "bench_settings = \<lparr>s_serial = None, s_enumerate = only_arduino, s_device = default_options,
     s_transport = default_transport_options, s_volts = False, s_hz = Finite 10, s_verbose = False,
     s_hz_given = False, s_period_us = None, s_csv_path = None, s_run_seconds = Finite 0,
     s_watch_edge = 3, s_watch_debounce_ms = 0\<rparr>"

lemma bench_settings_of: "settings_of (bench_options words) = Inr bench_settings"
proof -
  have "parse_id ''2341'' = Inr 0x2341" "parse_edge_mode ''change'' = Inr 3"
    by code_simp+
  then show ?thesis
    by (simp add: settings_of_def bench_options_def bench_settings_def parse_option_def default_to_def
        only_arduino_def default_enumerate_def default_options_def default_transport_options_def)
qed

theorem exit_codes_witness:
  "map_option fst (main_program bench_console \<lparr>sch_chunks = [], sch_rounds = 0, sch_late = 0\<rparr>
     (Some (bench_options [''write'', ''3'', ''high''])) (bench_link output_run [0, 1, 0, 2])) = Some ExitOk"
proof -
  have pin: "parse_pin ''3'' = Inr 3" and level: "parse_level ''high'' = Inr True"
    and pins: "fw_n_pins (fst output_run) = 8" "fw_caps (fst output_run) 3 AND USBIO_CAP_DIO \<noteq> 0"
      "fw_mode (fst output_run) 3 = Some USBIO_MODE_OUTPUT"
    and b: "pulldown_reported bench_board (fst output_run)"
    and room: "length (commands (link_fw ((advance bench_board bench_arduino ^^ 4) (bench_link output_run [0, 1, 0, 2])))) < 32"
    unfolding pulldown_reported_def by code_simp+
  have bus: "get_device_list bench_context (bench_link output_run [0, 1, 0, 2]) =
      (Inr [bench_keyboard, bench_device], bench_link output_run [0, 1, 0, 2])"
    by (simp add: bench_context_def)
  have fw: "link_fw (bench_link output_run [0, 1, 0, 2]) = fst output_run"
    by (simp add: bench_link_def)
  have s: "s_transport bench_settings = default_transport_options" "s_enumerate bench_settings = only_arduino"
    "s_serial bench_settings = None" "\<not> s_verbose bench_settings" "positive (s_hz bench_settings)"
    "uint (s_watch_debounce_ms bench_settings) \<le> int USBIO_MAX_DEBOUNCE_MS"
    by (simp_all add: bench_settings_def positive_def)
  let ?po = "bench_options [''write'', ''3'', ''high'']"
  have facts: "filter (passes (s_enumerate bench_settings)) [bench_keyboard, bench_device] = [bench_device]"
    "link_ok bench_board (opened_as bench_device (s_transport bench_settings)) (bench_link output_run [0, 1, 0, 2])"
    "pulldown_reported bench_board (link_fw (bench_link output_run [0, 1, 0, 2]))"
    "\<not> po_help ?po" "\<not> po_version ?po"
    "libusb_init bench_console (bench_link output_run [0, 1, 0, 2]) = (Inr bench_context, bench_link output_run [0, 1, 0, 2])"
    using bench_device_facts(5,6) output_link [of "[0, 1, 0, 2]"] output_facts(1) b
    by (simp_all add: s fw bench_options_def bench_console_def link_ok_def)
  from exit_codes_tell_the_verdict [OF facts(2) bench_device_facts(3) bus facts(1)
      disjI1 [OF bench_device_facts(2)] s(3) facts(3) bench_settings_of facts(4,5) s(4-6) facts(6),
      where n = 0 and pin_text = "''3''" and level_text = "''high''"]
  moreover have "Suc (transfers_to_open bench_settings) = 4"
    by (simp add: transfers_to_open_def s only_arduino_def default_enumerate_def)
  ultimately show ?thesis
    using room by (simp add: bench_options_def pin level pins fw Let_def)
qed


section \<open>monitor and areadall stay within the tables\<close>

lemma index_of_member:
  "x \<in> set xs \<Longrightarrow> index_of x xs < length xs \<and> xs ! index_of x xs = x"
proof (induction xs)
  case (Cons y ys)
  then show ?case
    by (cases "y = x") (auto simp: index_of_def)
qed simp

lemma checked_caps: "check_caps d pins = Inr u \<Longrightarrow> pin \<in> set pins \<Longrightarrow> unat pin < length (dev_caps d)"
  by (induction pins) (auto simp: pin_caps_def split: if_splits)

lemma monitor_pins_checked:
  "monitor_pins d args = Inr pins \<Longrightarrow> pin \<in> set pins \<Longrightarrow> unat pin < length (dev_caps d)"
proof (induction args arbitrary: pins)
  case (Cons arg args)
  then show ?case
    by (auto simp: bind_parse_def dest: checked_caps split: sum.splits)
qed simp

lemma all_pins_within:
  "device_ok d \<Longrightarrow> pin \<in> set (all_pins d) \<Longrightarrow> unat pin < length (dev_caps d)"
  by (auto simp: all_pins_def device_ok_def)

lemma read_all_lengths:
  "read_all_digital T d w = (Inr lv, w1) \<Longrightarrow> length lv = unat (info_n_pins (dev_info d))"
  "read_all_analog T d w = (Inr samples, w1) \<Longrightarrow> length samples = unat (info_n_ain (dev_info d))"
  by (auto simp: read_all_digital_def read_all_analog_def Let_def ret_def elim!: io_bind_InrE split: prod.splits)

text \<open>Every index \<open>monitor\<close> and \<open>areadall\<close> take into the levels, the samples and the list of analog
  pins is within them, and the sample shown for a pin is the pin's own.\<close>

theorem monitor_stays_within_the_tables:
  assumes "device_ok d" and "monitor_pins d args = Inr named"
    and "pin \<in> set (if named = [] then all_pins d else named)"
    and "read_all_digital T d w = (Inr lv, w1)" and "read_all_analog T d w2 = (Inr samples, w3)"
  shows "unat pin < length (dev_caps d) \<and> unat pin < length lv \<and>
    length samples = length (dev_analog_pins d) \<and>
    (has (caps_of d pin) USBIO_CAP_AIN \<longrightarrow>
      index_of pin (dev_analog_pins d) < length samples \<and>
      dev_analog_pins d ! index_of pin (dev_analog_pins d) = pin)"
proof -
  have pin: "unat pin < length (dev_caps d)"
    using assms(1-3) by (auto intro: all_pins_within monitor_pins_checked split: if_splits)
  have analog: "pin \<in> set (dev_analog_pins d)" if "has (caps_of d pin) USBIO_CAP_AIN"
  proof -
    have "unat pin \<in> set (filter (\<lambda>p. has (dev_caps d ! p) USBIO_CAP_AIN) [0..<length (dev_caps d)])"
      using that pin by (simp add: caps_of_def)
    then have "of_nat (unat pin) \<in> set (map of_nat
        (filter (\<lambda>p. has (dev_caps d ! p) USBIO_CAP_AIN) [0..<length (dev_caps d)]) :: u8 list)"
      unfolding list.set_map by (rule imageI)
    then show ?thesis
      using assms(1) by (simp only: device_ok_def of_nat_unat ucast_id)
  qed
  show ?thesis
    using pin assms(1) read_all_lengths(1) [OF assms(4)] read_all_lengths(2) [OF assms(5)]
      index_of_member [OF analog] by (auto simp: device_ok_def)
qed

section \<open>The period of a stream\<close>

text \<open>\<open>--hz\<close> becomes the nearest whole number of microseconds, and is refused when that is none.\<close>

theorem stream_period_is_the_nearest:
  assumes "s_hz_given s" and "s_period_us s = None" and "s_hz s = Finite h" and "0 < h"
    and "1000000 / h \<le> 65535"
  shows "case resolve_stream_period s of
      Inr p \<Rightarrow> 0 < p \<and> \<bar>of_int p - 1000000 / h\<bar> \<le> 1 / 2 + 1 / 2 ^ 36
    | Inl e \<Rightarrow> e = UsageError \<and> 1000000 / h \<le> 1 / 2 + 1 / 2 ^ 36"
proof -
  let ?x = "1000000 / h"
  have x: "0 \<le> ?x" "?x \<le> 2 ^ 16"
    using assms(4,5) by simp_all
  from round_double_near [OF this] obtain r where
    r: "round_double ?x = Finite r" "\<bar>r - ?x\<bar> \<le> 1 / 2 ^ 37" "0 \<le> r"
    by blast
  have small: "(1 :: real) / 2 ^ 37 \<le> 1 / 4"
    by simp
  have "r \<le> 65535 + 1 / 4"
    using r(2) small assms(5) unfolding abs_le_iff by linarith
  then have "0 \<le> r + 1 / 2" "r + 1 / 2 \<le> 2 ^ 16"
    using r(3) by simp_all
  from round_double_near [OF this] obtain q where
    q: "round_double (r + 1 / 2) = Finite q" "\<bar>q - (r + 1 / 2)\<bar> \<le> 1 / 2 ^ 37" "0 \<le> q"
    by blast
  define p where "p = \<lfloor>q\<rfloor>"
  have "of_int p \<le> q" "q < of_int p + 1"
    unfolding p_def by linarith+
  moreover have "(1 :: real) / 2 ^ 37 + 1 / 2 ^ 37 = 1 / 2 ^ 36"
    by simp
  ultimately have near: "of_int p - ?x \<le> 1 / 2 + 1 / 2 ^ 36" "?x - of_int p \<le> 1 / 2 + 1 / 2 ^ 36"
    using r(2) q(2) unfolding abs_le_iff by linarith+
  have res: "resolve_stream_period s = (if p = 0 then Inl UsageError else Inr p)"
    using assms(1-4) r(1) q(1,3) by (simp add: resolve_stream_period_def positive_def Let_def p_def)
  have "0 \<le> p"
    using q(3) by (simp add: p_def)
  then have "p \<noteq> 0 \<Longrightarrow> 0 < p"
    by simp
  moreover have "\<bar>of_int p - ?x\<bar> \<le> 1 / 2 + 1 / 2 ^ 36"
    using near unfolding abs_le_iff by linarith
  moreover have "?x \<le> 1 / 2 + 1 / 2 ^ 36" if "p = 0"
    using near(2) that by (simp only: of_int_0 diff_0_right)
  ultimately show ?thesis
    unfolding res by (simp only: split: if_split) (simp only: sum.case simp_thms, blast)
qed


section \<open>What the exit codes can be\<close>

definition returns :: "'a set \<Rightarrow> ('t, 'a) cli \<Rightarrow> bool" where
  "returns S m \<longleftrightarrow> (\<forall>w x w1. m w = (Inr x, w1) \<longrightarrow> x \<in> S)"

lemma returns_intros:
  "x \<in> S \<Longrightarrow> returns S (cli_ret x)" "returns S (cli_parse (Inl e))"
  "(\<And>x. returns S (f x)) \<Longrightarrow> returns S (cli_bind m f)"
  by (auto simp: returns_def cli_ret_def cli_parse_def cli_bind_def split: prod.splits sum.splits)

lemma command_codes:
  "returns {ExitOk} (cmd_list C ctx s)" "returns {ExitOk} (cmd_info C d)" "returns {ExitOk} (cmd_caps C d)"
  "returns {ExitOk} (cmd_mode T d args)" "returns {ExitOk} (cmd_read C T d args)"
  "returns {ExitOk} (cmd_write T d args)" "returns {ExitOk} (cmd_aread C T d args s)"
  "returns {ExitOk} (cmd_readall C T d)" "returns {ExitOk} (cmd_areadall C T d s)"
  "returns {ExitOk} (cmd_pwm T d args)" "returns {ExitOk} (cmd_dac T d args)"
  "returns {ExitOk} (cmd_status C T d)" "returns {ExitOk} (cmd_time C T d)"
  unfolding cmd_list_def cmd_info_def cmd_caps_def cmd_mode_def cmd_read_def cmd_write_def cmd_aread_def
    cmd_readall_def cmd_areadall_def cmd_pwm_def cmd_dac_def cmd_status_def cmd_time_def Let_def split_def
  by (intro returns_intros singletonI)+

lemma stream_codes:
  assumes "cmd_stream C T d args s chunks w = (Inr n, w1)"
  shows "n \<in> {ExitOk, ExitDevice}"
  using assms
  by (auto simp: cmd_stream_def cli_bind_def cli_ret_def Let_def split: prod.splits sum.splits if_splits)

lemma map_sum_constant: "map_sum f (\<lambda>_. c) r = Inr n \<Longrightarrow> n = c"
  by (cases r) simp_all

lemma waiting_codes:
  "cmd_monitor C T d args s w = Some (Inr n, w1) \<Longrightarrow> n = ExitOk"
  "cmd_watch C T d args s k late w = Some (Inr n, w1) \<Longrightarrow> n = ExitOk"
  by (auto simp: cmd_monitor_def cmd_watch_def cli_bind_def cli_ret_def cli_parse_def Let_def
      split: prod.splits sum.splits option.splits bind_splits dest: map_sum_constant)

text \<open>The same for commands that may not return.\<close>

definition ends_with :: "'a set \<Rightarrow> ('t \<Rightarrow> ((failure + 'a) \<times> 't) option) \<Rightarrow> bool" where
  "ends_with S m \<longleftrightarrow> (\<forall>w x w1. m w = Some (Inr x, w1) \<longrightarrow> x \<in> S)"

lemma ends_with_intros:
  "returns {x} m \<Longrightarrow> x \<in> S \<Longrightarrow> ends_with S (Some \<circ> m)"
  "ends_with S k \<Longrightarrow> ends_with S k' \<Longrightarrow> ends_with S (if c then k else k')"
  by (auto simp: ends_with_def returns_def)

lemma run_command_codes: "ends_with {ExitOk, ExitDevice} (run_command C T d sch s command args)"
proof -
  have ops: "returns {ExitOk} (cli_bind (device_op m) (\<lambda>_. cli_ret ExitOk))" for m :: "('a, 'b) io"
    by (intro returns_intros singletonI)
  have parse: "ends_with {ExitOk, ExitDevice} (Some \<circ> cli_parse (Inl UsageError) :: 'a \<Rightarrow> ((failure + int) \<times> 'a) option)"
    by (simp add: ends_with_def cli_parse_def)
  have others: "ends_with {ExitOk, ExitDevice} (Some \<circ> cmd_stream C T d args s (sch_chunks sch))"
    "ends_with {ExitOk, ExitDevice} (cmd_monitor C T d args s)"
    "ends_with {ExitOk, ExitDevice} (cmd_watch C T d args s (sch_rounds sch) (sch_late sch))"
    using stream_codes waiting_codes unfolding ends_with_def by fastforce+
  show ?thesis
    unfolding run_command_def
    by (intro ends_with_intros(2) parse others ops [THEN ends_with_intros(1)]
        command_codes [THEN ends_with_intros(1)] insertI1)
qed

text \<open>\<open>main\<close> returns one of the three codes it documents, and 2 only for a \<open>UsageError\<close>.  A command line
  without a command, with an unknown one, too few arguments or a bad option is such an error before libusb
  is even initialised: the message is all that happens.\<close>

theorem main_returns_the_documented_codes:
  "(\<forall>n w1. main_program C sch parsed w = Some (n, w1) \<longrightarrow>
      n \<in> {ExitOk, ExitDevice, ExitUsage} \<and>
      (n = ExitUsage \<longleftrightarrow> (\<exists>w2. run C sch parsed w = Some (Inl UsageError, w2)))) \<and>
   (bind_parse (settings_of po) (\<lambda>s. checked_command s (default_to [] (po_args po))) = Inl UsageError \<and>
      \<not> po_help po \<and> \<not> po_version po \<longrightarrow>
    main_program C sch (Some po) w =
      Some (ExitUsage, print_to C Stderr (Format (''arduino-io: {}'' @ [newline]) [What UsageError]) w))"
proof (intro conjI allI impI)
  fix n w1
  assume main: "main_program C sch parsed w = Some (n, w1)"
  then obtain r w2 where run: "run C sch parsed w = Some (r, w2)" "n = exit_code r"
    using main_exit [of C sch parsed w] by (cases "run C sch parsed w") auto
  have "k \<in> {ExitOk, ExitDevice}" if "r = Inr k" for k
    using run(1) that run_command_codes [unfolded ends_with_def] command_codes(1) [unfolded returns_def]
    by (fastforce simp: run_def open_and_run_def cli_bind_def cli_ret_def split: option.splits if_splits sum.splits prod.splits)
  then show "n \<in> {ExitOk, ExitDevice, ExitUsage}"
    "n = ExitUsage \<longleftrightarrow> (\<exists>w2. run C sch parsed w = Some (Inl UsageError, w2))"
    using run by (cases r; auto simp: exit_code_def)+
next
  assume "bind_parse (settings_of po) (\<lambda>s. checked_command s (default_to [] (po_args po))) = Inl UsageError \<and>
    \<not> po_help po \<and> \<not> po_version po"
  then show "main_program C sch (Some po) w =
      Some (ExitUsage, print_to C Stderr (Format (''arduino-io: {}'' @ [newline]) [What UsageError]) w)"
    by (cases "settings_of po") (auto simp: main_program_def run_def bind_parse_def split: sum.splits)
qed

end
