(* ===== verification/HostStreamHandle.thy ===== *)
theory HostStreamHandle
  imports HostStream
begin

text \<open>
  The handle \<open>class Stream\<close> of \<open>src/Stream.cpp\<close>: what owning, moving, querying and stopping a stream
  do to the worker of \<open>HostStream\<close> and to the device.  A handle without an implementation is one that was
  moved from.  Lemmas: a stream is stopped once, and its device can be used again afterwards.
\<close>

section \<open>Handles\<close>

text \<open>\<open>si_stopped\<close> tells that the call under \<open>std::call_once\<close> has been made.\<close>

record stream_impl =
  si_env :: stream_env
  si_worker :: worker
  si_stopped :: bool

type_synonym stream = "stream_impl option"

definition make_stream :: "device \<Rightarrow> StreamConfig \<Rightarrow> u32 \<Rightarrow> stream" where
  "make_stream d config start_us =
     (case new_stream d config start_us of (env, wk) \<Rightarrow>
        Some \<lparr>si_env = env, si_worker = wk, si_stopped = False\<rparr>)"

text \<open>
  \<open>Stream::stop\<close>: joining the worker leaves it out of its loop, and the device stops sampling.  The
  results are the handle and the device.
\<close>

definition stop_stream :: "'t transport \<Rightarrow> stream \<Rightarrow> device \<Rightarrow> ('t, stream \<times> device) io" where
  "stop_stream T st d =
     (case st of
        None \<Rightarrow> ret (None, d)
      | Some impl \<Rightarrow>
          if si_stopped impl then ret (st, d)
          else io_bind (end_stream T d) (\<lambda>d1.
            ret (Some (impl\<lparr>si_worker := (si_worker impl)\<lparr>wk_running := False\<rparr>, si_stopped := True\<rparr>), d1)))"

text \<open>Move assignment from another handle: what this one had is stopped, and the other is left empty.\<close>

definition move_stream :: "'t transport \<Rightarrow> stream \<Rightarrow> stream \<Rightarrow> device \<Rightarrow> ('t, (stream \<times> stream) \<times> device) io" where
  "move_stream T this other d =
     io_bind (stop_stream T this d) (\<lambda>(_, d1). ret ((other, None), d1))"

definition read_stream :: "nat \<Rightarrow> stream \<Rightarrow> Sample list \<times> stream" where
  "read_stream room st =
     (case st of
        None \<Rightarrow> ([], None)
      | Some impl \<Rightarrow> (case read_samples room (si_worker impl) of (samples, wk) \<Rightarrow>
          (samples, Some (impl\<lparr>si_worker := wk\<rparr>))))"

definition on_records :: "bool \<Rightarrow> stream \<Rightarrow> stream" where
  "on_records callback = map_option (\<lambda>impl. impl\<lparr>si_worker := (si_worker impl)\<lparr>wk_callback_set := callback\<rparr>\<rparr>)"

definition stream_stats :: "stream \<Rightarrow> StreamStats" where
  "stream_stats st =
     (case st of
        None \<Rightarrow> \<lparr>device_overruns = 0, records_received = 0, seq_gaps = 0, host_drops = 0, resyncs = 0,
                 stale_records = 0\<rparr>
      | Some impl \<Rightarrow> wk_stats (si_worker impl))"

definition stream_error :: "stream \<Rightarrow> bool" where
  "stream_error st = (case st of None \<Rightarrow> False | Some impl \<Rightarrow> wk_error (si_worker impl))"

definition stream_running :: "stream \<Rightarrow> bool" where
  "stream_running st = (case st of None \<Rightarrow> False | Some impl \<Rightarrow> wk_running (si_worker impl))"

definition stream_pins :: "stream \<Rightarrow> u8 list" where
  "stream_pins st = (case st of None \<Rightarrow> [] | Some impl \<Rightarrow> cfg_pins (se_config (si_env impl)))"

section \<open>Stopping\<close>

lemma end_stream_result:
  obtains w1 where "end_stream T d w = (Inr (d\<lparr>dev_streaming := False\<rparr>), w1)"
proof (cases "dev_streaming d")
  case True
  obtain r w1 where "send_out T (dev_options d) USBIO_REQ_STREAM_STOP 0 0 w = (r, w1)"
    by (metis prod.exhaust)
  with True that show ?thesis
    by (cases r) (auto simp: end_stream_def io_bind_def io_catch_def ret_def)
next
  case False
  then have "d\<lparr>dev_streaming := False\<rparr> = d"
    by simp
  with False that show ?thesis
    by (simp add: end_stream_def ret_def)
qed

text \<open>\<open>stop\<close> never throws; afterwards the handle is not running and keeps its samples and statistics,
  the device takes ordinary calls again, and stopping once more changes nothing.\<close>

theorem stopping_a_stream:
  assumes "st = Some impl" and "\<not> si_stopped impl"
  shows "\<exists>st1 w1. stop_stream T st d w = (Inr (st1, d\<lparr>dev_streaming := False\<rparr>), w1) \<and>
    \<not> stream_running st1 \<and> stream_stats st1 = stream_stats st \<and>
    fst (read_stream room st1) = fst (read_stream room st) \<and>
    (\<forall>d2 w2. stop_stream T st1 d2 w2 = (Inr (st1, d2), w2))"
proof -
  obtain w1 where "end_stream T d w = (Inr (d\<lparr>dev_streaming := False\<rparr>), w1)"
    by (rule end_stream_result)
  with assms show ?thesis
    by (auto simp: stop_stream_def io_bind_def ret_def stream_running_def stream_stats_def read_stream_def
        read_samples_def split: prod.split)
qed

end
