(* ===== verification/Spec2Isabelle.thy ===== *)
theory Spec2Isabelle
  imports StreamGuarantees EventGuarantees HostReadback HostEvents HostSamples Adapters BulkTransfers HostSession
    HostDiscovery WatcherGuarantees CApiGuarantees
    InterleavingGuarantees AnalogGuarantees CliGuarantees HostStreamHandle
begin

text \<open>
  Verification library of ArduinoDriver: a firmware that turns an Arduino board into a USB I/O
  device with vendor control requests, and the host library that drives it.

  The program.  On the device, the USB stack calls \<open>UsbIoDevice::handle_setup\<close> in interrupt context
  for every vendor SETUP packet.  It validates the request, answers reads from shadow copies, and
  puts writes in a command queue; \<open>poll()\<close>, called from the sketch's \<open>loop()\<close>, serves resets,
  executes the queue, refreshes the shadows, scans the watched pins for edges and samples the
  stream.  The two sides share single-producer single-consumer rings indexed by free-running
  bytes.  On the host, \<open>Device\<close> validates a call against the tables it read when it connected,
  sends it through a \<open>Transport\<close> (\<open>LibusbTransport\<close>), retries while the device is busy, and turns a
  STALL into an exception by asking GET_STATUS for the reason; \<open>Stream\<close> reassembles records from a
  bulk pipe, \<open>EventWatcher\<close> polls events, \<open>Enumerator\<close> finds devices, a C interface wraps
  it, and the command line tool \<open>arduino-io\<close> makes its calls from a shell.

  The firmware (\<open>src/src\<close>).
    \<open>Prelude\<close>      machine integers, the little-endian codec, generic lemmas; collection \<open>wire_simps\<close>
    \<open>Ring\<close>         the rings; locales \<open>ring_depth\<close> (indices) and \<open>bounded_fifo\<close> (queue contract)
    \<open>Wire\<close>         \<open>usbio_protocol.h\<close>: codes, flags, reply layouts
    \<open>State\<close>        \<open>UsbIo.h\<close>: the members of \<open>UsbIoDevice\<close> as record \<open>fw\<close>; the board as record
                 \<open>board\<close>; the Arduino core as record \<open>arduino\<close> over a world \<open>'h\<close>; \<open>begin()\<close>
    \<open>Core\<close>         stall, queue, RESET and mode rules; the command queue is a \<open>bounded_fifo\<close>
    \<open>Events\<close>       the watch table, edge detection, EVENT_POP, EVENT_COUNTS; the event ring is a
                 \<open>bounded_fifo\<close>, the arming order an instance of \<open>comparison\<close> on recent stamps
    \<open>Streaming\<close>    STREAM_* requests, \<open>stream_poll\<close>, sampling and packing
    \<open>Requests\<close>     \<open>handle_setup\<close>, \<open>handle_out\<close>, \<open>handle_in\<close>; the refusals of an OUT request as a list
    \<open>Loop\<close>         \<open>poll\<close>, \<open>execute\<close>, resets, shadows
    \<open>Device\<close>       the invariant \<open>fw_inv\<close>, the step relation \<open>device_step\<close>, \<open>reachable\<close>
    \<open>Effects\<close>      what \<open>poll\<close> may do to the board
    \<open>Unchanged\<close>    what neither requests nor \<open>poll\<close> ever change
    \<open>Interleaving\<close> \<open>poll()\<close> as a machine of small steps (\<open>loop_micro\<close>, with a program counter) that
                 packets and disconnects interrupt anywhere (\<open>interleaved\<close>)
    \<open>Freshness\<close>    the commands in flight and the level a pin will have, along that machine
    \<open>Boards\<close>       \<open>UsbIoBoard.h\<close>: pin tables, counts and capabilities of the four cores
    \<open>Bench\<close>        a simulated world on which the concrete runs are evaluated
    \<open>Transports\<close>   \<open>transport/*.cpp\<close>: the SETUP callbacks and stream writes of the USB stacks
  The host library (\<open>src/extras/driver\<close>, \<open>src/extras/c_api\<close>).
    \<open>HostIO\<close>       \<open>Errors.h\<close>; operations with effects as functions \<open>'t \<Rightarrow> (error + 'a) \<times> 't\<close>
    \<open>HostProtocol\<close> \<open>Protocol.h\<close>: lengths, rules, decoders, clock reconstruction
    \<open>HostDevice\<close>   \<open>Device.cpp\<close>; locale \<open>transport_contract\<close> for what \<open>Device\<close> needs of a transport
    \<open>HostUsb\<close>      \<open>LibusbTransport.cpp\<close>: descriptors, control transfers, the ring of bulk transfers
    \<open>HostStream\<close>   \<open>Stream.cpp\<close>: the worker's parser, statistics, \<open>read()\<close>; \<open>HostStreamHandle\<close>: the
                 handle, its moves and its stop
    \<open>HostEnumerator\<close> \<open>Enumerator.cpp\<close>: filters, probe, listing, opening
    \<open>HostWatcher\<close>  \<open>EventWatcher.cpp\<close>: arming with rollback, the worker, stop
    \<open>HostCApi\<close>     \<open>c_api/src\<close>: the guard, the statuses, the entry points
    \<open>HostFloat\<close>    binary64: rounding, sums, products, quotients, \<open>std::lround\<close>, and their errors
    \<open>HostAnalog\<close>   the conversions of \<open>Device.cpp\<close> and \<open>Stream.cpp\<close> to volts and fractions
    \<open>CliArguments\<close> \<open>tools/arduino-io.cpp\<close>, its arguments: \<open>strtoul\<close>, \<open>strtod\<close>, words, pin lists
    \<open>HostCli\<close>      the rest of it: settings, the commands, \<open>run\<close> and \<open>main\<close>, over a console that is a
                 record of functions on the world; \<open>Context\<close>
  Both ends together.
    \<open>HostLink\<close>     a libusb whose control transfers are \<open>handle_setup\<close> of a running device, with any
                 schedule of \<open>poll()\<close> calls before each transfer and during each sleep; it is
                 interpreted as a \<open>transport_contract\<close> (\<open>link\<close>, and \<open>linked\<close> in \<open>HostSession\<close> with
                 the board's description added to the invariant)
    \<open>LinkBench\<close>    that link on the bench

  Conventions.  Machine integers are words of their width, so additions wrap as in C++; the free
  running ring indices, epochs, arming stamps and clocks rely on it.  An enum received from the
  wire is kept as its integer.  An exception or a refusal is a value (the left of a sum, \<open>None\<close> for a
  STALL), and every early return of the code is a branch of the model.  A reference parameter is
  an argument and part of the result.  Code the repository does not contain - the Arduino core,
  the USB stacks, libusb - is a parameter: records of functions on a world.

  Termination and fuel.  The loops of the firmware are total: the ring walks and drains decrease
  the distance of two byte indices, the reset loop the distance of two epochs, packing the bytes
  left in the packet; no fuel is used.  The host's retries recurse on the attempts left.  The
  loops that may wait for ever (draining events, \<open>wait_event\<close>, the bulk ring's \<open>read\<close> and destructor,
  \<open>monitor\<close>)
  are \<open>partial_function (option)\<close> whose \<open>None\<close> is not returning; C30 and C35 show when they return.
  A worker thread is the list of its rounds, which the model of \<open>stream\<close> and \<open>watch\<close> takes as a
  parameter (\<open>schedule\<close>).

  What is shown.
    \<open>InterleavingGuarantees\<close> (C1, C3, C7, C10, C17, C21): wherever interrupts hit \<open>poll()\<close>, the invariant
      holds and the board is touched only as the capabilities permit, and left alone \<open>poll()\<close> returns
      within 502 small steps (a bound counted from the 128 pins, 32 commands and 8 watches there can
      be), the next \<open>poll\<close> leaving nothing pending; an accepted level reads back or the answer is BUSY,
      but for two windows, each described for every state it opens in and run on the bench: between
      taking a command and executing it (stale reads for at most two more steps, and only of the held
      command's pin), and a RESET that comes while the queue is drained (applied after everything in
      flight, later commands included).
    \<open>Guarantees\<close> (C2, C4-C6, C8): the verdict, the first reason and the harmlessness of
      refusals; reply lengths; the command queue refines a bounded list, and tells which commands
      it takes; \<open>poll\<close> executes exactly
      the live commands and leaves nothing pending; RESET; a written level reads back.
    \<open>EventGuarantees\<close> (C12, C13, C15, C16): the watch list, the edge detector, debouncing, the bounded queue,
      EVENT_POP, EVENT_COUNTS; and the two ways the 8-bit arming stamp misleads the code.
    \<open>StreamGuarantees\<close> (C18-C20): no byte of the stream is lost or reordered, every sample is
      accounted for (record by record, in each of the three things that can happen to a packet),
      the schedule stays ahead, the channel list, the claimed pins.
    \<open>HostGuarantees\<close>, \<open>HostReadback\<close>, \<open>HostEvents\<close>, \<open>HostSamples\<close> (C23-C25, C27, C29-C32): decoders invert the
      firmware's encoders; host and firmware rules agree; connecting, refusals and driven pins
      over the link; read back, event polling and samples end to end.
    \<open>Adapters\<close> (C33), \<open>BulkTransfers\<close> (C34, C35), \<open>HostSession\<close> (C36): all USB stacks answer as the core;
      the bulk ring loses nothing and its destructor ends; any session of calls keeps the picture.
    \<open>HostDiscovery\<close> (C37, C38), \<open>WatcherGuarantees\<close> (C39), \<open>CApiGuarantees\<close> (C40): listing and opening,
      watchers leave nothing behind, a C status is the firmware's verdict.
    \<open>AnalogGuarantees\<close> (C9, C11, C14): a voltage or a fraction sends the nearest code, every code can be
      reached, and a sample read in volts can be written back.
    \<open>CliGuarantees\<close> (C22, C26, C28): pin lists and numbers are read as they were written, a percentage
      sends the nearest code, the exit code of a command is the verdict of the firmware; \<open>monitor\<close>
      stays within the tables of the device, \<open>--hz\<close> becomes the nearest period, and wrong command
      lines do nothing but print.  The exit codes depend only on the arguments, the pin's
      capabilities and mode when the tool starts, and the room in the queue when the command's own
      transfer arrives, after those that open the device.  A minus behind a space passes the guard:
      only 0 and the last 255 numbers below 2^64 wrap around to a pin.

  Not modelled, and why.
    Floating point other than the operations the library and the tool use: the sign of a zero, and
      most operations on infinities or NaN.
    Texts: messages of exceptions, \<open>describe_*\<close> functions, and what \<open>fmt\<close> makes of a format string
      and its arguments (a printed line is the pair of them).
    Interrupts inside a small step.  On the way of a command a step is one test or one statement; the
      turn of one analog pin, the scan of one watch and each of the four stages of the stream (START,
      sampling, packing, sending) are one step each, although the code reads fields the interrupt
      side writes several times in them.  Torn reads of two-byte fields are outside the model.  The
      theorems other than those of \<open>InterleavingGuarantees\<close> take \<open>poll()\<close> as one step.
    Threads, mutexes and condition variables of the host: operations are atomic calls in sequence;
      starting and joining threads, the moves of a watcher and reference counts are left out.
    The failure to allocate a transfer of the bulk ring, and the call of libusb that detaches a
      kernel driver.
    USB descriptors the firmware registers and the enumeration itself; the destructors of \<open>Context\<close>
      and of the handles.
    Of \<open>tools/arduino-io.cpp\<close>: what \<open>cxxopts\<close> makes of the command line (the record
      \<open>parsed_options\<close>), the two lines of \<open>info\<close> about the transport, and the waiting of \<open>stream\<close> and
      \<open>watch\<close> for their time limit; \<open>unsigned long\<close> has 64 bits.
    The R binding, tests and examples: glue around single calls.
\<close>

end
